(* ===== verification/Prelude.thy ===== *)
theory Prelude
  imports Main "HOL-Library.Word" "HOL-Library.AList" "HOL-Library.Multiset"
begin

text \<open>
  What the component theories share: the names of the Go types that occur everywhere, the
  treatment of Go maps, generic list lemmas, and the reachable states of a transition system
  with the locale that lifts an inductive invariant to them.

  A Go \<^verbatim>\<open>map\<close> that the program only looks up and stores into is a HOL map
  \<open>'k \<rightharpoonup> 'v\<close>. A Go map that the program ranges over is an association list with distinct
  keys, its entries in the order in which \<^verbatim>\<open>range\<close> delivers them; that order is not
  specified by Go, so theorems about such loops hold for every list.
\<close>

section \<open>Names of types\<close>

type_synonym int64 = "64 word"
type_synonym ('k, 'v) gomap = "('k \<times> 'v) list"

text \<open>\<^verbatim>\<open>types.NamespacedName\<close>, the key of objects and of the planner's maps.\<close>

record NamespacedName =
  nn_Namespace :: string
  nn_Name :: string

section \<open>Collections of proof rules\<close>

named_theorems go_map \<open>lookups and stores of Go maps\<close>
named_theorems status_simps \<open>the status values of the scheduling framework\<close>

lemma gomap_update_lookup [go_map]:
  "map_of (AList.update k v m) = (map_of m)(k \<mapsto> v)"
  by (simp add: update_conv')

lemma gomap_update_distinct [go_map]:
  "distinct (map fst m) \<Longrightarrow> distinct (map fst (AList.update k v m))"
  by (rule distinct_update)

lemma gomap_lookup_mem [go_map]:
  "distinct (map fst m) \<Longrightarrow> (k, v) \<in> set m \<longleftrightarrow> map_of m k = Some v"
  by simp

section \<open>Lists\<close>

lemma filter_distinct_fst:
  "distinct (map fst xs) \<Longrightarrow> distinct (map fst (filter P xs))"
  by (induction xs) auto

lemma split_at_last:
  assumes "xs @ c # ys = xs' @ c # ys'" and "c \<notin> set ys" and "c \<notin> set ys'"
  shows "xs = xs' \<and> ys = ys'"
  using assms
proof (induction xs arbitrary: xs')
  case Nil
  then show ?case by (cases xs') auto
next
  case (Cons x xs)
  show ?case
  proof (cases xs')
    case Nil
    with Cons.prems show ?thesis by auto
  next
    case (Cons x' xs'')
    with Cons.prems Cons.IH [of xs''] show ?thesis by auto
  qed
qed

lemma filter_eq_nil_iff: "filter P xs = [] \<longleftrightarrow> (\<forall>x \<in> set xs. \<not> P x)"
  by (induction xs) auto

section \<open>Strings\<close>

text \<open>
  The functions of the package \<^verbatim>\<open>strings\<close> that the program uses: \<^verbatim>\<open>Join\<close>,
  \<^verbatim>\<open>Split\<close> at one character, \<^verbatim>\<open>HasPrefix\<close>, \<^verbatim>\<open>Contains\<close>.
\<close>

fun strings_Join :: "string list \<Rightarrow> string \<Rightarrow> string" where
  "strings_Join [] sep = ''''"
| "strings_Join [s] sep = s"
| "strings_Join (s # t # ss) sep = s @ sep @ strings_Join (t # ss) sep"

fun strings_Split :: "string \<Rightarrow> char \<Rightarrow> string list" where
  "strings_Split [] c = ['''']"
| "strings_Split (x # xs) c =
     (if x = c then '''' # strings_Split xs c
      else (case strings_Split xs c of [] \<Rightarrow> [[x]] | w # ws \<Rightarrow> (x # w) # ws))"

fun HasPrefix :: "string \<Rightarrow> string \<Rightarrow> bool" where
  "HasPrefix s [] \<longleftrightarrow> True"
| "HasPrefix [] (p # ps) \<longleftrightarrow> False"
| "HasPrefix (x # xs) (p # ps) \<longleftrightarrow> x = p \<and> HasPrefix xs ps"

fun Contains :: "string \<Rightarrow> string \<Rightarrow> bool" where
  "Contains [] sub \<longleftrightarrow> sub = []"
| "Contains (x # xs) sub \<longleftrightarrow> HasPrefix (x # xs) sub \<or> Contains xs sub"

lemma HasPrefix_iff: "HasPrefix s p \<longleftrightarrow> (\<exists>t. s = p @ t)"
  by (induction s p rule: HasPrefix.induct) auto

lemma HasPrefix_Contains: "HasPrefix s p \<Longrightarrow> Contains s p"
  by (cases s; cases p) auto

lemma Contains_prepend: "Contains s p \<Longrightarrow> Contains (t @ s) p"
  by (induction t) auto

lemma Contains_iff: "Contains s p \<longleftrightarrow> (\<exists>t u. s = t @ p @ u)"
proof
  show "Contains s p \<Longrightarrow> \<exists>t u. s = t @ p @ u"
  proof (induction s)
    case (Cons x xs)
    then show ?case
      by (metis Contains.simps(2) HasPrefix_iff append_Cons append_Nil)
  qed auto
next
  assume "\<exists>t u. s = t @ p @ u"
  then obtain t u where s: "s = t @ p @ u" by blast
  have "Contains (p @ u) p"
    by (rule HasPrefix_Contains) (simp add: HasPrefix_iff)
  then show "Contains s p" unfolding s by (rule Contains_prepend)
qed

text \<open>\<^verbatim>\<open>fmt.Sprint\<close> and the verb \<^verbatim>\<open>%d\<close> on integers: decimal digits.\<close>

definition digit_char :: "nat \<Rightarrow> char" where
  "digit_char d = char_of (48 + d)"

fun sprint_nat :: "nat \<Rightarrow> string" where
  "sprint_nat n =
     (if n < 10 then [digit_char n] else sprint_nat (n div 10) @ [digit_char (n mod 10)])"

declare sprint_nat.simps [simp del]

definition sprint_int :: "int \<Rightarrow> string" where
  "sprint_int i = (if i < 0 then CHR ''-'' # sprint_nat (nat (- i)) else sprint_nat (nat i))"

section \<open>Transition systems\<close>

text \<open>
  The states reachable from the states of \<open>init\<close> by steps of \<open>step\<close>, and the interface that
  lifts an inductive invariant: a component supplies its start states, its steps and an
  invariant that both keep, and reads off that every reachable state satisfies it.
\<close>

inductive reachable :: "('s \<Rightarrow> bool) \<Rightarrow> ('s \<Rightarrow> 's \<Rightarrow> bool) \<Rightarrow> 's \<Rightarrow> bool"
  for init :: "'s \<Rightarrow> bool" and step :: "'s \<Rightarrow> 's \<Rightarrow> bool" where
  reachable_start: "init s \<Longrightarrow> reachable init step s"
| reachable_step: "reachable init step s \<Longrightarrow> step s t \<Longrightarrow> reachable init step t"

locale invariant_system =
  fixes init :: "'s \<Rightarrow> bool" and step :: "'s \<Rightarrow> 's \<Rightarrow> bool" and inv :: "'s \<Rightarrow> bool"
  assumes inv_start: "init s \<Longrightarrow> inv s"
    and inv_step: "inv s \<Longrightarrow> step s t \<Longrightarrow> inv t"
begin

lemma reachable_inv: "reachable init step s \<Longrightarrow> inv s"
  by (induction rule: reachable.induct) (auto intro: inv_start inv_step)

end

text \<open>
  Progress: as long as the goal is not reached, some step brings a measure down. Then a run to the
  goal exists from every state of the invariant.
\<close>

locale progress_system = invariant_system init step inv
  for init :: "'s \<Rightarrow> bool" and step :: "'s \<Rightarrow> 's \<Rightarrow> bool" and inv :: "'s \<Rightarrow> bool" +
  fixes goal :: "'s \<Rightarrow> bool" and left :: "'s \<Rightarrow> nat"
  assumes progress: "inv s \<Longrightarrow> \<not> goal s \<Longrightarrow> \<exists>t. step s t \<and> left t < left s"
begin

lemma inv_reaches_goal: "inv s \<Longrightarrow> \<exists>t. step\<^sup>*\<^sup>* s t \<and> goal t"
proof (induction "left s" arbitrary: s rule: less_induct)
  case less
  show ?case
  proof (cases "goal s")
    case False
    then obtain u where u: "step s u" "left u < left s" using progress less.prems by blast
    then obtain t where "step\<^sup>*\<^sup>* u t" "goal t" using less.hyps inv_step less.prems by blast
    with u(1) show ?thesis by (meson converse_rtranclp_into_rtranclp)
  qed blast
qed

lemma reaches_goal: "reachable init step s \<Longrightarrow> \<exists>t. step\<^sup>*\<^sup>* s t \<and> goal t"
  by (rule inv_reaches_goal) (rule reachable_inv)

end

lemma reachable_run: "step\<^sup>*\<^sup>* s t \<Longrightarrow> reachable init step s \<Longrightarrow> reachable init step t"
  by (induction rule: rtranclp_induct) (auto intro: reachable_step)

end
