(* ===== verification/Kube.thy ===== *)
theory Kube
  imports Prelude
begin

text \<open>
  The Kubernetes data the program reads and the results it returns: pods, nodes, taints and
  tolerations, selectors as data, the custom resources \<^verbatim>\<open>SchedulePlan\<close> and
  \<^verbatim>\<open>ScheduleTrigger\<close>, Go errors with their sentinels, and the status values of the
  scheduling framework. A record of a Kubernetes object holds the fields the program reads,
  with the Go path of each in a comment; everything else of the object does not influence
  the code that is modelled.
\<close>

section \<open>Errors\<close>

text \<open>
  The sentinel errors of the packages (\<^verbatim>\<open>errors.go\<close> of the planner, the scheduler and
  podpredicates, and those of the client package). A wrapped error carries the text of the
  wrapping call; an error of a call into code outside the repository is opaque.
\<close>

datatype sentinel =
    PlannerErrNotFound | ErrNoNodesFound | ErrPodNotAssigned | ErrEmptyPriorityList
  | SchedulerErrNotFound | ErrNoPodSetFound | ErrNoPlannersFound | ErrNilAssignmentState
  | ErrInvalidAssignmentState | ErrBuildingPlan | ErrPodNotAssignable
  | ErrNoPredicate | ErrAlreadyExists | ErrInvalidResource
  | ErrNoTriggersFound | FrameworkErrNotFound

datatype err =
    Sentinel sentinel
  | Wrapped string err
  | External string

text \<open>
  \<^verbatim>\<open>Error()\<close>: the text of an error. The text of a wrapped error is the text of the
  format before the \<^verbatim>\<open>%w\<close>, separator included, followed by that of the inner error.
\<close>

fun sentinel_text :: "sentinel \<Rightarrow> string" where
  "sentinel_text PlannerErrNotFound = ''not-found''"
| "sentinel_text ErrNoNodesFound = ''no eligible nodes found''"
| "sentinel_text ErrPodNotAssigned = ''pod-not-assigned''"
| "sentinel_text ErrEmptyPriorityList = ''empty-priority-list''"
| "sentinel_text SchedulerErrNotFound = ''not-found''"
| "sentinel_text ErrNoPodSetFound = ''no-podset-found''"
| "sentinel_text ErrNoPlannersFound = ''no-planners''"
| "sentinel_text ErrNilAssignmentState = ''nil-assignment-state''"
| "sentinel_text ErrInvalidAssignmentState = ''invalid-assignment-state''"
| "sentinel_text ErrBuildingPlan = ''plan-build-failure''"
| "sentinel_text ErrPodNotAssignable = ''pod-cannot-be-assigned''"
| "sentinel_text ErrNoPredicate = ''no predicate found''"
| "sentinel_text ErrAlreadyExists = ''already exists''"
| "sentinel_text ErrInvalidResource = ''invalid resource''"
| "sentinel_text ErrNoTriggersFound = ''no triggers found''"
| "sentinel_text FrameworkErrNotFound = ''not found''"

fun err_Error :: "err \<Rightarrow> string" where
  "err_Error (Sentinel s) = sentinel_text s"
| "err_Error (Wrapped m e) = m @ err_Error e"
| "err_Error (External m) = m"

text \<open>\<^verbatim>\<open>errors.Is\<close> against a sentinel: walk the chain of wrapped errors.\<close>

fun errors_is :: "err \<Rightarrow> sentinel \<Rightarrow> bool" where
  "errors_is (Sentinel s) t \<longleftrightarrow> s = t"
| "errors_is (Wrapped _ e) t \<longleftrightarrow> errors_is e t"
| "errors_is (External _) t \<longleftrightarrow> False"

section \<open>Status values of the scheduling framework\<close>

datatype code = Success | Error | Unschedulable | UnschedulableAndUnresolvable | Wait | Skip

record Status =
  st_code :: code
  st_reasons :: "string list"
  st_err :: "err option"

definition NewStatus :: "code \<Rightarrow> string list \<Rightarrow> Status" where
  "NewStatus c reasons =
     \<lparr>st_code = c, st_reasons = reasons,
      st_err = (if c = Error then Some (External (strings_Join reasons '', '')) else None)\<rparr>"

definition AsStatus :: "err \<Rightarrow> Status" where
  "AsStatus e = \<lparr>st_code = Error, st_reasons = [err_Error e], st_err = Some e\<rparr>"

definition IsSuccess :: "Status \<Rightarrow> bool" where
  "IsSuccess s \<longleftrightarrow> st_code s = Success"

text \<open>
  \<^verbatim>\<open>Status.Equal\<close> against \<^verbatim>\<open>AsStatus\<close> of a sentinel: the codes agree and, both being
  \<^verbatim>\<open>Error\<close>, the errors are compared by \<^verbatim>\<open>errors.Is\<close>.
\<close>

definition StatusEqualErr :: "Status \<Rightarrow> sentinel \<Rightarrow> bool" where
  "StatusEqualErr s t \<longleftrightarrow>
     st_code s = Error \<and> (case st_err s of None \<Rightarrow> False | Some e \<Rightarrow> errors_is e t)"

lemma NewStatus_simps [status_simps, simp]:
  "st_code (NewStatus c rs) = c"
  "IsSuccess (NewStatus c rs) \<longleftrightarrow> c = Success"
  by (simp_all add: NewStatus_def IsSuccess_def)

lemma AsStatus_simps [status_simps, simp]:
  "st_code (AsStatus e) = Error"
  "st_err (AsStatus e) = Some e"
  "\<not> IsSuccess (AsStatus e)"
  "StatusEqualErr (AsStatus e) t \<longleftrightarrow> errors_is e t"
  by (simp_all add: AsStatus_def IsSuccess_def StatusEqualErr_def)

lemma StatusEqualErr_NewStatus [status_simps, simp]:
  "c \<noteq> Error \<Longrightarrow> \<not> StatusEqualErr (NewStatus c rs) t"
  by (simp add: StatusEqualErr_def)

section \<open>Nodes and pods\<close>

datatype taint_effect = NoEffect | EffectNoSchedule | EffectPreferNoSchedule | EffectNoExecute

record Taint =
  taint_Key :: string
  taint_Value :: string
  taint_Effect :: taint_effect

datatype toleration_operator = OpEmpty | OpEqual | OpExists | OpOther string

record Toleration =
  tol_Key :: string
  tol_Operator :: toleration_operator
  tol_Value :: string
  tol_Effect :: taint_effect

text \<open>
  What the program observes of a \<^verbatim>\<open>resource.Quantity\<close>: the results of its methods
  \<^verbatim>\<open>Value\<close> and \<^verbatim>\<open>MilliValue\<close>, which are 64-bit integers.
\<close>

record Quantity =
  q_Value :: int64
  q_MilliValue :: int64

type_synonym ResourceList = "(string, Quantity) gomap"

record Container =
  c_Image :: string
  c_Requests :: ResourceList  \<comment> \<open>Resources.Requests\<close>

record OwnerReference =
  or_Kind :: string
  or_Name :: string

record LabelSelectorRequirement =
  lsr_Key :: string
  lsr_Operator :: string
  lsr_Values :: "string list"

record LabelSelector =
  ls_MatchLabels :: "(string, string) gomap"
  ls_MatchExpressions :: "LabelSelectorRequirement list"

record PodAffinityTerm =
  pat_LabelSelector :: "LabelSelector option"
  pat_Namespaces :: "string list"

text \<open>Required terms, and preferred terms with their weights.\<close>

record PodAntiAffinity =
  paa_Required :: "PodAffinityTerm list"
  paa_Preferred :: "(int \<times> PodAffinityTerm) list"

datatype phase = PodPending | PodRunning | PodSucceeded | PodFailed | PodUnknown

type_synonym labels = "(string, string) gomap"

record Pod =
  pod_Name :: string                     \<comment> \<open>ObjectMeta.Name\<close>
  pod_Namespace :: string                \<comment> \<open>ObjectMeta.Namespace\<close>
  pod_Labels :: labels                   \<comment> \<open>ObjectMeta.Labels\<close>
  pod_DeletionTimestamp :: "nat option"  \<comment> \<open>ObjectMeta.DeletionTimestamp\<close>
  pod_OwnerReferences :: "OwnerReference list"
  pod_Containers :: "Container list"     \<comment> \<open>Spec.Containers\<close>
  pod_InitContainers :: "Container list" \<comment> \<open>Spec.InitContainers\<close>
  pod_Tolerations :: "Toleration list"   \<comment> \<open>Spec.Tolerations\<close>
  pod_AntiAffinity :: "PodAntiAffinity option"
    \<comment> \<open>Spec.Affinity.PodAntiAffinity, None when either pointer is nil\<close>
  pod_NodeSelector :: "(string, string) gomap"
  pod_Phase :: phase                     \<comment> \<open>Status.Phase\<close>
  pod_HostIP :: string                   \<comment> \<open>Status.HostIP\<close>

record Node =
  node_Name :: string
  node_Labels :: labels
  node_Taints :: "Taint list"            \<comment> \<open>Spec.Taints\<close>
  node_Addresses :: "string list"        \<comment> \<open>Status.Addresses[i].Address\<close>
  node_Allocatable :: ResourceList       \<comment> \<open>Status.Allocatable\<close>

text \<open>A pod and a node with nothing set, from which concrete examples are built.\<close>

definition blank_pod :: Pod where
  "blank_pod = \<lparr>pod_Name = '''', pod_Namespace = '''', pod_Labels = [],
     pod_DeletionTimestamp = None, pod_OwnerReferences = [], pod_Containers = [],
     pod_InitContainers = [], pod_Tolerations = [], pod_AntiAffinity = None,
     pod_NodeSelector = [], pod_Phase = PodPending, pod_HostIP = ''''\<rparr>"

definition blank_node :: Node where
  "blank_node = \<lparr>node_Name = '''', node_Labels = [], node_Taints = [], node_Addresses = [],
     node_Allocatable = []\<rparr>"

text \<open>The key of a pod in the planner's maps.\<close>

definition pod_key :: "Pod \<Rightarrow> NamespacedName" where
  "pod_key p = \<lparr>nn_Namespace = pod_Namespace p, nn_Name = pod_Name p\<rparr>"

lemma pod_key_eq_iff [simp]:
  "pod_key p = pod_key q \<longleftrightarrow> pod_Namespace p = pod_Namespace q \<and> pod_Name p = pod_Name q"
  by (simp add: pod_key_def)

text \<open>
  The loops over \<^verbatim>\<open>pod.Labels\<close> that look for one key: keys of a map are distinct, so the
  loop finds the key's value wherever it comes in the iteration.
\<close>

definition label_of :: "string \<Rightarrow> labels \<Rightarrow> string" where
  "label_of k ls = (case map_of ls k of None \<Rightarrow> '''' | Some v \<Rightarrow> v)"

section \<open>The custom resources\<close>

record PlanSpec =
  ps_Pod :: string
  ps_Node :: string

record SchedulePlan =
  plan_Namespace :: string
  plan_Name :: string
  plan_Labels :: labels
  plan_Plan :: "PlanSpec list"  \<comment> \<open>Spec.Plan\<close>

record ScheduleTrigger =
  trig_Namespace :: string
  trig_Name :: string
  trig_Labels :: labels
  trig_State :: string          \<comment> \<open>Spec.State\<close>

text \<open>The arguments of the scheduler plugin in the configuration of the scheduler.\<close>

record PodSetPlannerArgs =
  arg_Debug :: bool
  arg_CallTimeout :: string
  arg_UpdatePeriod :: string

end
