(* ===== verification/Resources.thy ===== *)
theory Resources
  imports Kube
begin

text \<open>
  Compute resources: the resource-name tests of \<^verbatim>\<open>pkg/podpredicates/helpers.go\<close> and
  the type \<^verbatim>\<open>Resource\<close> of \<^verbatim>\<open>pkg/podpredicates/nodefit.go\<close> with its
  operations and \<^verbatim>\<open>computePodResourceRequest\<close>. Quantities are 64-bit integers and
  wrap. The lemmas show that the loops over resource lists do not depend on the order in
  which Go delivers the entries, and what a pod's request amounts to.
\<close>

section \<open>Resource names\<close>

text \<open>
  The vendored \<^verbatim>\<open>validation.IsQualifiedName\<close>: whether it reports no error. A name part
  of at most 63 characters, optionally after a DNS subdomain of at most 253 and a slash.
\<close>

definition lower_alnum :: "char \<Rightarrow> bool" where
  "lower_alnum c \<longleftrightarrow> c \<in> set ''abcdefghijklmnopqrstuvwxyz0123456789''"

definition alnum :: "char \<Rightarrow> bool" where
  "alnum c \<longleftrightarrow> lower_alnum c \<or> c \<in> set ''ABCDEFGHIJKLMNOPQRSTUVWXYZ''"

text \<open>The shared shape of both expressions: first and last from one class, the rest wider.\<close>

definition bracketed :: "(char \<Rightarrow> bool) \<Rightarrow> (char \<Rightarrow> bool) \<Rightarrow> string \<Rightarrow> bool" where
  "bracketed edge inner s \<longleftrightarrow>
     (case s of [] \<Rightarrow> False | c # _ \<Rightarrow> edge c \<and> edge (last s) \<and> list_all inner s)"

definition IsDNS1123Subdomain :: "string \<Rightarrow> bool" where
  "IsDNS1123Subdomain s \<longleftrightarrow> length s \<le> 253 \<and>
     list_all (bracketed lower_alnum (\<lambda>c. lower_alnum c \<or> c = CHR ''-''))
       (strings_Split s CHR ''.'')"

definition IsQualifiedNamePart :: "string \<Rightarrow> bool" where
  "IsQualifiedNamePart s \<longleftrightarrow> length s \<le> 63 \<and>
     bracketed alnum (\<lambda>c. alnum c \<or> c \<in> set ''-_.'') s"

definition IsQualifiedName :: "string \<Rightarrow> bool" where
  "IsQualifiedName value =
     (case strings_Split value CHR ''/'' of
        [name] \<Rightarrow> IsQualifiedNamePart name
      | [pfx, name] \<Rightarrow> pfx \<noteq> [] \<and> IsDNS1123Subdomain pfx \<and> IsQualifiedNamePart name
      | _ \<Rightarrow> False)"

definition DefaultResourceRequestsPrefix :: string where
  "DefaultResourceRequestsPrefix = ''requests.''"

definition ResourceDefaultNamespacePrefix :: string where
  "ResourceDefaultNamespacePrefix = ''kubernetes.io/''"

definition ResourceHugePagesPrefix :: string where
  "ResourceHugePagesPrefix = ''hugepages-''"

definition ResourceAttachableVolumesPrefix :: string where
  "ResourceAttachableVolumesPrefix = ''attachable-volumes-''"

definition IsPrefixedNativeResource :: "string \<Rightarrow> bool" where
  "IsPrefixedNativeResource name = Contains name ResourceDefaultNamespacePrefix"

definition IsNativeResource :: "string \<Rightarrow> bool" where
  "IsNativeResource name \<longleftrightarrow> \<not> Contains name ''/'' \<or> IsPrefixedNativeResource name"

definition IsHugePageResourceName :: "string \<Rightarrow> bool" where
  "IsHugePageResourceName name = HasPrefix name ResourceHugePagesPrefix"

definition IsAttachableVolumeResourceName :: "string \<Rightarrow> bool" where
  "IsAttachableVolumeResourceName name = HasPrefix name ResourceAttachableVolumesPrefix"

definition IsExtendedResourceName :: "string \<Rightarrow> bool" where
  "IsExtendedResourceName name =
     (if IsNativeResource name \<or> HasPrefix name DefaultResourceRequestsPrefix then False
      else let nameForQuota = DefaultResourceRequestsPrefix @ name
           in if \<not> IsQualifiedName nameForQuota then False else True)"

definition IsScalarResourceName :: "string \<Rightarrow> bool" where
  "IsScalarResourceName name \<longleftrightarrow>
     IsExtendedResourceName name \<or> IsHugePageResourceName name \<or>
     IsPrefixedNativeResource name \<or> IsAttachableVolumeResourceName name"

definition HugePageSizeFromResourceName ::
  "(string \<Rightarrow> err + Quantity) \<Rightarrow> string \<Rightarrow> err + Quantity" where
  \<comment> \<open>the first argument is \<^verbatim>\<open>resource.ParseQuantity\<close>\<close>
  "HugePageSizeFromResourceName ParseQuantity name =
     (if \<not> IsHugePageResourceName name
      then Inl (Wrapped (''resource name: '' @ name @ '' is an invalid hugepage name: '')
                  (Sentinel ErrInvalidResource))
      else ParseQuantity (drop (length ResourceHugePagesPrefix) name))"

section \<open>The type Resource\<close>

record Resource =
  MilliCPU :: int64
  Memory :: int64
  EphemeralStorage :: int64
  AllowedPodNumber :: int64
  ScalarResources :: "(string, int64) gomap"

definition emptyResource :: Resource where
  "emptyResource = \<lparr>MilliCPU = 0, Memory = 0, EphemeralStorage = 0, AllowedPodNumber = 0,
                    ScalarResources = []\<rparr>"

text \<open>Reading a missing key of a Go map gives the zero value.\<close>

definition scalar :: "Resource \<Rightarrow> string \<Rightarrow> int64" where
  "scalar r name = (case map_of (ScalarResources r) name of None \<Rightarrow> 0 | Some v \<Rightarrow> v)"

definition SetScalar :: "Resource \<Rightarrow> string \<Rightarrow> int64 \<Rightarrow> Resource" where
  "SetScalar r name quantity =
     r\<lparr>ScalarResources := AList.update name quantity (ScalarResources r)\<rparr>"

definition AddScalar :: "Resource \<Rightarrow> string \<Rightarrow> int64 \<Rightarrow> Resource" where
  "AddScalar r name quantity = SetScalar r name (scalar r name + quantity)"

text \<open>One iteration of the loop of \<^verbatim>\<open>Add\<close>; ephemeral storage is an empty case.\<close>

definition Add_step :: "Resource \<Rightarrow> string \<times> Quantity \<Rightarrow> Resource" where
  "Add_step r e = (case e of (rName, rQuant) \<Rightarrow>
     if rName = ''cpu'' then r\<lparr>MilliCPU := MilliCPU r + q_MilliValue rQuant\<rparr>
     else if rName = ''memory'' then r\<lparr>Memory := Memory r + q_Value rQuant\<rparr>
     else if rName = ''pods'' then r\<lparr>AllowedPodNumber := AllowedPodNumber r + q_Value rQuant\<rparr>
     else if rName = ''ephemeral-storage'' then r
     else if IsScalarResourceName rName then AddScalar r rName (q_Value rQuant)
     else r)"

definition Resource_Add :: "Resource \<Rightarrow> ResourceList \<Rightarrow> Resource" where
  "Resource_Add r rl = foldl Add_step r rl"

definition NewResource :: "ResourceList \<Rightarrow> Resource" where
  "NewResource rl = Resource_Add emptyResource rl"

definition Clone :: "Resource \<Rightarrow> Resource" where
  "Clone r = \<lparr>MilliCPU = MilliCPU r, Memory = Memory r,
              EphemeralStorage = EphemeralStorage r, AllowedPodNumber = AllowedPodNumber r,
              ScalarResources =
                foldl (\<lambda>m (k, v). AList.update k v m) [] (ScalarResources r)\<rparr>"

text \<open>One iteration of the loop of \<^verbatim>\<open>SetMaxResource\<close>; comparisons are signed.\<close>

definition SetMax_step :: "Resource \<Rightarrow> string \<times> Quantity \<Rightarrow> Resource" where
  "SetMax_step r e = (case e of (rName, rQuantity) \<Rightarrow>
     if rName = ''memory'' then
       (let mem = q_Value rQuantity in if sint mem > sint (Memory r) then r\<lparr>Memory := mem\<rparr> else r)
     else if rName = ''cpu'' then
       (let cpu = q_MilliValue rQuantity
        in if sint cpu > sint (MilliCPU r) then r\<lparr>MilliCPU := cpu\<rparr> else r)
     else if rName = ''ephemeral-storage'' then
       (let es = q_Value rQuantity
        in if sint es > sint (EphemeralStorage r) then r\<lparr>EphemeralStorage := es\<rparr> else r)
     else if IsScalarResourceName rName then
       (let value = q_Value rQuantity
        in if sint value > sint (scalar r rName) then SetScalar r rName value else r)
     else r)"

definition SetMaxResource :: "Resource \<Rightarrow> ResourceList \<Rightarrow> Resource" where
  "SetMaxResource r rl = foldl SetMax_step r rl"

definition computePodResourceRequest :: "Pod \<Rightarrow> Resource" where
  "computePodResourceRequest pod =
     (let result = foldl (\<lambda>r c. Resource_Add r (c_Requests c)) emptyResource (pod_Containers pod)
      in foldl (\<lambda>r c. SetMaxResource r (c_Requests c)) result (pod_InitContainers pod))"

section \<open>Lists of resources in any order\<close>

text \<open>
  Two resources are the same Go value when their counters agree and their scalar maps hold
  the same entries. On that view the loop bodies commute, so the loops depend only on the
  multiset of entries.
\<close>

definition res_view :: "Resource \<Rightarrow> int64 \<times> int64 \<times> int64 \<times> int64 \<times> (string \<rightharpoonup> int64)" where
  "res_view r = (MilliCPU r, Memory r, EphemeralStorage r, AllowedPodNumber r,
                 map_of (ScalarResources r))"

abbreviation scalar_of :: "(string \<rightharpoonup> int64) \<Rightarrow> string \<Rightarrow> int64" where
  "scalar_of m k \<equiv> (case m k of None \<Rightarrow> 0 | Some v \<Rightarrow> v)"

fun add_view :: "string \<times> Quantity \<Rightarrow>
    int64 \<times> int64 \<times> int64 \<times> int64 \<times> (string \<rightharpoonup> int64) \<Rightarrow>
    int64 \<times> int64 \<times> int64 \<times> int64 \<times> (string \<rightharpoonup> int64)" where
  "add_view (k, q) (c, m, e, a, s) =
     (if k = ''cpu'' then (c + q_MilliValue q, m, e, a, s)
      else if k = ''memory'' then (c, m + q_Value q, e, a, s)
      else if k = ''pods'' then (c, m, e, a + q_Value q, s)
      else if k = ''ephemeral-storage'' then (c, m, e, a, s)
      else if IsScalarResourceName k then (c, m, e, a, s(k \<mapsto> scalar_of s k + q_Value q))
      else (c, m, e, a, s))"

text \<open>The signed maximum, and the same on an optional entry that counts as zero when absent.\<close>

definition smax :: "int64 \<Rightarrow> int64 \<Rightarrow> int64" where
  "smax a b = (if sint b > sint a then b else a)"

definition smax_entry :: "int64 option \<Rightarrow> int64 \<Rightarrow> int64 option" where
  "smax_entry a b = (if sint b > sint (case a of None \<Rightarrow> 0 | Some v \<Rightarrow> v) then Some b else a)"

lemma smax_left_commute: "smax (smax a b) c = smax (smax a c) b"
proof -
  have "b = c" if "sint b = sint c" using that by (rule signed_word_eqI)
  then show ?thesis unfolding smax_def by (cases "sint b" "sint c" rule: linorder_cases) auto
qed

lemma smax_entry_left_commute: "smax_entry (smax_entry a b) c = smax_entry (smax_entry a c) b"
proof -
  have "b = c" if "sint b = sint c" using that by (rule signed_word_eqI)
  then show ?thesis
    unfolding smax_entry_def by (cases "sint b" "sint c" rule: linorder_cases) auto
qed

lemma sint_smax: "sint (smax a b) = max (sint a) (sint b)"
  by (simp add: smax_def)

fun max_view :: "string \<times> Quantity \<Rightarrow>
    int64 \<times> int64 \<times> int64 \<times> int64 \<times> (string \<rightharpoonup> int64) \<Rightarrow>
    int64 \<times> int64 \<times> int64 \<times> int64 \<times> (string \<rightharpoonup> int64)" where
  "max_view (k, q) (c, m, e, a, s) =
     (if k = ''memory'' then (c, smax m (q_Value q), e, a, s)
      else if k = ''cpu'' then (smax c (q_MilliValue q), m, e, a, s)
      else if k = ''ephemeral-storage'' then (c, m, smax e (q_Value q), a, s)
      else if IsScalarResourceName k then (c, m, e, a, s(k := smax_entry (s k) (q_Value q)))
      else (c, m, e, a, s))"

lemma view_Add_step: "res_view (Add_step r e) = add_view e (res_view r)"
  by (cases e) (simp add: res_view_def Add_step_def AddScalar_def SetScalar_def scalar_def go_map)

lemma view_SetMax_step: "res_view (SetMax_step r e) = max_view e (res_view r)"
  by (cases e) (simp add: res_view_def SetMax_step_def SetScalar_def scalar_def smax_def
      smax_entry_def Let_def go_map)

lemma view_Resource_Add: "res_view (Resource_Add r rl) = fold add_view rl (res_view r)"
  unfolding Resource_Add_def by (induction rl arbitrary: r) (simp_all add: view_Add_step)

lemma view_SetMaxResource: "res_view (SetMaxResource r rl) = fold max_view rl (res_view r)"
  unfolding SetMaxResource_def by (induction rl arbitrary: r) (simp_all add: view_SetMax_step)

lemma add_view_commute: "add_view x \<circ> add_view y = add_view y \<circ> add_view x"
proof
  fix v
  show "(add_view x \<circ> add_view y) v = (add_view y \<circ> add_view x) v"
    by (cases x; cases y; cases v; cases "fst x = fst y")
      (simp_all add: ac_simps fun_upd_twist split: option.split)
qed

lemma max_view_commute: "max_view x \<circ> max_view y = max_view y \<circ> max_view x"
proof
  fix v
  show "(max_view x \<circ> max_view y) v = (max_view y \<circ> max_view x) v"
    by (cases x; cases y; cases v; cases "fst x = fst y")
      (simp_all add: fun_upd_twist smax_left_commute smax_entry_left_commute)
qed

lemma Resource_Add_order:
  assumes "res_view r = res_view r'" and "mset rl = mset rl'"
  shows "res_view (Resource_Add r rl) = res_view (Resource_Add r' rl')"
  unfolding view_Resource_Add assms(1)
  by (rule fold_multiset_equiv [THEN fun_cong, OF add_view_commute assms(2)])

lemma SetMaxResource_order:
  assumes "res_view r = res_view r'" and "mset rl = mset rl'"
  shows "res_view (SetMaxResource r rl) = res_view (SetMaxResource r' rl')"
  unfolding view_SetMaxResource assms(1)
  by (rule fold_multiset_equiv [THEN fun_cong, OF max_view_commute assms(2)])

text \<open>Containers that list the same requests, each in an order of its own.\<close>

abbreviation same_requests :: "Container list \<Rightarrow> Container list \<Rightarrow> bool" where
  "same_requests cs cs' \<equiv> list_all2 (\<lambda>c c'. mset (c_Requests c) = mset (c_Requests c')) cs cs'"

lemma Resource_Add_containers_order:
  "same_requests cs cs' \<Longrightarrow> res_view r = res_view r' \<Longrightarrow>
     res_view (foldl (\<lambda>r c. Resource_Add r (c_Requests c)) r cs) =
     res_view (foldl (\<lambda>r c. Resource_Add r (c_Requests c)) r' cs')"
proof (induction cs cs' arbitrary: r r' rule: list_all2_induct)
  case (Cons c cs c' cs')
  show ?case unfolding foldl_Cons by (intro Cons.IH Resource_Add_order Cons.prems Cons.hyps)
qed simp

lemma SetMaxResource_containers_order:
  "same_requests cs cs' \<Longrightarrow> res_view r = res_view r' \<Longrightarrow>
     res_view (foldl (\<lambda>r c. SetMaxResource r (c_Requests c)) r cs) =
     res_view (foldl (\<lambda>r c. SetMaxResource r (c_Requests c)) r' cs')"
proof (induction cs cs' arbitrary: r r' rule: list_all2_induct)
  case (Cons c cs c' cs')
  show ?case unfolding foldl_Cons by (intro Cons.IH SetMaxResource_order Cons.prems Cons.hyps)
qed simp

text \<open>
  A pod's resource request does not depend on the order in which Go iterates the
  resource lists of its containers and init containers.
\<close>

theorem computePodResourceRequest_order:
  assumes "same_requests (pod_Containers p) (pod_Containers p')"
    and "same_requests (pod_InitContainers p) (pod_InitContainers p')"
  shows "res_view (computePodResourceRequest p) = res_view (computePodResourceRequest p')"
  unfolding computePodResourceRequest_def Let_def
  by (intro SetMaxResource_containers_order Resource_Add_containers_order assms refl)

theorem computePodResourceRequest_order_witness:
  "let cpu = (''cpu'', \<lparr>q_Value = 2, q_MilliValue = 2000\<rparr>);
       mem = (''memory'', \<lparr>q_Value = 64, q_MilliValue = 64000\<rparr>);
       p = blank_pod\<lparr>pod_Containers := [\<lparr>c_Image = ''a'', c_Requests = [cpu, mem]\<rparr>]\<rparr>;
       p' = blank_pod\<lparr>pod_Containers := [\<lparr>c_Image = ''a'', c_Requests = [mem, cpu]\<rparr>]\<rparr>
   in res_view (computePodResourceRequest p) = res_view (computePodResourceRequest p')"
  unfolding Let_def
  by (rule computePodResourceRequest_order) (simp_all add: blank_pod_def)

section \<open>What a request amounts to\<close>

text \<open>
  The resources that the fit test compares (all but ephemeral storage): the amount of one in
  a \<open>Resource\<close>, and the entry of a resource list for it.
\<close>

definition tracked :: "string \<Rightarrow> bool" where
  "tracked k \<longleftrightarrow> k = ''cpu'' \<or> k = ''memory'' \<or>
     (k \<noteq> ''pods'' \<and> k \<noteq> ''ephemeral-storage'' \<and> IsScalarResourceName k)"

definition amount :: "string \<Rightarrow> Resource \<Rightarrow> int64" where
  "amount k r = (if k = ''cpu'' then MilliCPU r else if k = ''memory'' then Memory r
                 else scalar r k)"

definition entry :: "string \<Rightarrow> Quantity \<Rightarrow> int64" where
  "entry k q = (if k = ''cpu'' then q_MilliValue q else q_Value q)"

definition requested :: "string \<Rightarrow> ResourceList \<Rightarrow> int64" where
  "requested k rl = (case map_of rl k of None \<Rightarrow> 0 | Some q \<Rightarrow> entry k q)"

lemma amount_Add_step:
  "tracked k \<Longrightarrow> amount k (Add_step r (k', q)) = amount k r + (if k = k' then entry k q else 0)"
  by (auto simp: amount_def entry_def Add_step_def AddScalar_def SetScalar_def scalar_def
      tracked_def go_map split: option.split)

lemma amount_Resource_Add:
  "tracked k \<Longrightarrow> distinct (map fst rl) \<Longrightarrow>
     amount k (Resource_Add r rl) = amount k r + requested k rl"
proof (induction rl arbitrary: r)
  case Nil
  then show ?case by (simp add: Resource_Add_def requested_def)
next
  case (Cons e rl)
  obtain k' q where e: "e = (k', q)" by force
  have "amount k (Resource_Add r (e # rl)) = amount k (Add_step r e) + requested k rl"
    using Cons by (simp add: Resource_Add_def)
  also have "\<dots> = amount k r + requested k (e # rl)"
    using Cons.prems
    by (auto simp: e amount_Add_step requested_def map_of_eq_None_iff [THEN iffD2])
  finally show ?case .
qed

lemma amount_SetMax_step:
  "tracked k \<Longrightarrow>
     amount k (SetMax_step r (k', q)) = (if k = k' then smax (amount k r) (entry k q) else amount k r)"
  by (auto simp: amount_def entry_def SetMax_step_def SetScalar_def scalar_def smax_def
      tracked_def Let_def go_map split: option.split)

lemma amount_SetMaxResource:
  "tracked k \<Longrightarrow> distinct (map fst rl) \<Longrightarrow>
     amount k (SetMaxResource r rl) =
       (case map_of rl k of None \<Rightarrow> amount k r | Some q \<Rightarrow> smax (amount k r) (entry k q))"
proof (induction rl arbitrary: r)
  case Nil
  then show ?case by (simp add: SetMaxResource_def)
next
  case (Cons e rl)
  obtain k' q where e: "e = (k', q)" by force
  show ?case
    using Cons
    by (auto simp: SetMaxResource_def e amount_SetMax_step map_of_eq_None_iff [THEN iffD2]
        split: option.split)
qed

lemma sint_add_in_range:
  fixes a b :: int64
  assumes "- (2 ^ 63) \<le> sint a + sint b" and "sint a + sint b < 2 ^ 63"
  shows "sint (a + b) = sint a + sint b"
  using assms by (simp add: sint_word_ariths signed_take_bit_int_eq_self)

lemma sint_sum_list:
  fixes ws :: "int64 list"
  assumes "\<forall>w \<in> set ws. 0 \<le> sint w" and "sum_list (map sint ws) < 2 ^ 63"
  shows "sint (sum_list ws) = sum_list (map sint ws)"
  using assms
proof (induction ws)
  case (Cons w ws)
  have "0 \<le> sum_list (map sint ws)"
    using Cons.prems(1) by (intro sum_list_nonneg) auto
  with Cons show ?case
    using sint_add_in_range [of w "sum_list ws"] by simp
qed simp

definition well_keyed :: "Container list \<Rightarrow> bool" where
  "well_keyed cs \<longleftrightarrow> (\<forall>c \<in> set cs. distinct (map fst (c_Requests c)))"

definition nonneg_requests :: "string \<Rightarrow> Container list \<Rightarrow> bool" where
  "nonneg_requests k cs \<longleftrightarrow> (\<forall>c \<in> set cs. 0 \<le> sint (requested k (c_Requests c)))"

abbreviation requests :: "string \<Rightarrow> Container list \<Rightarrow> int list" where
  "requests k cs \<equiv> map (\<lambda>c. sint (requested k (c_Requests c))) cs"

lemma amount_containers:
  "tracked k \<Longrightarrow> well_keyed cs \<Longrightarrow>
     amount k (foldl (\<lambda>r c. Resource_Add r (c_Requests c)) r cs) =
     amount k r + sum_list (map (\<lambda>c. requested k (c_Requests c)) cs)"
  by (induction cs arbitrary: r) (simp_all add: amount_Resource_Add well_keyed_def add.assoc)

lemma amount_init_containers:
  "tracked k \<Longrightarrow> well_keyed cs \<Longrightarrow> nonneg_requests k cs \<Longrightarrow> 0 \<le> sint (amount k r) \<Longrightarrow>
     sint (amount k (foldl (\<lambda>r c. SetMaxResource r (c_Requests c)) r cs)) =
     fold max (requests k cs) (sint (amount k r))"
proof (induction cs arbitrary: r)
  case (Cons c cs)
  let ?r = "SetMaxResource r (c_Requests c)"
  have step: "sint (amount k ?r) = max (sint (requested k (c_Requests c))) (sint (amount k r))"
    using Cons.prems
    by (auto simp: amount_SetMaxResource well_keyed_def nonneg_requests_def requested_def
        sint_smax max.commute split: option.splits)
  then have "0 \<le> sint (amount k ?r)" using Cons.prems(4) by simp
  with Cons.IH [of ?r] Cons.prems show ?case
    by (simp add: step well_keyed_def nonneg_requests_def)
qed simp

lemma amount_empty: "amount k emptyResource = 0"
  by (simp add: amount_def emptyResource_def scalar_def)

text \<open>
  As long as the sum of the container requests stays below the 64-bit limit, a pod's
  request for a resource is the larger of the sum over its containers and the largest
  request of an init container.
\<close>

theorem computePodResourceRequest_amount:
  assumes "tracked k"
    and "well_keyed (pod_Containers p)" and "well_keyed (pod_InitContainers p)"
    and "nonneg_requests k (pod_Containers p)" and "nonneg_requests k (pod_InitContainers p)"
    and "sum_list (requests k (pod_Containers p)) < 2 ^ 63"
  shows "sint (amount k (computePodResourceRequest p)) =
     Max (set (sum_list (requests k (pod_Containers p)) # requests k (pod_InitContainers p)))"
proof -
  let ?r = "foldl (\<lambda>r c. Resource_Add r (c_Requests c)) emptyResource (pod_Containers p)"
  let ?ws = "map (\<lambda>c. requested k (c_Requests c)) (pod_Containers p)"
  have "amount k ?r = sum_list ?ws"
    using assms by (simp add: amount_containers amount_empty)
  moreover have "sint (sum_list ?ws) = sum_list (map sint ?ws)"
    using assms by (intro sint_sum_list) (auto simp: nonneg_requests_def comp_def)
  ultimately have sum: "sint (amount k ?r) = sum_list (requests k (pod_Containers p))"
    by (simp add: comp_def)
  also have "0 \<le> \<dots>"
    using assms(4) by (intro sum_list_nonneg) (auto simp: nonneg_requests_def)
  finally have "sint (amount k (computePodResourceRequest p)) =
      fold max (requests k (pod_InitContainers p)) (sum_list (requests k (pod_Containers p)))"
    using assms by (simp add: computePodResourceRequest_def Let_def amount_init_containers sum)
  then show ?thesis by (simp only: Max.set_eq_fold)
qed

theorem computePodResourceRequest_amount_witness:
  "let q = (\<lambda>n. [(''memory'', \<lparr>q_Value = n, q_MilliValue = 1000 * n\<rparr>)]);
       p = blank_pod\<lparr>pod_Containers := [\<lparr>c_Image = ''a'', c_Requests = q 3\<rparr>,
                                        \<lparr>c_Image = ''b'', c_Requests = q 4\<rparr>],
                     pod_InitContainers := [\<lparr>c_Image = ''c'', c_Requests = q 5\<rparr>]\<rparr>
   in sint (amount ''memory'' (computePodResourceRequest p)) = 7"
  unfolding Let_def
  by (subst computePodResourceRequest_amount)
    (simp_all add: blank_pod_def tracked_def well_keyed_def nonneg_requests_def requested_def
      entry_def)

section \<open>Ephemeral storage\<close>

text \<open>
  The case of \<^verbatim>\<open>Add\<close> for ephemeral storage is commented out, that of
  \<^verbatim>\<open>SetMaxResource\<close> is not: sums never count it, maxima do.
\<close>

lemma Add_step_ephemeral: "EphemeralStorage (Add_step r e) = EphemeralStorage r"
  by (cases e) (simp add: Add_step_def AddScalar_def SetScalar_def)

lemma Resource_Add_ephemeral: "EphemeralStorage (Resource_Add r rl) = EphemeralStorage r"
  unfolding Resource_Add_def by (induction rl arbitrary: r) (simp_all add: Add_step_ephemeral)

lemma NewResource_ephemeral: "EphemeralStorage (NewResource rl) = 0"
  by (simp add: NewResource_def Resource_Add_ephemeral emptyResource_def)

lemma SetMax_step_ephemeral_mono:
  "sint (EphemeralStorage r) \<le> sint (EphemeralStorage (SetMax_step r e))"
  by (cases e) (simp add: SetMax_step_def SetScalar_def Let_def)

lemma SetMaxResource_ephemeral_ge:
  "(''ephemeral-storage'', q) \<in> set rl \<Longrightarrow>
     sint (q_Value q) \<le> sint (EphemeralStorage (SetMaxResource r rl))"
  and SetMaxResource_ephemeral_mono:
  "sint (EphemeralStorage r) \<le> sint (EphemeralStorage (SetMaxResource r rl))"
proof -
  have mono: "sint (EphemeralStorage r) \<le> sint (EphemeralStorage (foldl SetMax_step r rl))" for r rl
    by (induction rl arbitrary: r) (auto intro: order_trans SetMax_step_ephemeral_mono)
  then show "sint (EphemeralStorage r) \<le> sint (EphemeralStorage (SetMaxResource r rl))"
    by (simp add: SetMaxResource_def)
  show "(''ephemeral-storage'', q) \<in> set rl \<Longrightarrow>
     sint (q_Value q) \<le> sint (EphemeralStorage (SetMaxResource r rl))"
    unfolding SetMaxResource_def
  proof (induction rl arbitrary: r)
    case (Cons e rl)
    show ?case
    proof (cases "e = (''ephemeral-storage'', q)")
      case True
      have "sint (q_Value q) \<le> sint (EphemeralStorage (SetMax_step r e))"
        by (simp add: True SetMax_step_def Let_def)
      with mono [of "SetMax_step r e" rl] show ?thesis by simp
    next
      case False
      with Cons show ?thesis by simp
    qed
  qed simp
qed

lemma request_ephemeral_ge:
  assumes "c \<in> set (pod_InitContainers p)" and "(''ephemeral-storage'', q) \<in> set (c_Requests c)"
  shows "sint (q_Value q) \<le> sint (EphemeralStorage (computePodResourceRequest p))"
proof -
  have mono: "sint (EphemeralStorage r) \<le>
      sint (EphemeralStorage (foldl (\<lambda>r c. SetMaxResource r (c_Requests c)) r cs))" for r cs
    by (induction cs arbitrary: r) (auto intro: order_trans SetMaxResource_ephemeral_mono)
  obtain xs ys where split: "pod_InitContainers p = xs @ c # ys"
    using assms(1) by (meson split_list)
  show ?thesis
    unfolding computePodResourceRequest_def Let_def split
    using order_trans [OF SetMaxResource_ephemeral_ge [OF assms(2)] mono] by simp
qed

text \<open>The ephemeral storage of a request is the largest that an init container asks for.\<close>

lemma SetMax_step_ephemeral_le:
  "sint (EphemeralStorage (SetMax_step r (k, q))) \<le> b \<longleftrightarrow>
     sint (EphemeralStorage r) \<le> b \<and> (k = ''ephemeral-storage'' \<longrightarrow> sint (q_Value q) \<le> b)"
  by (auto simp: SetMax_step_def SetScalar_def Let_def)

lemma SetMaxResource_ephemeral_le:
  "sint (EphemeralStorage (SetMaxResource r rl)) \<le> b \<longleftrightarrow>
     sint (EphemeralStorage r) \<le> b \<and> (\<forall>q. (''ephemeral-storage'', q) \<in> set rl \<longrightarrow> sint (q_Value q) \<le> b)"
proof (induction rl arbitrary: r)
  case (Cons e rl)
  obtain k q where e: "e = (k, q)" by force
  from Cons [of "SetMax_step r e"] show ?case
    by (auto simp: SetMaxResource_def e SetMax_step_ephemeral_le)
qed (simp add: SetMaxResource_def)

lemma request_ephemeral_le:
  assumes "0 \<le> b"
  shows "sint (EphemeralStorage (computePodResourceRequest p)) \<le> b \<longleftrightarrow>
     (\<forall>c \<in> set (pod_InitContainers p). \<forall>q. (''ephemeral-storage'', q) \<in> set (c_Requests c) \<longrightarrow> sint (q_Value q) \<le> b)"
proof -
  have "EphemeralStorage (foldl (\<lambda>r c. Resource_Add r (c_Requests c)) r cs) = EphemeralStorage r" for r and cs :: "Container list"
    by (induction cs arbitrary: r) (simp_all add: Resource_Add_ephemeral)
  then have containers: "EphemeralStorage (foldl (\<lambda>r c. Resource_Add r (c_Requests c)) emptyResource cs) = 0" for cs :: "Container list"
    by (simp add: emptyResource_def)
  have "sint (EphemeralStorage (foldl (\<lambda>r c. SetMaxResource r (c_Requests c)) r cs)) \<le> b \<longleftrightarrow>
      sint (EphemeralStorage r) \<le> b \<and>
      (\<forall>c \<in> set cs. \<forall>q. (''ephemeral-storage'', q) \<in> set (c_Requests c) \<longrightarrow> sint (q_Value q) \<le> b)" for r and cs :: "Container list"
    by (induction cs arbitrary: r) (auto simp: SetMaxResource_ephemeral_le)
  then show ?thesis
    using assms by (simp add: computePodResourceRequest_def Let_def containers)
qed

end
