(* ===== verification/PredicateApi.thy ===== *)
theory PredicateApi
  imports Kube
begin

text \<open>
  The interfaces of \<^verbatim>\<open>pkg/podpredicates\<close>: what a predicate sees of the cluster, the
  handle through which it lists the planned pods of a pod set, the filter and score
  predicates, and the contract that the built-in filters share.

  \<open>cluster\<close> collects the calls into third-party code, as parameters: the pods that the API
  server lists on a node, the descheduler's test of node selector and node affinity, and the
  conversion of a label selector into a test on labels.
\<close>

record cluster =
  ListPodsOnANode :: "Node \<Rightarrow> err + Pod list"
  PodFitsCurrentNode :: "Pod \<Rightarrow> Node \<Rightarrow> bool"
  LabelSelectorAsSelector :: "LabelSelector option \<Rightarrow> err + (labels \<Rightarrow> bool)"

text \<open>\<^verbatim>\<open>PodSetHandle\<close>: the pods of the pod set that are assigned to a node.\<close>

record PodSetHandle =
  hdl_List :: "Node \<Rightarrow> err + Pod list"

type_synonym filter_fun = "cluster \<Rightarrow> PodSetHandle \<Rightarrow> Pod \<Rightarrow> Node \<Rightarrow> Status"
type_synonym score_fun = "cluster \<Rightarrow> PodSetHandle \<Rightarrow> Pod \<Rightarrow> Node \<Rightarrow> int64 \<times> Status"

text \<open>
  A \<^verbatim>\<open>Predicate\<close> has a name and implements the interfaces \<^verbatim>\<open>FilterPredicate\<close> and
  \<^verbatim>\<open>ScorePredicate\<close> or not.
\<close>

record Predicate =
  pred_Name :: string
  pred_Filter :: "filter_fun option"
  pred_Score :: "score_fun option"

section \<open>Merging the two views of a node\<close>

text \<open>\<^verbatim>\<open>mergePods\<close> of \<^verbatim>\<open>utils.go\<close>: the first list, then what is new of the second.\<close>

definition mergePods :: "Pod list \<Rightarrow> Pod list \<Rightarrow> Pod list" where
  "mergePods set1 set2 =
     (let presenceMap = map pod_key set1
      in set1 @ filter (\<lambda>pod. pod_key pod \<notin> set presenceMap) set2)"

lemma mergePods_mem:
  "p \<in> set (mergePods ps qs) \<longleftrightarrow> p \<in> set ps \<or> p \<in> set qs \<and> pod_key p \<notin> pod_key ` set ps"
  by (auto simp: mergePods_def Let_def)

text \<open>Two views that agree on the pods they share merge into their union.\<close>

definition coherent :: "Pod list \<Rightarrow> Pod list \<Rightarrow> bool" where
  "coherent ps qs \<longleftrightarrow> inj_on pod_key (set ps \<union> set qs)"

lemma mergePods_coherent: "coherent ps qs \<Longrightarrow> set (mergePods ps qs) = set ps \<union> set qs"
  unfolding coherent_def set_eq_iff mergePods_mem Un_iff by (metis UnCI image_iff inj_onD)

section \<open>The contract of a filter\<close>

text \<open>
  \<open>fewer_pods cl hdl cl' hdl' node\<close>: the third-party tests agree, and what \<open>cl\<close> and \<open>hdl\<close>
  list on the node is part of what \<open>cl'\<close> and \<open>hdl'\<close> list there.
\<close>

definition fewer_pods ::
  "cluster \<Rightarrow> PodSetHandle \<Rightarrow> cluster \<Rightarrow> PodSetHandle \<Rightarrow> Node \<Rightarrow> bool" where
  "fewer_pods cl hdl cl' hdl' node \<longleftrightarrow>
     PodFitsCurrentNode cl = PodFitsCurrentNode cl' \<and>
     LabelSelectorAsSelector cl = LabelSelectorAsSelector cl' \<and>
     (\<exists>ps ps' qs qs'.
        ListPodsOnANode cl node = Inr ps \<and> ListPodsOnANode cl' node = Inr ps' \<and>
        hdl_List hdl node = Inr qs \<and> hdl_List hdl' node = Inr qs' \<and>
        set ps \<subseteq> set ps' \<and> set qs \<subseteq> set qs' \<and> coherent ps' qs')"

lemma coherent_mono: "coherent ps' qs' \<Longrightarrow> set ps \<subseteq> set ps' \<Longrightarrow> set qs \<subseteq> set qs' \<Longrightarrow> coherent ps qs"
  unfolding coherent_def by (erule inj_on_subset) blast

lemma fewer_pods_merge:
  assumes "fewer_pods cl hdl cl' hdl' node"
  obtains ps qs ps' qs' where
    "ListPodsOnANode cl node = Inr ps" "hdl_List hdl node = Inr qs"
    "ListPodsOnANode cl' node = Inr ps'" "hdl_List hdl' node = Inr qs'"
    "PodFitsCurrentNode cl = PodFitsCurrentNode cl'"
    "LabelSelectorAsSelector cl = LabelSelectorAsSelector cl'"
    "set (mergePods ps qs) \<subseteq> set (mergePods ps' qs')"
proof -
  from assms obtain ps ps' qs qs' where *:
    "PodFitsCurrentNode cl = PodFitsCurrentNode cl'"
    "LabelSelectorAsSelector cl = LabelSelectorAsSelector cl'"
    "ListPodsOnANode cl node = Inr ps" "ListPodsOnANode cl' node = Inr ps'"
    "hdl_List hdl node = Inr qs" "hdl_List hdl' node = Inr qs'"
    "set ps \<subseteq> set ps'" "set qs \<subseteq> set qs'" "coherent ps' qs'"
    unfolding fewer_pods_def by blast
  then have "set (mergePods ps qs) \<subseteq> set (mergePods ps' qs')"
    by (auto simp: mergePods_coherent coherent_mono [of ps' qs' ps qs])
  with * that show thesis by blast
qed

text \<open>
  What every built-in filter promises: pods on a node only ever count against it. So a
  node that passes keeps passing when pods leave, and the verdict depends only on which
  pods there are, not on the order in which they are listed.
\<close>

locale filter_predicate =
  fixes Filter :: filter_fun
  assumes antitone: "fewer_pods cl hdl cl' hdl' node \<Longrightarrow>
    IsSuccess (Filter cl' hdl' pod node) \<Longrightarrow> IsSuccess (Filter cl hdl pod node)"
begin

lemma listing_irrelevant:
  assumes "fewer_pods cl hdl cl' hdl' node" and "fewer_pods cl' hdl' cl hdl node"
  shows "IsSuccess (Filter cl hdl pod node) \<longleftrightarrow> IsSuccess (Filter cl' hdl' pod node)"
  using antitone assms by blast

end

end
