(* ===== verification/NodeFit.thy ===== *)
theory NodeFit
  imports Resources PredicateApi
begin

text \<open>
  The predicate \<^verbatim>\<open>PodFitsNode\<close> of \<^verbatim>\<open>pkg/podpredicates/nodefit.go\<close>: taints, node
  selector and resources, with the vendored toleration tests it calls.
\<close>

section \<open>Tolerations\<close>

definition ToleratesTaint :: "Toleration \<Rightarrow> Taint \<Rightarrow> bool" where
  "ToleratesTaint t taint =
     (if tol_Effect t \<noteq> NoEffect \<and> tol_Effect t \<noteq> taint_Effect taint then False
      else if tol_Key t \<noteq> [] \<and> tol_Key t \<noteq> taint_Key taint then False
      else (case tol_Operator t of
              OpEmpty \<Rightarrow> tol_Value t = taint_Value taint
            | OpEqual \<Rightarrow> tol_Value t = taint_Value taint
            | OpExists \<Rightarrow> True
            | OpOther _ \<Rightarrow> False))"

definition TolerationsTolerateTaint :: "Toleration list \<Rightarrow> Taint \<Rightarrow> bool" where
  "TolerationsTolerateTaint tolerations taint = list_ex (\<lambda>t. ToleratesTaint t taint) tolerations"

fun TolerationsTolerateTaintsWithFilter ::
  "Toleration list \<Rightarrow> Taint list \<Rightarrow> (Taint \<Rightarrow> bool) \<Rightarrow> bool" where
  "TolerationsTolerateTaintsWithFilter tolerations [] applyFilter = True"
| "TolerationsTolerateTaintsWithFilter tolerations (taint # taints) applyFilter =
     (if \<not> applyFilter taint
      then TolerationsTolerateTaintsWithFilter tolerations taints applyFilter
      else if \<not> TolerationsTolerateTaint tolerations taint then False
      else TolerationsTolerateTaintsWithFilter tolerations taints applyFilter)"

lemma TolerationsTolerateTaintsWithFilter_iff:
  "TolerationsTolerateTaintsWithFilter tols taints f \<longleftrightarrow>
     (\<forall>t \<in> set taints. f t \<longrightarrow> TolerationsTolerateTaint tols t)"
  by (induction taints) auto

section \<open>The filter\<close>

definition insufficient :: "string \<Rightarrow> int64 \<Rightarrow> int64 \<Rightarrow> string \<Rightarrow> string" where
  "insufficient what allocatable req pod =
     ''Insufficient '' @ what @ ''. Allocatable '' @ sprint_int (sint allocatable) @
     '', requested '' @ sprint_int (sint req) @ '' for pod '' @ pod"

definition insufficient_scalar :: "string \<Rightarrow> string \<Rightarrow> int64 \<Rightarrow> int64 \<Rightarrow> string" where
  "insufficient_scalar rName pod allocatable req =
     ''Insufficient scalar resource '' @ rName @ '' for pod '' @ pod @ ''. Allocatable '' @
     sprint_int (sint allocatable) @ '', requested '' @ sprint_int (sint req)"

definition resource_reasons :: "Resource \<Rightarrow> Resource \<Rightarrow> string \<Rightarrow> string list" where
  "resource_reasons allocatable podRequest name =
     (if sint (MilliCPU allocatable) < sint (MilliCPU podRequest)
      then [insufficient ''cpu'' (MilliCPU allocatable) (MilliCPU podRequest) name] else []) @
     (if sint (Memory allocatable) < sint (Memory podRequest)
      then [insufficient ''memory'' (Memory allocatable) (Memory podRequest) name] else []) @
     (if sint (EphemeralStorage allocatable) < sint (EphemeralStorage podRequest)
      then [insufficient ''ephemeral-storage'' (EphemeralStorage allocatable)
              (EphemeralStorage podRequest) name] else []) @
     map (\<lambda>(rName, rQuant). insufficient_scalar rName name (scalar allocatable rName) rQuant)
       (filter (\<lambda>(rName, rQuant). sint (scalar allocatable rName) < sint rQuant)
          (ScalarResources podRequest))"

definition podFitsNode_Filter :: filter_fun where
  "podFitsNode_Filter cl hdl pod node =
     (if \<not> TolerationsTolerateTaintsWithFilter (pod_Tolerations pod) (node_Taints node)
             (\<lambda>taint. taint_Effect taint = EffectNoSchedule)
      then NewStatus Unschedulable []
      else if \<not> PodFitsCurrentNode cl pod node then NewStatus Unschedulable []
      else
        let allocatable = NewResource (node_Allocatable node);
            podRequest = computePodResourceRequest pod
        in if MilliCPU podRequest = 0 \<and> Memory podRequest = 0 \<and>
              EphemeralStorage podRequest = 0 \<and> length (ScalarResources podRequest) = 0
           then NewStatus Success []
           else
             let reasons = resource_reasons allocatable podRequest (pod_Name pod)
             in if length reasons > 0 then NewStatus Error reasons else NewStatus Success [])"

interpretation fits: filter_predicate podFitsNode_Filter
proof
  fix cl hdl cl' hdl' node pod
  assume "fewer_pods cl hdl cl' hdl' node"
    and *: "IsSuccess (podFitsNode_Filter cl' hdl' pod node)"
  then have "PodFitsCurrentNode cl = PodFitsCurrentNode cl'" by (simp add: fewer_pods_def)
  then have "podFitsNode_Filter cl hdl pod node = podFitsNode_Filter cl' hdl' pod node"
    by (simp only: podFitsNode_Filter_def)
  with * show "IsSuccess (podFitsNode_Filter cl hdl pod node)" by simp
qed

section \<open>What passing the filter means\<close>

text \<open>The scalar map of a request holds each tracked scalar resource at most once.\<close>

definition scalars_ok :: "Resource \<Rightarrow> bool" where
  "scalars_ok r \<longleftrightarrow> distinct (map fst (ScalarResources r)) \<and>
     (\<forall>k \<in> fst ` set (ScalarResources r). tracked k \<and> k \<noteq> ''cpu'' \<and> k \<noteq> ''memory'')"

lemma scalars_ok_counters [simp]:
  "scalars_ok (r\<lparr>MilliCPU := x\<rparr>) = scalars_ok r"
  "scalars_ok (r\<lparr>Memory := x\<rparr>) = scalars_ok r"
  "scalars_ok (r\<lparr>EphemeralStorage := x\<rparr>) = scalars_ok r"
  "scalars_ok (r\<lparr>AllowedPodNumber := x\<rparr>) = scalars_ok r"
  by (simp_all add: scalars_ok_def)

lemma scalars_ok_SetScalar:
  assumes "scalars_ok r" "k \<noteq> ''cpu''" "k \<noteq> ''memory''" "k \<noteq> ''pods''"
    "k \<noteq> ''ephemeral-storage''" "IsScalarResourceName k"
  shows "scalars_ok (SetScalar r k v)"
proof -
  have "tracked k" using assms by (simp add: tracked_def)
  then show ?thesis
    using assms by (simp add: scalars_ok_def SetScalar_def dom_update distinct_update)
qed

lemma scalars_ok_Add_step:
  assumes "scalars_ok r" shows "scalars_ok (Add_step r e)"
proof (cases e)
  case (Pair k q)
  show ?thesis
    unfolding Pair Add_step_def AddScalar_def using assms by (simp add: scalars_ok_SetScalar)
qed

lemma scalars_ok_SetMax_step:
  assumes "scalars_ok r" shows "scalars_ok (SetMax_step r e)"
proof (cases e)
  case (Pair k q)
  show ?thesis
  proof (cases "k = ''pods''")
    case True
    have "\<not> IsScalarResourceName ''pods''" by code_simp
    then show ?thesis using assms by (simp add: Pair True SetMax_step_def)
  next
    case False
    then show ?thesis
      unfolding Pair SetMax_step_def Let_def using assms by (simp add: scalars_ok_SetScalar)
  qed
qed

lemma foldl_keeps: "(\<And>a x. P a \<Longrightarrow> P (f a x)) \<Longrightarrow> P a \<Longrightarrow> P (foldl f a xs)"
  by (induction xs arbitrary: a) auto

lemma scalars_ok_Resource_Add: "scalars_ok r \<Longrightarrow> scalars_ok (Resource_Add r rl)"
  unfolding Resource_Add_def
  by (rule foldl_keeps [where P = scalars_ok]) (rule scalars_ok_Add_step)

lemma scalars_ok_SetMaxResource: "scalars_ok r \<Longrightarrow> scalars_ok (SetMaxResource r rl)"
  unfolding SetMaxResource_def
  by (rule foldl_keeps [where P = scalars_ok]) (rule scalars_ok_SetMax_step)

lemma scalars_ok_request: "scalars_ok (computePodResourceRequest p)"
proof -
  let ?r = "foldl (\<lambda>r c. Resource_Add r (c_Requests c)) emptyResource (pod_Containers p)"
  have "scalars_ok emptyResource" by (simp add: scalars_ok_def emptyResource_def)
  then have "scalars_ok ?r"
    by (rule foldl_keeps [where P = scalars_ok, rotated]) (rule scalars_ok_Resource_Add)
  then show ?thesis
    unfolding computePodResourceRequest_def Let_def
    by (rule foldl_keeps [where P = scalars_ok, rotated]) (rule scalars_ok_SetMaxResource)
qed

text \<open>A node's allocatable amounts cover a request.\<close>

definition covers :: "Resource \<Rightarrow> Resource \<Rightarrow> bool" where
  "covers allocatable podRequest \<longleftrightarrow>
     (\<forall>k. tracked k \<longrightarrow> sint (amount k podRequest) \<le> sint (amount k allocatable)) \<and>
     sint (EphemeralStorage podRequest) \<le> sint (EphemeralStorage allocatable)"

definition nonneg_amounts :: "Resource \<Rightarrow> bool" where
  "nonneg_amounts r \<longleftrightarrow> (\<forall>k. tracked k \<longrightarrow> 0 \<le> sint (amount k r)) \<and> 0 \<le> sint (EphemeralStorage r)"

lemma tracked_basic: "tracked ''cpu''" "tracked ''memory''"
  by (simp_all add: tracked_def)

lemma amount_basic:
  "amount ''cpu'' r = MilliCPU r" "amount ''memory'' r = Memory r"
  "k \<noteq> ''cpu'' \<Longrightarrow> k \<noteq> ''memory'' \<Longrightarrow> amount k r = scalar r k"
  by (simp_all add: amount_def)

lemma scalar_mem: "scalars_ok r \<Longrightarrow> (k, v) \<in> set (ScalarResources r) \<Longrightarrow> scalar r k = v"
  by (simp add: scalars_ok_def scalar_def)

lemma scalar_not_mem: "k \<notin> fst ` set (ScalarResources r) \<Longrightarrow> scalar r k = 0"
  by (simp add: scalar_def map_of_eq_None_iff [THEN iffD2])

lemma scalars_covered:
  assumes "scalars_ok req" and "nonneg_amounts alloc"
  shows "(\<forall>(k, v) \<in> set (ScalarResources req). sint v \<le> sint (scalar alloc k)) \<longleftrightarrow>
     (\<forall>k. tracked k \<longrightarrow> k \<noteq> ''cpu'' \<longrightarrow> k \<noteq> ''memory'' \<longrightarrow>
        sint (scalar req k) \<le> sint (scalar alloc k))" (is "?L \<longleftrightarrow> ?R")
proof
  assume ?L
  show ?R
  proof (intro allI impI)
    fix k
    assume k: "tracked k" "k \<noteq> ''cpu''" "k \<noteq> ''memory''"
    have "0 \<le> sint (amount k alloc)" using assms(2) k(1) by (simp add: nonneg_amounts_def)
    then have nonneg: "0 \<le> sint (scalar alloc k)" by (simp only: amount_basic(3) [OF k(2,3)])
    show "sint (scalar req k) \<le> sint (scalar alloc k)"
    proof (cases "k \<in> fst ` set (ScalarResources req)")
      case True
      then obtain v where v: "(k, v) \<in> set (ScalarResources req)" by force
      with \<open>?L\<close> have "sint v \<le> sint (scalar alloc k)" by blast
      then show ?thesis by (simp only: scalar_mem [OF assms(1) v])
    next
      case False
      show ?thesis unfolding scalar_not_mem [OF False] using nonneg by simp
    qed
  qed
next
  assume R: ?R
  show ?L
  proof (intro ballI, clarify)
    fix k v
    assume v: "(k, v) \<in> set (ScalarResources req)"
    then have "k \<in> fst ` set (ScalarResources req)" by force
    with assms(1) have "tracked k" "k \<noteq> ''cpu''" "k \<noteq> ''memory''"
      unfolding scalars_ok_def by blast+
    with R have "sint (scalar req k) \<le> sint (scalar alloc k)" by blast
    then show "sint v \<le> sint (scalar alloc k)" by (simp only: scalar_mem [OF assms(1) v])
  qed
qed

lemma covers_by_parts:
  "covers alloc req \<longleftrightarrow>
     sint (MilliCPU req) \<le> sint (MilliCPU alloc) \<and> sint (Memory req) \<le> sint (Memory alloc) \<and>
     sint (EphemeralStorage req) \<le> sint (EphemeralStorage alloc) \<and>
     (\<forall>k. tracked k \<longrightarrow> k \<noteq> ''cpu'' \<longrightarrow> k \<noteq> ''memory'' \<longrightarrow>
        sint (scalar req k) \<le> sint (scalar alloc k))"
  (is "_ \<longleftrightarrow> ?R")
proof
  assume c: "covers alloc req"
  then have le: "tracked k \<Longrightarrow> sint (amount k req) \<le> sint (amount k alloc)" for k
    unfolding covers_def by blast
  show ?R
    using c le [OF tracked_basic(1)] le [OF tracked_basic(2)] le
    unfolding covers_def amount_basic(1,2) by (metis amount_basic(3))
next
  assume ?R
  then show "covers alloc req" unfolding covers_def amount_def by presburger
qed

lemma resource_reasons_nil:
  assumes "scalars_ok req" and "nonneg_amounts alloc"
  shows "resource_reasons alloc req name = [] \<longleftrightarrow> covers alloc req"
proof -
  have "resource_reasons alloc req name = [] \<longleftrightarrow>
      sint (MilliCPU req) \<le> sint (MilliCPU alloc) \<and> sint (Memory req) \<le> sint (Memory alloc) \<and>
      sint (EphemeralStorage req) \<le> sint (EphemeralStorage alloc) \<and>
      (\<forall>(k, v) \<in> set (ScalarResources req). sint v \<le> sint (scalar alloc k))"
    by (auto simp: resource_reasons_def filter_eq_nil_iff not_less)
  also have "\<dots> \<longleftrightarrow> covers alloc req"
    unfolding scalars_covered [OF assms] covers_by_parts ..
  finally show ?thesis .
qed

lemma no_request_covered:
  assumes "MilliCPU req = 0" "Memory req = 0" "EphemeralStorage req = 0"
    "ScalarResources req = []" and "nonneg_amounts alloc"
  shows "covers alloc req"
  using assms by (auto simp: covers_def nonneg_amounts_def amount_def scalar_def)

text \<open>The filter in terms of the resources that the code computes.\<close>

lemma podFitsNode_covers:
  assumes "nonneg_amounts (NewResource (node_Allocatable node))"
  shows "IsSuccess (podFitsNode_Filter cl hdl pod node) \<longleftrightarrow>
     (\<forall>t \<in> set (node_Taints node). taint_Effect t = EffectNoSchedule \<longrightarrow>
        TolerationsTolerateTaint (pod_Tolerations pod) t) \<and>
     PodFitsCurrentNode cl pod node \<and>
     covers (NewResource (node_Allocatable node)) (computePodResourceRequest pod)"
  using no_request_covered [OF _ _ _ _ assms, of "computePodResourceRequest pod"]
  by (simp add: podFitsNode_Filter_def Let_def TolerationsTolerateTaintsWithFilter_iff
      resource_reasons_nil [OF scalars_ok_request assms])

lemma amount_NewResource:
  "tracked k \<Longrightarrow> distinct (map fst rl) \<Longrightarrow> amount k (NewResource rl) = requested k rl"
  by (simp add: NewResource_def amount_Resource_Add amount_empty)

text \<open>
  Requests and allocatable amounts as Kubernetes admits them: one entry for each resource of a list, no negative
  amounts, and no sum of a pod's requests that leaves the 64-bit integers.
\<close>

definition amounts_in_range :: "Pod \<Rightarrow> Node \<Rightarrow> bool" where
  "amounts_in_range pod node \<longleftrightarrow>
     well_keyed (pod_Containers pod) \<and> well_keyed (pod_InitContainers pod) \<and> distinct (map fst (node_Allocatable node)) \<and>
     (\<forall>k. tracked k \<longrightarrow> nonneg_requests k (pod_Containers pod) \<and> nonneg_requests k (pod_InitContainers pod) \<and>
        sum_list (requests k (pod_Containers pod)) < 2 ^ 63 \<and> 0 \<le> sint (requested k (node_Allocatable node)))"

lemma covers_requests:
  assumes "amounts_in_range pod node"
  shows "covers (NewResource (node_Allocatable node)) (computePodResourceRequest pod) \<longleftrightarrow>
     (\<forall>k. tracked k \<longrightarrow>
        sum_list (requests k (pod_Containers pod)) \<le> sint (requested k (node_Allocatable node)) \<and>
        (\<forall>c \<in> set (pod_InitContainers pod).
           sint (requested k (c_Requests c)) \<le> sint (requested k (node_Allocatable node)))) \<and>
     (\<forall>c \<in> set (pod_InitContainers pod). \<forall>q. (''ephemeral-storage'', q) \<in> set (c_Requests c) \<longrightarrow> sint (q_Value q) \<le> 0)"
proof -
  have "sint (amount k (computePodResourceRequest pod)) \<le> b \<longleftrightarrow>
      sum_list (requests k (pod_Containers pod)) \<le> b \<and>
      (\<forall>c \<in> set (pod_InitContainers pod). sint (requested k (c_Requests c)) \<le> b)" if "tracked k" for k b
    using assms that computePodResourceRequest_amount [of k pod] by (simp add: amounts_in_range_def)
  moreover have "amount k (NewResource (node_Allocatable node)) = requested k (node_Allocatable node)"
    if "tracked k" for k
    using assms that by (simp add: amounts_in_range_def amount_NewResource)
  ultimately show ?thesis
    unfolding covers_def NewResource_ephemeral by (simp add: request_ephemeral_le)
qed

text \<open>
  C26: for amounts that Kubernetes admits, the filter passes exactly when four things hold. Every NoSchedule
  taint of the node is tolerated by some toleration of the pod. Node selector and affinity match. In
  cpu, memory and every scalar resource, the node's allocatable amount is at least the sum of the requests
  of the pod's containers, and at least the request of each of its init containers. And no init
  container asks for any ephemeral storage. What the containers ask for in ephemeral storage is not
  looked at, nor are the pods that are on the node already.
\<close>

theorem podFitsNode_Filter_iff:
  assumes "amounts_in_range pod node"
  shows "IsSuccess (podFitsNode_Filter cl hdl pod node) \<longleftrightarrow>
     (\<forall>taint \<in> set (node_Taints node). taint_Effect taint = EffectNoSchedule \<longrightarrow>
        (\<exists>t \<in> set (pod_Tolerations pod). ToleratesTaint t taint)) \<and>
     PodFitsCurrentNode cl pod node \<and>
     (\<forall>k. tracked k \<longrightarrow>
        sum_list (requests k (pod_Containers pod)) \<le> sint (requested k (node_Allocatable node)) \<and>
        (\<forall>c \<in> set (pod_InitContainers pod).
           sint (requested k (c_Requests c)) \<le> sint (requested k (node_Allocatable node)))) \<and>
     (\<forall>c \<in> set (pod_InitContainers pod). \<forall>q. (''ephemeral-storage'', q) \<in> set (c_Requests c) \<longrightarrow> sint (q_Value q) \<le> 0)"
proof -
  have "nonneg_amounts (NewResource (node_Allocatable node))"
    using assms by (simp add: nonneg_amounts_def NewResource_ephemeral amounts_in_range_def amount_NewResource)
  then show ?thesis
    by (simp only: podFitsNode_covers covers_requests [OF assms] TolerationsTolerateTaint_def list_ex_iff)
qed

text \<open>
  A node with eight bytes of memory and no ephemeral storage: it takes two containers of three and five bytes that
  also ask for ephemeral storage, and not two of four and five bytes.
\<close>

definition ex_amount :: "int64 \<Rightarrow> Quantity" where
  "ex_amount n = \<lparr>q_Value = n, q_MilliValue = 1000 * n\<rparr>"

definition ex_memory_pod :: "int64 \<Rightarrow> int64 \<Rightarrow> Pod" where
  "ex_memory_pod m n = blank_pod\<lparr>pod_Containers :=
     [\<lparr>c_Image = ''a'', c_Requests = [(''memory'', ex_amount m), (''ephemeral-storage'', ex_amount 9)]\<rparr>,
      \<lparr>c_Image = ''b'', c_Requests = [(''memory'', ex_amount n)]\<rparr>]\<rparr>"

definition ex_memory_node :: Node where
  "ex_memory_node = blank_node\<lparr>node_Allocatable := [(''memory'', ex_amount 8)]\<rparr>"

lemma ex_memory_requests:
  "tracked k \<Longrightarrow> requests k (pod_Containers (ex_memory_pod m n)) = (if k = ''memory'' then [sint m, sint n] else [0, 0])"
  "requested k (node_Allocatable ex_memory_node) = (if k = ''memory'' then 8 else 0)"
  by (auto simp: ex_memory_pod_def ex_memory_node_def requested_def entry_def ex_amount_def tracked_def)

lemma ex_memory_in_range:
  assumes "0 \<le> sint m" "0 \<le> sint n" "sint m + sint n < 2 ^ 63"
  shows "amounts_in_range (ex_memory_pod m n) ex_memory_node"
proof -
  have "nonneg_requests k (pod_Containers (ex_memory_pod m n))" if "tracked k" for k
    using assms that
    by (auto simp: nonneg_requests_def ex_memory_pod_def requested_def entry_def ex_amount_def tracked_def)
  moreover have "pod_InitContainers (ex_memory_pod m n) = []" by (simp add: ex_memory_pod_def blank_pod_def)
  moreover have "well_keyed (pod_Containers (ex_memory_pod m n))" "distinct (map fst (node_Allocatable ex_memory_node))"
    by (simp_all add: well_keyed_def ex_memory_pod_def ex_memory_node_def)
  ultimately show ?thesis
    using assms by (simp add: amounts_in_range_def ex_memory_requests well_keyed_def nonneg_requests_def)
qed

theorem podFitsNode_Filter_iff_witness:
  "let cl = \<lparr>ListPodsOnANode = (\<lambda>_. Inr []), PodFitsCurrentNode = (\<lambda>_ _. True),
             LabelSelectorAsSelector = (\<lambda>_. Inl (External ''bad selector''))\<rparr>
   in IsSuccess (podFitsNode_Filter cl \<lparr>hdl_List = (\<lambda>_. Inr [])\<rparr> (ex_memory_pod 3 5) ex_memory_node) \<and>
      \<not> IsSuccess (podFitsNode_Filter cl \<lparr>hdl_List = (\<lambda>_. Inr [])\<rparr> (ex_memory_pod 4 5) ex_memory_node)"
proof -
  have other: "node_Taints ex_memory_node = []" "pod_InitContainers (ex_memory_pod m n) = []" for m n
    by (simp_all add: ex_memory_pod_def ex_memory_node_def blank_pod_def blank_node_def)
  show ?thesis
    using podFitsNode_Filter_iff [OF ex_memory_in_range [of 3 5]]
      podFitsNode_Filter_iff [OF ex_memory_in_range [of 4 5]] tracked_basic(2)
    by (auto simp: Let_def other ex_memory_requests)
qed

text \<open>
  C33: a pod with an init container that requests ephemeral storage passes on no node at all,
  however much storage the node has: the node's amount is always read as zero.
\<close>

theorem podFitsNode_init_ephemeral_rejected:
  assumes "c \<in> set (pod_InitContainers pod)"
    and "(''ephemeral-storage'', q) \<in> set (c_Requests c)" and "0 < sint (q_Value q)"
  shows "\<not> IsSuccess (podFitsNode_Filter cl hdl pod node)"
proof -
  let ?req = "computePodResourceRequest pod" and ?alloc = "NewResource (node_Allocatable node)"
  have "0 < sint (EphemeralStorage ?req)"
    using request_ephemeral_ge [OF assms(1,2)] assms(3) by simp
  then have "EphemeralStorage ?req \<noteq> 0" and "resource_reasons ?alloc ?req (pod_Name pod) \<noteq> []"
    by (auto simp: resource_reasons_def NewResource_ephemeral)
  then show ?thesis by (simp add: podFitsNode_Filter_def Let_def)
qed

theorem podFitsNode_init_ephemeral_rejected_witness:
  "let es = (''ephemeral-storage'', \<lparr>q_Value = 1, q_MilliValue = 1000\<rparr>);
       big = (''ephemeral-storage'', \<lparr>q_Value = 1000000, q_MilliValue = 1000000000\<rparr>);
       pod = blank_pod\<lparr>pod_InitContainers := [\<lparr>c_Image = ''a'', c_Requests = [es]\<rparr>]\<rparr>;
       cl = \<lparr>ListPodsOnANode = (\<lambda>_. Inr []), PodFitsCurrentNode = (\<lambda>_ _. True),
             LabelSelectorAsSelector = (\<lambda>_. Inl (External ''bad selector''))\<rparr>
   in \<not> IsSuccess (podFitsNode_Filter cl \<lparr>hdl_List = (\<lambda>_. Inr [])\<rparr> pod
        (blank_node\<lparr>node_Allocatable := [big]\<rparr>))"
  unfolding Let_def
  by (rule podFitsNode_init_ephemeral_rejected [where
        c = "\<lparr>c_Image = ''a'', c_Requests = [(''ephemeral-storage'', \<lparr>q_Value = 1, q_MilliValue = 1000\<rparr>)]\<rparr>"
        and q = "\<lparr>q_Value = 1, q_MilliValue = 1000\<rparr>"]) simp_all

end
