(* ===== verification/PodConflicts.thy ===== *)
theory PodConflicts
  imports PredicateApi "HOL-Library.List_Lexorder" "HOL-Library.Char_ord"
begin

text \<open>
  The two predicates that compare a pod with the pods already on a node:
  \<^verbatim>\<open>PodAntiAffinity\<close> of \<^verbatim>\<open>pkg/podpredicates/antiaffinity.go\<close> and
  \<^verbatim>\<open>PodIsADuplicate\<close> of \<^verbatim>\<open>pkg/podpredicates/duplicates.go\<close>, with the vendored
  helpers they call. Each is characterised by the pods it rejects, and each is an
  interpretation of the contract of a filter.
\<close>

section \<open>Anti-affinity\<close>

definition GetNamespacesFromPodAffinityTerm :: "Pod \<Rightarrow> PodAffinityTerm \<Rightarrow> string list" where
  "GetNamespacesFromPodAffinityTerm pod podAffinityTerm =
     (if length (pat_Namespaces podAffinityTerm) = 0 then [pod_Namespace pod]
      else pat_Namespaces podAffinityTerm)"

definition PodMatchesTermsNamespaceAndSelector ::
  "Pod \<Rightarrow> string list \<Rightarrow> (labels \<Rightarrow> bool) \<Rightarrow> bool" where
  "PodMatchesTermsNamespaceAndSelector pod namespaces selector =
     (if pod_Namespace pod \<notin> set namespaces then False
      else if \<not> selector (pod_Labels pod) then False
      else True)"

definition getPodAntiAffinityTerms :: "PodAntiAffinity option \<Rightarrow> PodAffinityTerm list" where
  "getPodAntiAffinityTerms podAntiAffinity =
     (case podAntiAffinity of
        None \<Rightarrow> []
      | Some a \<Rightarrow> paa_Required a @ map snd (paa_Preferred a))"

text \<open>The inner loop: some existing pod of another name matches the term.\<close>

fun conflicting_pod :: "Pod \<Rightarrow> string list \<Rightarrow> (labels \<Rightarrow> bool) \<Rightarrow> Pod list \<Rightarrow> bool" where
  "conflicting_pod pod namespaces selector [] = False"
| "conflicting_pod pod namespaces selector (existingPod # pods) =
     (if pod_Name existingPod \<noteq> pod_Name pod \<and>
         PodMatchesTermsNamespaceAndSelector existingPod namespaces selector
      then True
      else conflicting_pod pod namespaces selector pods)"

fun check_terms :: "cluster \<Rightarrow> Pod \<Rightarrow> Pod list \<Rightarrow> PodAffinityTerm list \<Rightarrow> Status" where
  "check_terms cl pod pods [] = NewStatus Success []"
| "check_terms cl pod pods (term # terms) =
     (let namespaces = GetNamespacesFromPodAffinityTerm pod term
      in case LabelSelectorAsSelector cl (pat_LabelSelector term) of
           Inl e \<Rightarrow> NewStatus Unschedulable []
         | Inr selector \<Rightarrow>
             if conflicting_pod pod namespaces selector pods then NewStatus Unschedulable []
             else check_terms cl pod pods terms)"

definition checkPodsWithAntiAffinityExist ::
  "cluster \<Rightarrow> PodSetHandle \<Rightarrow> Pod \<Rightarrow> Pod list \<Rightarrow> Node \<Rightarrow> Status" where
  "checkPodsWithAntiAffinityExist cl podsetHandle pod pods node =
     (case hdl_List podsetHandle node of
        Inl e \<Rightarrow> AsStatus e
      | Inr podsetPods \<Rightarrow>
          let pods = mergePods pods podsetPods
          in if pod_AntiAffinity pod \<noteq> None
             then check_terms cl pod pods (getPodAntiAffinityTerms (pod_AntiAffinity pod))
             else NewStatus Success [])"

definition podAntiAffinity_Filter :: filter_fun where
  "podAntiAffinity_Filter cl podsetHandle pod node =
     (case ListPodsOnANode cl node of
        Inl e \<Rightarrow> AsStatus e
      | Inr pods \<Rightarrow> checkPodsWithAntiAffinityExist cl podsetHandle pod pods node)"

lemma conflicting_pod_iff:
  "conflicting_pod pod ns sel ps \<longleftrightarrow>
     (\<exists>q \<in> set ps. pod_Name q \<noteq> pod_Name pod \<and> pod_Namespace q \<in> set ns \<and> sel (pod_Labels q))"
  by (induction ps) (auto simp: PodMatchesTermsNamespaceAndSelector_def)

text \<open>A term is violated by a pod, given the label test of its selector.\<close>

definition violates :: "Pod \<Rightarrow> PodAffinityTerm \<Rightarrow> (labels \<Rightarrow> bool) \<Rightarrow> Pod \<Rightarrow> bool" where
  "violates pod term sel q \<longleftrightarrow> pod_Name q \<noteq> pod_Name pod \<and>
     pod_Namespace q \<in> set (GetNamespacesFromPodAffinityTerm pod term) \<and> sel (pod_Labels q)"

lemma check_terms_success:
  "IsSuccess (check_terms cl pod ps terms) \<longleftrightarrow>
     (\<forall>t \<in> set terms. \<exists>sel. LabelSelectorAsSelector cl (pat_LabelSelector t) = Inr sel \<and>
        (\<forall>q \<in> set ps. \<not> violates pod t sel q))"
  by (induction terms)
    (auto simp: Let_def conflicting_pod_iff violates_def split: sum.splits)

lemma check_terms_code:
  "st_code (check_terms cl pod ps terms) \<in> {Success, Unschedulable}"
  by (induction terms) (auto simp: Let_def split: sum.splits)

lemma podAntiAffinity_success:
  assumes "ListPodsOnANode cl node = Inr ps" and "hdl_List hdl node = Inr qs"
  shows "IsSuccess (podAntiAffinity_Filter cl hdl pod node) \<longleftrightarrow>
     (\<forall>t \<in> set (getPodAntiAffinityTerms (pod_AntiAffinity pod)).
        \<exists>sel. LabelSelectorAsSelector cl (pat_LabelSelector t) = Inr sel \<and>
          (\<forall>q \<in> set (mergePods ps qs). \<not> violates pod t sel q))"
  using assms
  by (cases "pod_AntiAffinity pod")
    (simp_all add: podAntiAffinity_Filter_def checkPodsWithAntiAffinityExist_def Let_def
      check_terms_success getPodAntiAffinityTerms_def)

text \<open>
  The pods that count on a node, given the live ones and the planned ones: the live ones, and the planned ones
  of which no live one has the name and namespace.
\<close>

definition live_or_planned :: "Pod list \<Rightarrow> Pod list \<Rightarrow> Pod \<Rightarrow> bool" where
  "live_or_planned ps qs q \<longleftrightarrow>
     q \<in> set ps \<or>
     q \<in> set qs \<and> \<not> (\<exists>p \<in> set ps. pod_Name p = pod_Name q \<and> pod_Namespace p = pod_Namespace q)"

lemma mergePods_live_or_planned: "q \<in> set (mergePods ps qs) \<longleftrightarrow> live_or_planned ps qs q"
  by (auto simp: mergePods_mem live_or_planned_def pod_key_def image_iff)

lemma getPodAntiAffinityTerms_mem:
  "t \<in> set (getPodAntiAffinityTerms aa) \<longleftrightarrow>
     (\<exists>a. aa = Some a \<and> (t \<in> set (paa_Required a) \<or> (\<exists>w. (w, t) \<in> set (paa_Preferred a))))"
  by (force simp: getPodAntiAffinityTerms_def split: option.splits)

lemma violates_iff:
  "violates pod t sel q \<longleftrightarrow> pod_Name q \<noteq> pod_Name pod \<and> sel (pod_Labels q) \<and>
     (if pat_Namespaces t = [] then pod_Namespace q = pod_Namespace pod
      else pod_Namespace q \<in> set (pat_Namespaces t))"
  by (auto simp: violates_def GetNamespacesFromPodAffinityTerm_def)

text \<open>
  C27: when both listings succeed, the anti-affinity filter passes exactly when every required
  and every preferred term of the pod has a valid selector, and there is no pod of another name on
  the node, live or planned, whose labels it matches and which is in one of the term's namespaces, or in the
  pod's own namespace when the term names none. A pod without anti-affinity always passes.
\<close>

theorem podAntiAffinity_Filter_iff:
  assumes "ListPodsOnANode cl node = Inr ps" and "hdl_List hdl node = Inr qs"
  shows "IsSuccess (podAntiAffinity_Filter cl hdl pod node) \<longleftrightarrow>
     (\<forall>a t. pod_AntiAffinity pod = Some a \<longrightarrow>
        t \<in> set (paa_Required a) \<or> (\<exists>w. (w, t) \<in> set (paa_Preferred a)) \<longrightarrow>
        (\<exists>sel. LabelSelectorAsSelector cl (pat_LabelSelector t) = Inr sel \<and>
          \<not> (\<exists>q. live_or_planned ps qs q \<and> pod_Name q \<noteq> pod_Name pod \<and> sel (pod_Labels q) \<and>
               (if pat_Namespaces t = [] then pod_Namespace q = pod_Namespace pod
                else pod_Namespace q \<in> set (pat_Namespaces t)))))"
proof -
  have "IsSuccess (podAntiAffinity_Filter cl hdl pod node) \<longleftrightarrow>
      (\<forall>t. t \<in> set (getPodAntiAffinityTerms (pod_AntiAffinity pod)) \<longrightarrow>
        (\<exists>sel. LabelSelectorAsSelector cl (pat_LabelSelector t) = Inr sel \<and>
          \<not> (\<exists>q. live_or_planned ps qs q \<and> violates pod t sel q)))"
    unfolding podAntiAffinity_success [OF assms] mergePods_live_or_planned [symmetric] by blast
  then show ?thesis unfolding getPodAntiAffinityTerms_mem violates_iff by blast
qed

definition ex_cluster :: "Pod list \<Rightarrow> cluster" where
  "ex_cluster ps = \<lparr>ListPodsOnANode = (\<lambda>_. Inr ps), PodFitsCurrentNode = (\<lambda>_ _. True),
     LabelSelectorAsSelector = (\<lambda>s. case s of None \<Rightarrow> Inr (\<lambda>_. False)
        | Some sel \<Rightarrow> Inr (\<lambda>ls. set (ls_MatchLabels sel) \<subseteq> set ls))\<rparr>"

definition ex_db_pod :: Pod where
  "ex_db_pod = blank_pod\<lparr>pod_Name := ''b'', pod_Labels := [(''app'', ''db'')]\<rparr>"

definition ex_apart_pod :: Pod where
  "ex_apart_pod = blank_pod\<lparr>pod_Name := ''a'', pod_AntiAffinity := Some
     \<lparr>paa_Required = [\<lparr>pat_LabelSelector =
         Some \<lparr>ls_MatchLabels = [(''app'', ''db'')], ls_MatchExpressions = []\<rparr>,
         pat_Namespaces = []\<rparr>], paa_Preferred = []\<rparr>\<rparr>"

text \<open>
  A live pod is in the way of a required term, and a planned one in the way of a preferred term;
  without them, the pod's own entry in the plan is not in its way.
\<close>

definition ex_prefers_pod :: Pod where
  "ex_prefers_pod = blank_pod\<lparr>pod_Name := ''a'', pod_AntiAffinity := Some
     \<lparr>paa_Required = [], paa_Preferred = [(10, \<lparr>pat_LabelSelector =
         Some \<lparr>ls_MatchLabels = [(''app'', ''db'')], ls_MatchExpressions = []\<rparr>,
         pat_Namespaces = []\<rparr>)]\<rparr>\<rparr>"

theorem podAntiAffinity_Filter_iff_witness:
  "\<not> IsSuccess (podAntiAffinity_Filter (ex_cluster [ex_db_pod]) \<lparr>hdl_List = (\<lambda>_. Inr [])\<rparr>
       ex_apart_pod blank_node) \<and>
   \<not> IsSuccess (podAntiAffinity_Filter (ex_cluster []) \<lparr>hdl_List = (\<lambda>_. Inr [ex_db_pod])\<rparr>
       ex_prefers_pod blank_node) \<and>
   IsSuccess (podAntiAffinity_Filter (ex_cluster []) \<lparr>hdl_List = (\<lambda>_. Inr [ex_apart_pod])\<rparr>
       ex_apart_pod blank_node)"
  using podAntiAffinity_Filter_iff [of "ex_cluster [ex_db_pod]" blank_node "[ex_db_pod]"
      "\<lparr>hdl_List = (\<lambda>_. Inr [])\<rparr>" "[]" ex_apart_pod]
    podAntiAffinity_Filter_iff [of "ex_cluster []" blank_node "[]"
      "\<lparr>hdl_List = (\<lambda>_. Inr [ex_db_pod])\<rparr>" "[ex_db_pod]" ex_prefers_pod]
    podAntiAffinity_Filter_iff [of "ex_cluster []" blank_node "[]"
      "\<lparr>hdl_List = (\<lambda>_. Inr [ex_apart_pod])\<rparr>" "[ex_apart_pod]" ex_apart_pod]
  by (simp add: ex_cluster_def ex_db_pod_def ex_apart_pod_def ex_prefers_pod_def blank_pod_def live_or_planned_def)

section \<open>Duplicates\<close>

definition getPodContainerKeys :: "Pod \<Rightarrow> string list" where
  "getPodContainerKeys pod =
     sort (concat (map (\<lambda>ownerRef.
       map (\<lambda>container.
              strings_Join [pod_Namespace pod, or_Kind ownerRef, or_Name ownerRef, c_Image container]
                ''/'')
         (pod_Containers pod))
       (pod_OwnerReferences pod)))"

fun duplicate_loop :: "string list \<Rightarrow> Pod list \<Rightarrow> Status" where
  "duplicate_loop given [] = NewStatus Success []"
| "duplicate_loop given (pod # pods) =
     (if pod_DeletionTimestamp pod \<noteq> None then duplicate_loop given pods
      else if given = getPodContainerKeys pod then NewStatus Unschedulable []
      else duplicate_loop given pods)"

definition podIsADuplicate_Filter :: filter_fun where
  "podIsADuplicate_Filter cl podsetHandle pod node =
     (case hdl_List podsetHandle node of
        Inl e \<Rightarrow> AsStatus e
      | Inr podsetPods \<Rightarrow>
          (case ListPodsOnANode cl node of
             Inl e \<Rightarrow> AsStatus e
           | Inr pods \<Rightarrow> duplicate_loop (getPodContainerKeys pod) (mergePods pods podsetPods)))"

text \<open>The keys of a pod before sorting, as a multiset.\<close>

definition container_keys :: "Pod \<Rightarrow> string multiset" where
  "container_keys pod = mset (concat (map (\<lambda>ow.
     map (\<lambda>c. strings_Join [pod_Namespace pod, or_Kind ow, or_Name ow, c_Image c] ''/'')
       (pod_Containers pod)) (pod_OwnerReferences pod)))"

lemma getPodContainerKeys_eq_iff:
  "getPodContainerKeys p = getPodContainerKeys q \<longleftrightarrow> container_keys p = container_keys q"
  unfolding getPodContainerKeys_def container_keys_def
  by (auto intro!: properties_for_sort dest: arg_cong [where f = mset])

lemma duplicate_loop_success:
  "IsSuccess (duplicate_loop given ps) \<longleftrightarrow>
     (\<forall>q \<in> set ps. pod_DeletionTimestamp q = None \<longrightarrow> given \<noteq> getPodContainerKeys q)"
  by (induction ps) auto

text \<open>
  C28: when both listings succeed, the duplicate filter passes exactly when no pod on the node, live or
  planned, that is not being deleted has the same multiset of namespace, owner and image keys, one key for
  each owner and container. So a pod that shares only some of the images is not a duplicate.
\<close>

theorem podIsADuplicate_Filter_iff:
  assumes "ListPodsOnANode cl node = Inr ps" and "hdl_List hdl node = Inr qs"
  shows "IsSuccess (podIsADuplicate_Filter cl hdl pod node) \<longleftrightarrow>
     \<not> (\<exists>q. live_or_planned ps qs q \<and> pod_DeletionTimestamp q = None \<and> container_keys q = container_keys pod)"
  using assms
  by (auto simp: podIsADuplicate_Filter_def duplicate_loop_success getPodContainerKeys_eq_iff
      simp flip: mergePods_live_or_planned)

definition ex_web_pod :: "string \<Rightarrow> string list \<Rightarrow> Pod" where
  "ex_web_pod n images = blank_pod\<lparr>pod_Name := n,
     pod_OwnerReferences := [\<lparr>or_Kind = ''ReplicaSet'', or_Name = ''web''\<rparr>],
     pod_Containers := map (\<lambda>i. \<lparr>c_Image = i, c_Requests = []\<rparr>) images\<rparr>"

text \<open>
  A live pod and a planned pod with the same images in another order are duplicates; a pod that shares
  one of two images is not.
\<close>

theorem podIsADuplicate_Filter_iff_witness:
  "\<not> IsSuccess (podIsADuplicate_Filter (ex_cluster [ex_web_pod ''b'' [''y'', ''x'']])
       \<lparr>hdl_List = (\<lambda>_. Inr [])\<rparr> (ex_web_pod ''a'' [''x'', ''y'']) blank_node) \<and>
   \<not> IsSuccess (podIsADuplicate_Filter (ex_cluster [])
       \<lparr>hdl_List = (\<lambda>_. Inr [ex_web_pod ''b'' [''y'', ''x'']])\<rparr> (ex_web_pod ''a'' [''x'', ''y'']) blank_node) \<and>
   IsSuccess (podIsADuplicate_Filter (ex_cluster [ex_web_pod ''b'' [''x'']])
       \<lparr>hdl_List = (\<lambda>_. Inr [])\<rparr> (ex_web_pod ''a'' [''x'', ''y'']) blank_node)"
  using podIsADuplicate_Filter_iff [of "ex_cluster [ex_web_pod ''b'' [''y'', ''x'']]" blank_node
      "[ex_web_pod ''b'' [''y'', ''x'']]" "\<lparr>hdl_List = (\<lambda>_. Inr [])\<rparr>" "[]" "ex_web_pod ''a'' [''x'', ''y'']"]
    podIsADuplicate_Filter_iff [of "ex_cluster []" blank_node "[]"
      "\<lparr>hdl_List = (\<lambda>_. Inr [ex_web_pod ''b'' [''y'', ''x'']])\<rparr>" "[ex_web_pod ''b'' [''y'', ''x'']]"
      "ex_web_pod ''a'' [''x'', ''y'']"]
    podIsADuplicate_Filter_iff [of "ex_cluster [ex_web_pod ''b'' [''x'']]" blank_node
      "[ex_web_pod ''b'' [''x'']]" "\<lparr>hdl_List = (\<lambda>_. Inr [])\<rparr>" "[]" "ex_web_pod ''a'' [''x'', ''y'']"]
  by (simp add: ex_cluster_def ex_web_pod_def blank_pod_def live_or_planned_def container_keys_def)

text \<open>
  C34: two pods without owners count as duplicates whatever they run, so a pod without an owner
  is rejected on every node that holds another live pod without an owner.
\<close>

theorem podIsADuplicate_ownerless_rejected:
  assumes "ListPodsOnANode cl node = Inr ps"
    and "pod_OwnerReferences pod = []"
    and "q \<in> set ps" and "pod_OwnerReferences q = []" and "pod_DeletionTimestamp q = None"
  shows "\<not> IsSuccess (podIsADuplicate_Filter cl hdl pod node)"
proof (cases "hdl_List hdl node")
  case (Inl e)
  then show ?thesis by (simp add: podIsADuplicate_Filter_def)
next
  case (Inr qs)
  have "container_keys q = container_keys pod" using assms by (simp add: container_keys_def)
  moreover have "q \<in> set (mergePods ps qs)" using assms(3) by (simp add: mergePods_mem)
  ultimately show ?thesis
    using assms(1,5) Inr
    by (auto simp: podIsADuplicate_Filter_def duplicate_loop_success getPodContainerKeys_eq_iff)
qed

theorem podIsADuplicate_ownerless_rejected_witness:
  "\<not> IsSuccess (podIsADuplicate_Filter (ex_cluster [ex_db_pod]) \<lparr>hdl_List = (\<lambda>_. Inr [])\<rparr>
       ex_apart_pod blank_node)"
  by (rule podIsADuplicate_ownerless_rejected [of _ _ "[ex_db_pod]" _ ex_db_pod])
    (simp_all add: ex_cluster_def ex_db_pod_def ex_apart_pod_def blank_pod_def)

section \<open>Both keep the contract of a filter\<close>

interpretation affinity: filter_predicate podAntiAffinity_Filter
proof
  fix cl hdl cl' hdl' node pod
  assume fewer: "fewer_pods cl hdl cl' hdl' node"
    and ok: "IsSuccess (podAntiAffinity_Filter cl' hdl' pod node)"
  obtain ps qs ps' qs' where l:
    "ListPodsOnANode cl node = Inr ps" "hdl_List hdl node = Inr qs"
    "ListPodsOnANode cl' node = Inr ps'" "hdl_List hdl' node = Inr qs'"
    and sel: "LabelSelectorAsSelector cl = LabelSelectorAsSelector cl'"
    and sub: "set (mergePods ps qs) \<subseteq> set (mergePods ps' qs')"
    using fewer by (rule fewer_pods_merge)
  show "IsSuccess (podAntiAffinity_Filter cl hdl pod node)"
    using ok sub sel
    unfolding check_terms_success podAntiAffinity_Filter_def checkPodsWithAntiAffinityExist_def
    by (auto simp: l Let_def check_terms_success split: if_splits) blast
qed

interpretation duplicate: filter_predicate podIsADuplicate_Filter
proof
  fix cl hdl cl' hdl' node pod
  assume fewer: "fewer_pods cl hdl cl' hdl' node"
    and ok: "IsSuccess (podIsADuplicate_Filter cl' hdl' pod node)"
  obtain ps qs ps' qs' where l:
    "ListPodsOnANode cl node = Inr ps" "hdl_List hdl node = Inr qs"
    "ListPodsOnANode cl' node = Inr ps'" "hdl_List hdl' node = Inr qs'"
    and sub: "set (mergePods ps qs) \<subseteq> set (mergePods ps' qs')"
    using fewer by (rule fewer_pods_merge)
  show "IsSuccess (podIsADuplicate_Filter cl hdl pod node)"
    using ok sub by (auto simp: l podIsADuplicate_Filter_def duplicate_loop_success)
qed

end
