(* ===== verification/Parallelizer.thy ===== *)
theory Parallelizer
  imports Prelude
begin

text \<open>
  The worker pool of \<^verbatim>\<open>pkg/parallelize/parallelism.go\<close> and the vendored
  \<^verbatim>\<open>workqueue.ParallelizeUntil\<close> it runs on. The pieces of work are cut into chunks,
  workers take chunks off a channel and run their pieces, and a cancelled context makes a
  worker return before its next piece. The pool is a transition system in which workers move
  in any order; its log is the order in which pieces were run.
\<close>

section \<open>Chunk sizes\<close>

definition DefaultParallelism :: nat where
  "DefaultParallelism = 16"

definition NewParallelizer :: "int \<Rightarrow> nat" where
  "NewParallelizer p = (if p \<le> 0 then DefaultParallelism else nat p)"

text \<open>
  \<^verbatim>\<open>int(math.Sqrt(float64(n)))\<close>: the integer square root. The square root of a 64-bit
  float is correctly rounded, which makes this exact for every \<open>n\<close> below \<open>2 ^ 52\<close>; the
  argument is the length of a list of nodes.
\<close>

function isqrt_from :: "nat \<Rightarrow> nat \<Rightarrow> nat" where
  "isqrt_from k n = (if (k + 1) * (k + 1) \<le> n then isqrt_from (k + 1) n else k)"
  by pat_completeness auto
termination
proof (relation "measure (\<lambda>(k, n). n - k)")
  fix k n :: nat
  assume "(k + 1) * (k + 1) \<le> n"
  moreover have "k + 1 \<le> (k + 1) * (k + 1)" by simp
  ultimately have "k < n" by linarith
  then show "((k + 1, n), (k, n)) \<in> measure (\<lambda>(k, n). n - k)" by simp
qed simp

declare isqrt_from.simps [simp del]

definition isqrt :: "nat \<Rightarrow> nat" where
  "isqrt n = isqrt_from 0 n"

definition chunkSize :: "nat \<Rightarrow> nat \<Rightarrow> nat" where
  "chunkSize parallelism pieces =
     (let csize = isqrt pieces; r = pieces div parallelism + 1
      in if r < csize then r else if csize < 1 then 1 else csize)"

definition ceilDiv :: "nat \<Rightarrow> nat \<Rightarrow> nat" where
  "ceilDiv a b = (a + b - 1) div b"

text \<open>The pieces of one chunk: from \<open>chunk * chunkSize\<close>, cut off at the last piece.\<close>

definition chunk_pieces :: "nat \<Rightarrow> nat \<Rightarrow> nat \<Rightarrow> nat list" where
  "chunk_pieces csize pieces chunk =
     (let start = chunk * csize; end = min (start + csize) pieces in [start..<end])"

lemma chunkSize_pos: "0 < chunkSize parallelism pieces"
  by (simp add: chunkSize_def Let_def)

lemma upt_split: "a \<le> b \<Longrightarrow> [0..<b] = [0..<a] @ [a..<b]"
  using upt_add_eq_append [of 0 a "b - a"] by simp

lemma chunks_prefix:
  "concat (map (chunk_pieces csize n) [0..<k]) = [0..<min (k * csize) n]"
proof (induction k)
  case (Suc k)
  have "[0..<min (k * csize) n] @ [k * csize..<min (k * csize + csize) n] =
      [0..<min (Suc k * csize) n]"
  proof (cases "k * csize \<le> n")
    case True
    then have "[0..<min (Suc k * csize) n] =
        [0..<k * csize] @ [k * csize..<min (k * csize + csize) n]"
      using upt_split [of "k * csize" "min (Suc k * csize) n"] by (simp add: add.commute)
    with True show ?thesis by (simp add: min_def)
  next
    case False
    then show ?thesis by (simp add: min_def)
  qed
  with Suc.IH show ?case by (simp add: chunk_pieces_def Let_def)
qed simp

lemma ceilDiv_covers: "0 < csize \<Longrightarrow> n \<le> ceilDiv n csize * csize"
proof -
  assume "0 < csize"
  then have "n + csize - 1 < (ceilDiv n csize + 1) * csize"
    unfolding ceilDiv_def by (simp add: dividend_less_div_times)
  then show ?thesis using \<open>0 < csize\<close> by simp
qed

lemma chunks_partition:
  assumes "0 < csize"
  shows "concat (map (chunk_pieces csize n) [0..<ceilDiv n csize]) = [0..<n]"
  unfolding chunks_prefix using ceilDiv_covers [OF assms, of n] by (simp add: min_def)

section \<open>The pool\<close>

datatype worker = Busy "nat list" | Exited

record pool =
  toProcess :: "nat list"
  workers :: "worker list"
  stopped :: bool
  log :: "nat list"

text \<open>The start: all chunks queued, as many workers as chunks but at most the parallelism.\<close>

definition pool_start :: "nat \<Rightarrow> nat \<Rightarrow> pool" where
  "pool_start parallelism pieces =
     (let csize = chunkSize parallelism pieces; chunks = ceilDiv pieces csize
      in \<lparr>toProcess = [0..<chunks], workers = replicate (min chunks parallelism) (Busy []),
          stopped = False, log = []\<rparr>)"

inductive pool_step :: "nat \<Rightarrow> nat \<Rightarrow> pool \<Rightarrow> pool \<Rightarrow> bool" for csize pieces where
  take_chunk: "i < length (workers s) \<Longrightarrow> workers s ! i = Busy [] \<Longrightarrow> toProcess s = c # cs \<Longrightarrow>
    pool_step csize pieces s
      (s\<lparr>toProcess := cs, workers := (workers s)[i := Busy (chunk_pieces csize pieces c)]\<rparr>)"
| no_chunk: "i < length (workers s) \<Longrightarrow> workers s ! i = Busy [] \<Longrightarrow> toProcess s = [] \<Longrightarrow>
    pool_step csize pieces s (s\<lparr>workers := (workers s)[i := Exited]\<rparr>)"
| run_piece: "i < length (workers s) \<Longrightarrow> workers s ! i = Busy (p # ps) \<Longrightarrow> \<not> stopped s \<Longrightarrow>
    pool_step csize pieces s
      (s\<lparr>workers := (workers s)[i := Busy ps], log := log s @ [p]\<rparr>)"
| cancelled: "i < length (workers s) \<Longrightarrow> workers s ! i = Busy (p # ps) \<Longrightarrow> stopped s \<Longrightarrow>
    pool_step csize pieces s (s\<lparr>workers := (workers s)[i := Exited]\<rparr>)"
| cancel: "\<not> stopped s \<Longrightarrow> pool_step csize pieces s (s\<lparr>stopped := True\<rparr>)"

text \<open>\<^verbatim>\<open>wg.Wait\<close> returns when every worker has.\<close>

definition all_exited :: "pool \<Rightarrow> bool" where
  "all_exited s \<longleftrightarrow> (\<forall>w \<in> set (workers s). w = Exited)"

definition pool_reachable :: "nat \<Rightarrow> nat \<Rightarrow> pool \<Rightarrow> bool" where
  "pool_reachable parallelism pieces =
     reachable (\<lambda>s. s = pool_start parallelism pieces)
       (pool_step (chunkSize parallelism pieces) pieces)"

text \<open>
  \<^verbatim>\<open>Until\<close>: the orders in which the pieces can be run by a call that returns, and whether
  the context was cancelled on the way.
\<close>

definition Until :: "nat \<Rightarrow> nat \<Rightarrow> bool \<Rightarrow> nat list \<Rightarrow> bool" where
  "Until parallelism pieces cancelled_ctx sched \<longleftrightarrow>
     (if pieces = 0 then sched = []
      else \<exists>s. pool_reachable parallelism pieces s \<and> all_exited s \<and>
             stopped s = cancelled_ctx \<and> log s = sched)"

section \<open>Every piece is run once\<close>

fun pending :: "worker \<Rightarrow> nat list" where
  "pending (Busy ps) = ps"
| "pending Exited = []"

definition queued :: "nat \<Rightarrow> nat \<Rightarrow> pool \<Rightarrow> nat multiset" where
  "queued csize pieces s = mset (concat (map (chunk_pieces csize pieces) (toProcess s)))"

definition in_hand :: "pool \<Rightarrow> nat multiset" where
  "in_hand s = mset (concat (map pending (workers s)))"

definition held :: "nat \<Rightarrow> nat \<Rightarrow> pool \<Rightarrow> nat multiset" where
  "held csize pieces s = queued csize pieces s + in_hand s + mset (log s)"

lemma in_hand_update:
  assumes "i < length ws"
  shows "mset (concat (map pending (ws[i := w]))) + mset (pending (ws ! i)) =
    mset (concat (map pending ws)) + mset (pending w)"
  using assms
proof (induction ws arbitrary: i)
  case (Cons v ws)
  then show ?case by (cases i) auto
qed simp

lemma in_hand_take:
  assumes "i < length (workers s)" and "workers s ! i = Busy []"
  shows "in_hand (s\<lparr>workers := (workers s)[i := w]\<rparr>) = in_hand s + mset (pending w)"
  using in_hand_update [OF assms(1), of w] assms(2) by (simp add: in_hand_def)

lemma in_hand_drop:
  assumes "i < length (workers s)" and "workers s ! i = Busy (p # ps)"
  shows "in_hand s = add_mset p (in_hand (s\<lparr>workers := (workers s)[i := Busy ps]\<rparr>))"
    and "in_hand s = mset (p # ps) + in_hand (s\<lparr>workers := (workers s)[i := Exited]\<rparr>)"
  using in_hand_update [OF assms(1), of "Busy ps"] in_hand_update [OF assms(1), of Exited] assms(2)
  by (simp_all add: in_hand_def ac_simps)

text \<open>Queued, in hand and done: only cancellation ever drops anything.\<close>

lemma held_step:
  assumes "pool_step csize pieces s t"
  shows "held csize pieces t \<subseteq># held csize pieces s"
    and "\<not> stopped t \<Longrightarrow> held csize pieces t = held csize pieces s"
  using assms
proof (atomize (full), cases)
  case (take_chunk i c cs)
  let ?s = "s\<lparr>workers := (workers s)[i := Busy (chunk_pieces csize pieces c)]\<rparr>"
  have "in_hand t = in_hand ?s" using take_chunk(1) by (simp add: in_hand_def)
  then have "held csize pieces t = held csize pieces s"
    using take_chunk in_hand_take [of i s "Busy (chunk_pieces csize pieces c)"]
    by (simp add: held_def queued_def)
  then show "held csize pieces t \<subseteq># held csize pieces s \<and>
    (\<not> stopped t \<longrightarrow> held csize pieces t = held csize pieces s)" by simp
next
  case (run_piece i p ps)
  let ?s = "s\<lparr>workers := (workers s)[i := Busy ps]\<rparr>"
  have "in_hand t = in_hand ?s" using run_piece(1) by (simp add: in_hand_def)
  then show "held csize pieces t \<subseteq># held csize pieces s \<and>
    (\<not> stopped t \<longrightarrow> held csize pieces t = held csize pieces s)"
    using run_piece in_hand_drop(1) [of i s p ps] by (simp add: held_def queued_def)
next
  case (no_chunk i)
  then show "held csize pieces t \<subseteq># held csize pieces s \<and>
    (\<not> stopped t \<longrightarrow> held csize pieces t = held csize pieces s)"
    using in_hand_take [of i s Exited] by (simp add: held_def queued_def)
next
  case (cancelled i p ps)
  then show "held csize pieces t \<subseteq># held csize pieces s \<and>
    (\<not> stopped t \<longrightarrow> held csize pieces t = held csize pieces s)"
    using in_hand_drop(2) [of i s p ps] by (simp add: held_def queued_def)
next
  case cancel
  then show "held csize pieces t \<subseteq># held csize pieces s \<and>
    (\<not> stopped t \<longrightarrow> held csize pieces t = held csize pieces s)"
    by (simp add: held_def queued_def in_hand_def)
qed

text \<open>
  The invariant: what is held is part of the pieces, all of them while the context is not
  cancelled, and then a worker that has returned saw an empty channel.
\<close>

definition pool_inv :: "nat \<Rightarrow> nat \<Rightarrow> pool \<Rightarrow> bool" where
  "pool_inv csize pieces s \<longleftrightarrow>
     held csize pieces s \<subseteq># mset [0..<pieces] \<and>
     (\<not> stopped s \<longrightarrow> held csize pieces s = mset [0..<pieces] \<and>
        (Exited \<in> set (workers s) \<longrightarrow> toProcess s = []))"

lemma exited_update: "Exited \<in> set (ws[i := Busy ps]) \<Longrightarrow> Exited \<in> set ws"
  by (auto dest: set_update_subset_insert [THEN subsetD])

lemma pool_step_inv:
  assumes inv: "pool_inv csize pieces s" and step: "pool_step csize pieces s t"
  shows "pool_inv csize pieces t"
proof -
  have "held csize pieces t \<subseteq># mset [0..<pieces]"
    using inv held_step(1) [OF step] unfolding pool_inv_def by (blast intro: subset_mset.order_trans)
  moreover from step have "\<not> stopped t \<Longrightarrow> \<not> stopped s" by cases auto
  moreover from step have "\<not> stopped t \<Longrightarrow> Exited \<in> set (workers t) \<Longrightarrow> toProcess t = []"
    using inv by cases (auto simp: pool_inv_def dest: exited_update)
  ultimately show ?thesis
    using inv held_step(2) [OF step] by (simp add: pool_inv_def)
qed

lemma pool_start_inv: "pool_inv (chunkSize par pieces) pieces (pool_start par pieces)"
proof -
  have "concat (map pending (replicate n (Busy []))) = []" for n
    by (induction n) auto
  then show ?thesis
    using chunks_partition [OF chunkSize_pos, of par pieces pieces]
    by (simp add: pool_inv_def held_def queued_def in_hand_def pool_start_def Let_def)
qed

interpretation pool: invariant_system "\<lambda>s. s = pool_start par pieces"
  "pool_step (chunkSize par pieces) pieces" "pool_inv (chunkSize par pieces) pieces"
  for par pieces
  by unfold_locales (auto intro: pool_start_inv pool_step_inv)

lemma pool_reachable_inv:
  "pool_reachable par pieces s \<Longrightarrow> pool_inv (chunkSize par pieces) pieces s"
  unfolding pool_reachable_def by (rule pool.reachable_inv)

lemma workers_step: "pool_step csize pieces s t \<Longrightarrow> length (workers t) = length (workers s)"
  by (induction rule: pool_step.induct) auto

lemma workers_reachable:
  "pool_reachable par pieces s \<Longrightarrow> length (workers s) = length (workers (pool_start par pieces))"
  unfolding pool_reachable_def by (induction rule: reachable.induct) (auto dest: workers_step)

lemma pool_start_workers:
  assumes "0 < pieces" and "0 < par"
  shows "0 < length (workers (pool_start par pieces))"
proof -
  have "0 < ceilDiv pieces (chunkSize par pieces)"
    using ceilDiv_covers [OF chunkSize_pos, of pieces par pieces] assms(1)
    by (auto intro: gr0I)
  with assms(2) show ?thesis by (simp add: pool_start_def Let_def)
qed

lemma exited_in_hand: "all_exited s \<Longrightarrow> in_hand s = {#}"
  by (auto simp: all_exited_def in_hand_def)

lemma Until_each_piece:
  assumes "0 < par" and "Until par pieces False sched"
  shows "mset sched = mset [0..<pieces]"
proof (cases "pieces = 0")
  case False
  then obtain s where s: "pool_reachable par pieces s" "all_exited s" "\<not> stopped s" "log s = sched"
    using assms(2) by (auto simp: Until_def)
  have "0 < length (workers s)"
    unfolding workers_reachable [OF s(1)] using False assms(1) by (intro pool_start_workers) simp_all
  then have "Exited \<in> set (workers s)"
    using s(2) by (cases "workers s") (auto simp: all_exited_def)
  then have "toProcess s = []" and "held (chunkSize par pieces) pieces s = mset [0..<pieces]"
    using pool_reachable_inv [OF s(1)] s(3) by (auto simp: pool_inv_def)
  then show ?thesis using s(2,4) by (simp add: held_def queued_def exited_in_hand)
qed (use assms in \<open>simp add: Until_def\<close>)

text \<open>
  C24: a call of the parallelizer that returns without cancellation has run every piece
  exactly once, in some order.
\<close>

theorem Until_runs_each_piece_once:
  assumes "0 < par" and "Until par pieces False sched"
  shows "mset sched = mset [0..<pieces]"
  using assms by (rule Until_each_piece)

text \<open>
  A pool of one worker runs the pieces in order: there is a complete run for every number of
  pieces.
\<close>

abbreviation solo :: "nat list \<Rightarrow> worker \<Rightarrow> nat list \<Rightarrow> pool" where
  "solo cs w l \<equiv> \<lparr>toProcess = cs, workers = [w], stopped = False, log = l\<rparr>"

lemma solo_chunk:
  "reachable init (pool_step csize n) (solo cs (Busy ps) l) \<Longrightarrow>
     reachable init (pool_step csize n) (solo cs (Busy []) (l @ ps))"
proof (induction ps arbitrary: l)
  case (Cons p ps)
  have "pool_step csize n (solo cs (Busy (p # ps)) l) (solo cs (Busy ps) (l @ [p]))"
    using run_piece [of 0 "solo cs (Busy (p # ps)) l" p ps csize n] by simp
  with Cons.prems have "reachable init (pool_step csize n) (solo cs (Busy ps) (l @ [p]))"
    by (rule reachable_step)
  from Cons.IH [OF this] show ?case by simp
qed simp

lemma solo_chunks:
  "reachable init (pool_step csize n) (solo cs (Busy []) l) \<Longrightarrow>
     reachable init (pool_step csize n) (solo [] (Busy []) (l @ concat (map (chunk_pieces csize n) cs)))"
proof (induction cs arbitrary: l)
  case (Cons c cs)
  have "pool_step csize n (solo (c # cs) (Busy []) l) (solo cs (Busy (chunk_pieces csize n c)) l)"
    using take_chunk [of 0 "solo (c # cs) (Busy []) l" c cs csize n] by simp
  with Cons.prems have "reachable init (pool_step csize n) (solo cs (Busy (chunk_pieces csize n c)) l)"
    by (rule reachable_step)
  from Cons.IH [OF solo_chunk [OF this]] show ?case by simp
qed simp

lemma Until_sequential: "Until 1 n False [0..<n]"
proof (cases "n = 0")
  case False
  let ?c = "chunkSize 1 n"
  have "0 < ceilDiv n ?c"
    using ceilDiv_covers [OF chunkSize_pos, of n 1 n] False by (auto intro: gr0I)
  then have "pool_start 1 n = solo [0..<ceilDiv n ?c] (Busy []) []"
    by (cases "ceilDiv n ?c") (simp_all add: pool_start_def Let_def)
  then have "pool_reachable 1 n (solo [0..<ceilDiv n ?c] (Busy []) [])"
    unfolding pool_reachable_def by (intro reachable_start) simp
  from solo_chunks [OF this [unfolded pool_reachable_def]]
  have "pool_reachable 1 n (solo [] (Busy []) [0..<n])"
    using chunks_partition [OF chunkSize_pos, of 1 n n] by (simp add: pool_reachable_def)
  moreover have "pool_step ?c n (solo [] (Busy []) [0..<n]) (solo [] Exited [0..<n])"
    using no_chunk [of 0 "solo [] (Busy []) [0..<n]" ?c n] by simp
  ultimately have "pool_reachable 1 n (solo [] Exited [0..<n])"
    unfolding pool_reachable_def by (rule reachable_step)
  then show ?thesis
    using False by (auto simp: Until_def all_exited_def intro!: exI [of _ "solo [] Exited [0..<n]"])
qed (simp add: Until_def)

lemma Until_example: "Until 1 1 False [0]"
  using Until_sequential [of 1] by simp

text \<open>The context can end before the first piece is run.\<close>

lemma Until_stopped_example: "Until 1 1 True []"
proof -
  let ?c = "chunkSize 1 1"
  let ?begun = "solo [] (Busy (chunk_pieces ?c 1 0)) []"
  have one: "ceilDiv 1 ?c = 1" "chunk_pieces ?c 1 0 = [0]" by code_simp+
  have "pool_start 1 1 = solo [0] (Busy []) []"
    by (simp add: pool_start_def Let_def one [simplified])
  then have "pool_reachable 1 1 (solo [0] (Busy []) [])"
    unfolding pool_reachable_def by (intro reachable_start) simp
  moreover have "pool_step ?c 1 (solo [0] (Busy []) []) ?begun"
    using take_chunk [of 0 "solo [0] (Busy []) []" 0 "[]" ?c 1] by simp
  moreover have "pool_step ?c 1 ?begun (?begun\<lparr>stopped := True\<rparr>)"
    by (rule cancel) simp
  moreover have "pool_step ?c 1 (?begun\<lparr>stopped := True\<rparr>) (?begun\<lparr>stopped := True, workers := [Exited]\<rparr>)"
    using cancelled [of 0 "?begun\<lparr>stopped := True\<rparr>" 0 "[]" ?c 1] by (simp add: one [simplified])
  ultimately have "pool_reachable 1 1 (?begun\<lparr>stopped := True, workers := [Exited]\<rparr>)"
    unfolding pool_reachable_def by (blast intro: reachable_step)
  then show ?thesis
    by (auto simp: Until_def all_exited_def intro!: exI [of _ "?begun\<lparr>stopped := True, workers := [Exited]\<rparr>"])
qed

theorem Until_runs_each_piece_once_witness: "Until 1 1 False [0] \<and> mset [0] = mset [0..<1]"
  using Until_runs_each_piece_once [OF _ Until_example] Until_example by simp

text \<open>A call that is cut short has run some of the pieces, none of them twice.\<close>

lemma Until_runs_no_piece_twice:
  assumes "Until par pieces c sched"
  shows "distinct sched \<and> set sched \<subseteq> {..<pieces}"
proof (cases "pieces = 0")
  case False
  then obtain s where s: "pool_reachable par pieces s" "log s = sched"
    using assms by (auto simp: Until_def)
  then have sub: "mset sched \<subseteq># mset [0..<pieces]"
    using pool_reachable_inv [OF s(1)] unfolding pool_inv_def held_def
    by (metis mset_subset_eq_add_right subset_mset.order_trans)
  have "count (mset [0..<pieces]) x \<le> 1" for x
    using distinct_count_atmost_1 [of "[0..<pieces]"] by (simp del: mset_upt)
  then have "count (mset sched) x \<le> 1" for x
    using mset_subset_eq_count [OF sub, of x] order_trans by blast
  then have "distinct sched"
    by (metis distinct_count_atmost_1 count_greater_zero_iff le_antisym less_one not_less
        not_in_iff set_mset_mset)
  moreover have "set sched \<subseteq> set [0..<pieces]" using set_mset_mono [OF sub] by simp
  ultimately show ?thesis by auto
qed (use assms in \<open>simp add: Until_def\<close>)

section \<open>The pool always comes to rest\<close>

fun worker_fuel :: "worker \<Rightarrow> nat" where
  "worker_fuel (Busy ps) = Suc (length ps)"
| "worker_fuel Exited = 0"

definition pool_fuel :: "nat \<Rightarrow> nat \<Rightarrow> pool \<Rightarrow> nat" where
  "pool_fuel csize pieces s =
     (if stopped s then 0 else 1) + sum_list (map worker_fuel (workers s)) +
     sum_list (map (\<lambda>c. Suc (length (chunk_pieces csize pieces c))) (toProcess s))"

lemma worker_fuel_update:
  assumes "i < length ws"
  shows "sum_list (map worker_fuel (ws[i := w])) + worker_fuel (ws ! i) =
    sum_list (map worker_fuel ws) + worker_fuel w"
  using assms
proof (induction ws arbitrary: i)
  case (Cons v ws)
  then show ?case by (cases i) auto
qed simp

lemma pool_step_fuel:
  "pool_step csize pieces s t \<Longrightarrow> pool_fuel csize pieces t < pool_fuel csize pieces s"
proof (induction rule: pool_step.induct)
  case (take_chunk i s c cs)
  then show ?case
    using worker_fuel_update [of i "workers s" "Busy (chunk_pieces csize pieces c)"]
    by (simp add: pool_fuel_def)
next
  case (no_chunk i s)
  then show ?case using worker_fuel_update [of i "workers s" Exited] by (simp add: pool_fuel_def)
next
  case (run_piece i s p ps)
  then show ?case using worker_fuel_update [of i "workers s" "Busy ps"] by (simp add: pool_fuel_def)
next
  case (cancelled i s p ps)
  then show ?case using worker_fuel_update [of i "workers s" Exited] by (simp add: pool_fuel_def)
next
  case (cancel s)
  then show ?case by (simp add: pool_fuel_def)
qed

lemma worker_moves:
  assumes "i < length (workers s)" and "workers s ! i \<noteq> Exited"
  shows "\<exists>t. pool_step csize pieces s t \<and> stopped t = stopped s"
proof (cases "workers s ! i")
  case (Busy ps)
  show ?thesis
  proof (cases ps)
    case Nil
    then show ?thesis
      using assms(1) Busy
      by (cases "toProcess s") (fastforce dest: no_chunk take_chunk)+
  next
    case (Cons p qs)
    then show ?thesis
      using assms(1) Busy by (cases "stopped s") (fastforce dest: run_piece cancelled)+
  qed
qed (use assms in simp)

lemma all_exited_nth: "all_exited s \<longleftrightarrow> (\<forall>i < length (workers s). workers s ! i = Exited)"
  unfolding all_exited_def by (rule all_set_conv_all_nth)

lemma exited_rests:
  "pool_step csize pieces s t \<Longrightarrow> all_exited s \<Longrightarrow> stopped t \<noteq> stopped s"
  by (induction rule: pool_step.induct) (auto simp: all_exited_nth)

text \<open>
  The pool has no infinite run, and it rests exactly when every worker has returned:
  there is no deadlock, so every call of the parallelizer returns.
\<close>

theorem pool_comes_to_rest:
  "wfp (\<lambda>t s. pool_step csize pieces s t) \<and>
   (all_exited s \<longleftrightarrow> \<not> (\<exists>t. pool_step csize pieces s t \<and> stopped t = stopped s))"
proof
  show "wfp (\<lambda>t s. pool_step csize pieces s t)"
    by (rule wfp_if_convertible_to_nat [of _ "pool_fuel csize pieces"]) (rule pool_step_fuel)
  show "all_exited s \<longleftrightarrow> \<not> (\<exists>t. pool_step csize pieces s t \<and> stopped t = stopped s)"
  proof
    show "all_exited s \<Longrightarrow> \<not> (\<exists>t. pool_step csize pieces s t \<and> stopped t = stopped s)"
      using exited_rests by blast
    show "\<not> (\<exists>t. pool_step csize pieces s t \<and> stopped t = stopped s) \<Longrightarrow> all_exited s"
      unfolding all_exited_nth using worker_moves by blast
  qed
qed

end
