(* ===== verification/Handler.thy ===== *)
theory Handler
  imports NodeFit PodConflicts Parallelizer
begin

text \<open>
  The predicate handler: the registry of \<^verbatim>\<open>pkg/podpredicates/registry.go\<close> and the
  handler of \<^verbatim>\<open>pkg/podpredicates/predicate.go\<close>, which instantiates the registered
  predicates, sorts them into filters and scorers, and runs them over nodes in parallel. The
  order in which parallel pieces complete is an argument (\<open>sched\<close>), a log of the worker pool
  of theory Parallelizer.
\<close>

section \<open>The registry\<close>

record PredicateHandle =
  ph_CallTimeout :: int

type_synonym PredicateFactory = "PredicateHandle \<Rightarrow> err + Predicate"
type_synonym Registry = "(string, PredicateFactory) gomap"

definition Registry_Add :: "Registry \<Rightarrow> string \<Rightarrow> PredicateFactory \<Rightarrow> err + Registry" where
  "Registry_Add r name factory =
     (case map_of r name of
        Some _ \<Rightarrow> Inl (Sentinel ErrAlreadyExists)
      | None \<Rightarrow> Inr (AList.update name factory r))"

text \<open>\<^verbatim>\<open>Merge\<close> stores into its receiver as it goes, so the registry is part of the result.\<close>

fun Registry_Merge :: "Registry \<Rightarrow> Registry \<Rightarrow> err option \<times> Registry" where
  "Registry_Merge r [] = (None, r)"
| "Registry_Merge r ((name, factory) # newr) =
     (case Registry_Add r name factory of
        Inl e \<Rightarrow> (Some e, r)
      | Inr r' \<Rightarrow> Registry_Merge r' newr)"

definition podAntiAffinityName :: string where
  "podAntiAffinityName = ''PodAntiAffinity''"

definition podIsADuplicateName :: string where
  "podIsADuplicateName = ''PodIsADuplicate''"

definition podFitsNodeName :: string where
  "podFitsNodeName = ''PodFitsNode''"

definition newPodAntiAffinityPredicate :: PredicateFactory where
  "newPodAntiAffinityPredicate hdl =
     Inr \<lparr>pred_Name = podAntiAffinityName, pred_Filter = Some podAntiAffinity_Filter,
          pred_Score = None\<rparr>"

definition newPodIsADuplicatePredicate :: PredicateFactory where
  "newPodIsADuplicatePredicate hdl =
     Inr \<lparr>pred_Name = podIsADuplicateName, pred_Filter = Some podIsADuplicate_Filter,
          pred_Score = None\<rparr>"

definition newPodFitsNodePredicate :: PredicateFactory where
  "newPodFitsNodePredicate hdl =
     Inr \<lparr>pred_Name = podFitsNodeName, pred_Filter = Some podFitsNode_Filter,
          pred_Score = None\<rparr>"

definition NewInTreeRegistry :: Registry where
  "NewInTreeRegistry =
     [(podAntiAffinityName, newPodAntiAffinityPredicate),
      (podIsADuplicateName, newPodIsADuplicatePredicate),
      (podFitsNodeName, newPodFitsNodePredicate)]"

section \<open>The handler\<close>

record predicateOption =
  po_outOfTreeRegistry :: Registry
  po_callTimeout :: int
  po_parallelism :: int

type_synonym option_fun = "predicateOption \<Rightarrow> predicateOption"

definition WithCallTimeout :: "int \<Rightarrow> option_fun" where
  "WithCallTimeout timeout po = po\<lparr>po_callTimeout := timeout\<rparr>"

definition WithOutOfTreeRegistry :: "Registry \<Rightarrow> option_fun" where
  "WithOutOfTreeRegistry registry po = po\<lparr>po_outOfTreeRegistry := registry\<rparr>"

definition WithParallelism :: "int \<Rightarrow> option_fun" where
  "WithParallelism p po = po\<lparr>po_parallelism := p\<rparr>"

record PredicateHandler =
  parallelism :: nat
  predicateMap :: "(string, Predicate) gomap"
  registry :: Registry
  filterPredicates :: "filter_fun list"
  scorePredicates :: "score_fun list"
  options :: predicateOption

text \<open>Instantiate every registered predicate whose factory succeeds.\<close>

fun instantiate_predicates ::
  "PredicateHandle \<Rightarrow> Registry \<Rightarrow> (string, Predicate) gomap \<Rightarrow> (string, Predicate) gomap" where
  "instantiate_predicates hdl [] m = m"
| "instantiate_predicates hdl ((name, factory) # reg) m =
     instantiate_predicates hdl reg
       (case factory hdl of Inl _ \<Rightarrow> m | Inr pred \<Rightarrow> AList.update name pred m)"

text \<open>
  \<^verbatim>\<open>updatePredicateList\<close> for one extension point: append every predicate of the map that
  implements the interface.
\<close>

definition updatePredicateList ::
  "(Predicate \<Rightarrow> 'f option) \<Rightarrow> 'f list \<Rightarrow> (string, Predicate) gomap \<Rightarrow> 'f list" where
  "updatePredicateList implements predicates m =
     predicates @ List.map_filter (\<lambda>(_, pred). implements pred) m"

definition New :: "option_fun list \<Rightarrow> err + PredicateHandler" where
  "New opts =
     (let popt = \<lparr>po_outOfTreeRegistry = [], po_callTimeout = 15000000000, po_parallelism = 0\<rparr>;
          popt = foldl (\<lambda>po opt. opt po) popt opts;
          (merr, reg) = Registry_Merge NewInTreeRegistry (po_outOfTreeRegistry popt)
      in case merr of
           Some e \<Rightarrow> Inl e
         | None \<Rightarrow>
             let m = instantiate_predicates \<lparr>ph_CallTimeout = po_callTimeout popt\<rparr> reg []
             in Inr \<lparr>parallelism = NewParallelizer (po_parallelism popt), predicateMap = m,
                     registry = reg,
                     filterPredicates = updatePredicateList pred_Filter [] m,
                     scorePredicates = updatePredicateList pred_Score [] m,
                     options = popt\<rparr>)"

fun RunFilterPredicates :: "filter_fun list \<Rightarrow> filter_fun" where
  "RunFilterPredicates [] cl hdl pod node = NewStatus Success []"
| "RunFilterPredicates (filterPred # preds) cl hdl pod node =
     (let st = filterPred cl hdl pod node
      in if \<not> IsSuccess st then st else RunFilterPredicates preds cl hdl pod node)"

text \<open>
  The pieces of work run in the order \<open>sched\<close>; each appends its node, under a lock, when the
  node passes.
\<close>

definition FindNodesThatPassFilters ::
  "PredicateHandler \<Rightarrow> cluster \<Rightarrow> PodSetHandle \<Rightarrow> Pod \<Rightarrow> Node list \<Rightarrow> nat list \<Rightarrow> Node list" where
  "FindNodesThatPassFilters ph cl hdl pod eligibleNodes sched =
     foldl (\<lambda>filteredNodes index.
        let node = eligibleNodes ! index;
            status = RunFilterPredicates (filterPredicates ph) cl hdl pod node
        in if IsSuccess status then filteredNodes @ [node] else filteredNodes) [] sched"

record NodeScore =
  ns_Name :: string
  ns_Score :: int64

fun sum_scores :: "score_fun list \<Rightarrow> cluster \<Rightarrow> PodSetHandle \<Rightarrow> Pod \<Rightarrow> Node \<Rightarrow> int64 \<Rightarrow> int64" where
  "sum_scores [] cl hdl pod node acc = acc"
| "sum_scores (scorePred # preds) cl hdl pod node acc =
     (case scorePred cl hdl pod node of
        (score, st) \<Rightarrow>
          if \<not> IsSuccess st then sum_scores preds cl hdl pod node acc
          else sum_scores preds cl hdl pod node (acc + score))"

definition RunScorePredicates ::
  "PredicateHandler \<Rightarrow> cluster \<Rightarrow> PodSetHandle \<Rightarrow> Pod \<Rightarrow> Node list \<Rightarrow> nat list \<Rightarrow> NodeScore list" where
  "RunScorePredicates ph cl hdl pod nodes sched =
     foldl (\<lambda>nodeScoreList index.
        let node = nodes ! index
        in nodeScoreList @ [\<lparr>ns_Name = node_Name node,
             ns_Score = sum_scores (scorePredicates ph) cl hdl pod node 0\<rparr>]) [] sched"

section \<open>Running the filters\<close>

lemma RunFilterPredicates_success:
  "IsSuccess (RunFilterPredicates fs cl hdl pod node) \<longleftrightarrow>
     (\<forall>f \<in> set fs. IsSuccess (f cl hdl pod node))"
  by (induction fs) (simp_all add: Let_def)

lemma FindNodes_filter:
  "FindNodesThatPassFilters ph cl hdl pod nodes sched =
     filter (\<lambda>n. IsSuccess (RunFilterPredicates (filterPredicates ph) cl hdl pod n))
       (map ((!) nodes) sched)"
proof -
  have "foldl (\<lambda>acc i. if P (nodes ! i) then acc @ [nodes ! i] else acc) acc sched =
      acc @ filter P (map ((!) nodes) sched)" for P acc
    by (induction sched arbitrary: acc) auto
  from this [of _ "[]"] show ?thesis
    by (simp add: FindNodesThatPassFilters_def Let_def)
qed

lemma RunScore_map:
  "RunScorePredicates ph cl hdl pod nodes sched =
     map (\<lambda>i. \<lparr>ns_Name = node_Name (nodes ! i),
       ns_Score = sum_scores (scorePredicates ph) cl hdl pod (nodes ! i) 0\<rparr>) sched"
proof -
  have "foldl (\<lambda>acc i. acc @ [f i]) acc sched = acc @ map f sched" for f :: "nat \<Rightarrow> NodeScore" and acc
    by (induction sched arbitrary: acc) auto
  from this [of _ "[]"] show ?thesis by (simp add: RunScorePredicates_def Let_def)
qed

lemma mset_schedule:
  assumes "mset sched = mset [0..<length xs]"
  shows "mset (map ((!) xs) sched) = mset xs"
proof -
  have "mset (map ((!) xs) sched) = image_mset ((!) xs) (mset [0..<length xs])"
    by (simp only: mset_map assms)
  also have "\<dots> = mset (map ((!) xs) [0..<length xs])" by simp
  also have "\<dots> = mset xs" by (simp only: map_nth)
  finally show ?thesis .
qed


text \<open>A run that was cut short has tested some of the nodes, each as often as it is listed.\<close>

lemma FindNodes_cancelled:
  assumes "Until par (length nodes) c sched"
  shows "mset (FindNodesThatPassFilters ph cl hdl pod nodes sched) \<subseteq>#
    filter_mset (\<lambda>n. IsSuccess (RunFilterPredicates (filterPredicates ph) cl hdl pod n)) (mset nodes)"
proof -
  have d: "distinct sched" and s: "set sched \<subseteq> {..<length nodes}"
    using Until_runs_no_piece_twice [OF assms] by auto
  then have "mset sched \<subseteq># mset [0..<length nodes]"
    using subset_imp_msubset_mset_set [of "set sched" "{..<length nodes}"]
    by (simp add: mset_set_set atLeast0LessThan)
  then have "image_mset ((!) nodes) (mset sched) \<subseteq># image_mset ((!) nodes) (mset [0..<length nodes])"
    by (rule image_mset_subseteq_mono)
  also have "image_mset ((!) nodes) (mset [0..<length nodes]) = mset nodes"
    by (metis map_nth mset_map)
  finally show ?thesis by (simp add: FindNodes_filter mset_filter multiset_filter_mono)
qed

section \<open>The registry and the built-in predicates\<close>

definition in_tree_filters :: "filter_fun list" where
  "in_tree_filters = [podAntiAffinity_Filter, podIsADuplicate_Filter, podFitsNode_Filter]"

lemma in_tree_names:
  "map fst NewInTreeRegistry = [podAntiAffinityName, podIsADuplicateName, podFitsNodeName]"
  by (simp add: NewInTreeRegistry_def)

lemma in_tree_distinct: "distinct (map fst NewInTreeRegistry)"
  by (simp add: in_tree_names podAntiAffinityName_def podIsADuplicateName_def podFitsNodeName_def)

lemma AList_update_fresh: "map_of r k = None \<Longrightarrow> AList.update k v r = r @ [(k, v)]"
  by (induction r) (auto split: if_splits)

lemma Registry_Add_fresh:
  "map_of r name = None \<Longrightarrow> Registry_Add r name f = Inr (r @ [(name, f)])"
  by (simp add: Registry_Add_def AList_update_fresh)

text \<open>
  Merging a registry with distinct names: it fails exactly on a name that is already taken,
  and otherwise adds every entry.
\<close>

lemma Registry_Merge_ok:
  assumes "distinct (map fst newr)" and "fst ` set r \<inter> fst ` set newr = {}"
  shows "Registry_Merge r newr = (None, r @ newr)"
  using assms
proof (induction newr arbitrary: r)
  case (Cons e newr)
  obtain name f where e: "e = (name, f)" by (cases e)
  with Cons.prems have fresh: "map_of r name = None" by (auto simp: map_of_eq_None_iff)
  have "Registry_Merge (r @ [(name, f)]) newr = (None, (r @ [(name, f)]) @ newr)"
    using Cons.prems e by (intro Cons.IH) auto
  then show ?case by (simp add: e Registry_Add_fresh [OF fresh])
qed auto

lemma Registry_Merge_clash:
  assumes "fst ` set r \<inter> fst ` set newr \<noteq> {}"
  shows "\<exists>r'. Registry_Merge r newr = (Some (Sentinel ErrAlreadyExists), r')"
  using assms
proof (induction newr arbitrary: r)
  case (Cons e newr)
  obtain name f where e: "e = (name, f)" by (cases e)
  show ?case
  proof (cases "map_of r name")
    case None
    with Cons.prems e have "fst ` set r \<inter> fst ` set newr \<noteq> {}"
      by (auto simp: map_of_eq_None_iff)
    then have "fst ` set (r @ [(name, f)]) \<inter> fst ` set newr \<noteq> {}" by auto
    from Cons.IH [OF this] show ?thesis by (simp add: e Registry_Add_fresh None)
  next
    case (Some g)
    then show ?thesis by (simp add: e Registry_Add_def)
  qed
qed auto

lemma instantiate_fresh:
  assumes "distinct (map fst reg)" and "fst ` set m \<inter> fst ` set reg = {}"
  shows "instantiate_predicates hdl reg m =
    m @ List.map_filter (\<lambda>(name, f). case f hdl of Inl _ \<Rightarrow> None | Inr p \<Rightarrow> Some (name, p)) reg"
  using assms
proof (induction reg arbitrary: m)
  case (Cons e reg)
  obtain name f where e: "e = (name, f)" by (cases e)
  with Cons.prems have fresh: "map_of m name = None" by (auto simp: map_of_eq_None_iff)
  show ?case
  proof (cases "f hdl")
    case (Inl x)
    with Cons e show ?thesis by (simp add: List.map_filter_simps)
  next
    case (Inr p)
    have "instantiate_predicates hdl reg (m @ [(name, p)]) = (m @ [(name, p)]) @
        List.map_filter (\<lambda>(name, f). case f hdl of Inl _ \<Rightarrow> None | Inr p \<Rightarrow> Some (name, p)) reg"
      using Cons.prems e by (intro Cons.IH) auto
    then show ?thesis by (simp add: e Inr AList_update_fresh [OF fresh] List.map_filter_simps)
  qed
qed (simp add: List.map_filter_simps)

definition delivered_filters :: "PredicateHandle \<Rightarrow> Registry \<Rightarrow> filter_fun set" where
  "delivered_filters h reg =
     {f. \<exists>name factory pred. (name, factory) \<in> set reg \<and> factory h = Inr pred \<and>
           pred_Filter pred = Some f}"

lemma delivered_filters_simps [simp]:
  "delivered_filters h [] = {}"
  "delivered_filters h ((name, f) # reg) =
     (case f h of Inl _ \<Rightarrow> {} | Inr pred \<Rightarrow> set_option (pred_Filter pred)) \<union> delivered_filters h reg"
  by (auto simp: delivered_filters_def split: sum.splits)

lemma delivered_filters_append:
  "delivered_filters h (r @ s) = delivered_filters h r \<union> delivered_filters h s"
  by (auto simp: delivered_filters_def)

lemma delivered_filters_instantiate:
  assumes "distinct (map fst reg)"
  shows "set (updatePredicateList pred_Filter [] (instantiate_predicates h reg [])) =
    delivered_filters h reg"
proof -
  let ?inst = "\<lambda>(name, f). case f h of Inl _ \<Rightarrow> None | Inr p \<Rightarrow> Some (name, p)"
  have "set (List.map_filter (\<lambda>(_, pred). pred_Filter pred) (List.map_filter ?inst reg)) =
      delivered_filters h reg" for reg :: Registry
  proof (induction reg)
    case (Cons e reg)
    obtain name f where e: "e = (name, f)" by (cases e)
    show ?case
    proof (cases "f h")
      case (Inr p)
      with Cons show ?thesis by (cases "pred_Filter p") (simp_all add: e List.map_filter_simps)
    qed (use Cons in \<open>simp add: e List.map_filter_simps\<close>)
  qed (simp add: List.map_filter_simps)
  with assms show ?thesis
    by (simp add: instantiate_fresh updatePredicateList_def)
qed

lemmas New_unfold = New_def Let_def WithCallTimeout_def WithParallelism_def
  WithOutOfTreeRegistry_def
lemmas in_tree_unfold = NewInTreeRegistry_def newPodAntiAffinityPredicate_def
  newPodIsADuplicatePredicate_def newPodFitsNodePredicate_def updatePredicateList_def
  podAntiAffinityName_def podIsADuplicateName_def podFitsNodeName_def List.map_filter_simps

lemma delivered_filters_in_tree: "delivered_filters h NewInTreeRegistry = set in_tree_filters"
  by (auto simp: in_tree_unfold in_tree_filters_def)

lemma in_tree_success:
  "IsSuccess (RunFilterPredicates in_tree_filters cl hdl pod node) \<longleftrightarrow>
     IsSuccess (podAntiAffinity_Filter cl hdl pod node) \<and>
     IsSuccess (podIsADuplicate_Filter cl hdl pod node) \<and>
     IsSuccess (podFitsNode_Filter cl hdl pod node)"
  by (simp add: RunFilterPredicates_success in_tree_filters_def del: RunFilterPredicates.simps)

lemma New_planner:
  assumes "New [WithCallTimeout t, WithParallelism p] = Inr ph"
  shows "filterPredicates ph = in_tree_filters" and "scorePredicates ph = []" and "0 < parallelism ph"
  using assms by (auto simp: New_unfold in_tree_unfold in_tree_filters_def NewParallelizer_def
      DefaultParallelism_def)


text \<open>
  The handler that the planner creates has exactly the three built-in filters, no scorer,
  and a worker count of sixteen unless the option asks for a positive number.
\<close>

theorem New_in_tree:
  "\<exists>ph. New [WithCallTimeout t, WithParallelism p] = Inr ph \<and>
     set (filterPredicates ph) = {podAntiAffinity_Filter, podIsADuplicate_Filter, podFitsNode_Filter} \<and>
     scorePredicates ph = [] \<and> parallelism ph = (if p \<le> 0 then 16 else nat p)"
  by (simp add: New_unfold in_tree_unfold NewParallelizer_def DefaultParallelism_def)

text \<open>
  An out-of-tree registry can add predicates but not replace a built-in one: with distinct
  names of its own, creating the handler fails exactly when one of them is the name of a
  built-in predicate; otherwise the new handler runs the built-in filters and every filter
  that a factory of the registry delivers.
\<close>

theorem New_out_of_tree:
  assumes "distinct (map fst reg)"
  shows "if \<exists>name \<in> {podAntiAffinityName, podIsADuplicateName, podFitsNodeName}. name \<in> fst ` set reg
    then New [WithOutOfTreeRegistry reg] = Inl (Sentinel ErrAlreadyExists)
    else \<exists>ph. New [WithOutOfTreeRegistry reg] = Inr ph \<and>
      set (filterPredicates ph) =
        {podAntiAffinity_Filter, podIsADuplicate_Filter, podFitsNode_Filter} \<union>
        {f. \<exists>name factory pred. (name, factory) \<in> set reg \<and>
              factory \<lparr>ph_CallTimeout = 15000000000\<rparr> = Inr pred \<and> pred_Filter pred = Some f}"
proof (cases "fst ` set NewInTreeRegistry \<inter> fst ` set reg = {}")
  case True
  have "distinct (map fst (NewInTreeRegistry @ reg))"
    using True assms in_tree_distinct by auto
  from delivered_filters_instantiate [OF this] have
    "set (updatePredicateList pred_Filter [] (instantiate_predicates h (NewInTreeRegistry @ reg) [])) =
      set in_tree_filters \<union> delivered_filters h reg" for h
    by (simp add: delivered_filters_append delivered_filters_in_tree)
  moreover from True have "\<not> (\<exists>name \<in> {podAntiAffinityName, podIsADuplicateName, podFitsNodeName}.
      name \<in> fst ` set reg)"
    by (auto simp: NewInTreeRegistry_def)
  ultimately show ?thesis
    using Registry_Merge_ok [OF assms True]
    by (simp add: New_unfold in_tree_filters_def delivered_filters_def)
next
  case False
  from Registry_Merge_clash [OF this] obtain r' where
    "Registry_Merge NewInTreeRegistry reg = (Some (Sentinel ErrAlreadyExists), r')" by blast
  moreover from False have "\<exists>name \<in> {podAntiAffinityName, podIsADuplicateName, podFitsNodeName}.
      name \<in> fst ` set reg"
    by (auto simp: NewInTreeRegistry_def)
  ultimately show ?thesis by (simp add: New_unfold)
qed

theorem New_out_of_tree_witness:
  "New [WithOutOfTreeRegistry [(podFitsNodeName, \<lambda>h. Inl (Sentinel ErrNoPredicate))]] =
     Inl (Sentinel ErrAlreadyExists)"
  using New_out_of_tree [of "[(podFitsNodeName, \<lambda>h. Inl (Sentinel ErrNoPredicate))]"] by simp

text \<open>
  The built-in filters, run together, keep the contract of a filter.
\<close>

interpretation all_filters: filter_predicate "RunFilterPredicates in_tree_filters"
  by unfold_locales
    (auto simp: in_tree_success intro: affinity.antitone duplicate.antitone fits.antitone)

text \<open>
  C25: the parallel filter run, whatever the interleaving of the workers. The function gives itself the call
  timeout; \<open>cancelled\<close> says that it, or the caller's context, ended before the pool was done. In every case
  a node is returned at most as often as it is listed, and only when it passes the three built-in
  filters. When the context has not ended, no such node is missing: each is returned exactly as often
  as it is listed. When it has ended, the list may lack nodes that pass, and nothing reports it.
\<close>

theorem FindNodesThatPassFilters_complete:
  assumes "New [WithCallTimeout t, WithParallelism p] = Inr ph"
    and "Until (parallelism ph) (length nodes) cancelled sched"
  shows "let passing = filter_mset (\<lambda>n. IsSuccess (podAntiAffinity_Filter cl hdl pod n) \<and>
      IsSuccess (podIsADuplicate_Filter cl hdl pod n) \<and> IsSuccess (podFitsNode_Filter cl hdl pod n)) (mset nodes)
    in mset (FindNodesThatPassFilters ph cl hdl pod nodes sched) \<subseteq># passing \<and>
      (\<not> cancelled \<longrightarrow> mset (FindNodesThatPassFilters ph cl hdl pod nodes sched) = passing)"
proof -
  note ph = New_planner [OF assms(1)]
  have "mset sched = mset [0..<length nodes]" if "\<not> cancelled"
    by (rule Until_each_piece [OF ph(3)]) (use assms(2) that in simp)
  then have "mset (map ((!) nodes) sched) = mset nodes" if "\<not> cancelled"
    using that by (blast intro: mset_schedule)
  then show ?thesis
    using FindNodes_cancelled [OF assms(2), of ph cl hdl pod] by (simp add: FindNodes_filter mset_filter ph in_tree_success)
qed


lemma New_planner_ex:
  "\<exists>ph. New [WithCallTimeout 1, WithParallelism 1] = Inr ph \<and> parallelism ph = 1"
  by (simp add: New_unfold in_tree_unfold NewParallelizer_def)

lemma blank_passes:
  "RunFilterPredicates in_tree_filters (ex_cluster []) \<lparr>hdl_List = (\<lambda>_. Inr [])\<rparr> blank_pod blank_node
     = NewStatus Success []"
  by (simp add: in_tree_filters_def podAntiAffinity_Filter_def podIsADuplicate_Filter_def
      podFitsNode_Filter_def ex_cluster_def blank_pod_def blank_node_def getPodAntiAffinityTerms_def
      checkPodsWithAntiAffinityExist_def computePodResourceRequest_def emptyResource_def
      mergePods_def getPodContainerKeys_def)

text \<open>
  The one node passes and is returned by the run that is not cut short; the one that is cut short at
  once returns nothing.
\<close>

theorem FindNodesThatPassFilters_complete_witness:
  "\<exists>ph. New [WithCallTimeout 1, WithParallelism 1] = Inr ph \<and>
     Until (parallelism ph) 1 False [0] \<and>
     mset (FindNodesThatPassFilters ph (ex_cluster []) \<lparr>hdl_List = (\<lambda>_. Inr [])\<rparr> blank_pod
       [blank_node] [0]) = {#blank_node#} \<and>
     Until (parallelism ph) 1 True [] \<and>
     FindNodesThatPassFilters ph (ex_cluster []) \<lparr>hdl_List = (\<lambda>_. Inr [])\<rparr> blank_pod [blank_node] [] = []"
proof -
  obtain ph where ph: "New [WithCallTimeout 1, WithParallelism 1] = Inr ph" "parallelism ph = 1"
    using New_planner_ex by blast
  moreover have "Until (parallelism ph) (length [blank_node]) False [0]"
    using ph Until_example by simp
  ultimately show ?thesis
    using FindNodesThatPassFilters_complete [of 1 1 ph "[blank_node]" False "[0]" "ex_cluster []"
        "\<lparr>hdl_List = (\<lambda>_. Inr [])\<rparr>" blank_pod] blank_passes Until_example Until_stopped_example
    by (simp add: in_tree_success [symmetric] FindNodesThatPassFilters_def)
qed

text \<open>
  Pods only ever count against a node: what passes the built-in filters with some pods
  assigned there passes them with fewer.
\<close>

theorem in_tree_filters_antitone:
  assumes "New [WithCallTimeout t, WithParallelism p] = Inr ph"
    and "fewer_pods cl hdl cl' hdl' node"
    and "IsSuccess (RunFilterPredicates (filterPredicates ph) cl' hdl' pod node)"
  shows "IsSuccess (RunFilterPredicates (filterPredicates ph) cl hdl pod node)"
  using assms(2,3) unfolding New_planner(1) [OF assms(1)] by (rule all_filters.antitone)

theorem in_tree_filters_antitone_witness:
  "\<exists>ph. New [WithCallTimeout 1, WithParallelism 1] = Inr ph \<and>
     IsSuccess (RunFilterPredicates (filterPredicates ph) (ex_cluster [])
       \<lparr>hdl_List = (\<lambda>_. Inr [])\<rparr> blank_pod blank_node)"
proof -
  obtain ph where ph: "New [WithCallTimeout 1, WithParallelism 1] = Inr ph"
    using New_planner_ex by blast
  have "fewer_pods (ex_cluster []) \<lparr>hdl_List = (\<lambda>_. Inr [])\<rparr> (ex_cluster [])
      \<lparr>hdl_List = (\<lambda>_. Inr [])\<rparr> blank_node"
    by (simp add: fewer_pods_def ex_cluster_def coherent_def)
  from in_tree_filters_antitone [OF ph this, of blank_pod] ph show ?thesis
    by (auto simp: New_planner [OF ph] blank_passes)
qed

end
