(* ===== verification/Selection.thy ===== *)
theory Selection
  imports Handler
begin

text \<open>
  The choice among scored nodes, \<^verbatim>\<open>selectNode\<close> of \<^verbatim>\<open>internal/pkg/planner/planner.go\<close>: a node
  of maximal score, by reservoir sampling when there are several. The properties are that the
  score is maximal whatever the random numbers are, and that every node of maximal score is
  selected by the same number of sequences of random numbers.
\<close>

section \<open>The loop\<close>

text \<open>
  The loop of \<^verbatim>\<open>selectNode\<close>; its state is the selected node, the largest score, how often it
  was seen, and the results that the coming calls of \<^verbatim>\<open>rand.Intn\<close> will return.
\<close>

fun select_step :: "string \<times> int64 \<times> nat \<times> nat list \<Rightarrow> NodeScore \<Rightarrow> string \<times> int64 \<times> nat \<times> nat list" where
  "select_step (selectedNode, maxScore, cntOfMaxScores, draws) nodeScore =
     (if sint maxScore < sint (ns_Score nodeScore)
      then (ns_Name nodeScore, ns_Score nodeScore, 1, draws)
      else if ns_Score nodeScore = maxScore
      then (if (case draws of [] \<Rightarrow> 0 | d # _ \<Rightarrow> d) = 0 then ns_Name nodeScore else selectedNode,
            maxScore, cntOfMaxScores + 1, tl draws)
      else (selectedNode, maxScore, cntOfMaxScores, draws))"

definition selectNode :: "NodeScore list \<Rightarrow> nat list \<Rightarrow> err + string" where
  "selectNode nodeScoreList draws =
     (case nodeScoreList of
        [] \<Rightarrow> Inl (Sentinel ErrEmptyPriorityList)
      | n # ns \<Rightarrow> Inr (fst (foldl select_step (ns_Name n, ns_Score n, 1, draws) ns)))"

section \<open>The arguments of the random number generator\<close>

text \<open>
  The calls of \<^verbatim>\<open>rand.Intn\<close> that a selection makes do not depend on their results. The
  state is the largest score, how often it was seen, and the arguments so far.
\<close>

fun arg_step :: "int64 \<times> nat \<times> nat list \<Rightarrow> NodeScore \<Rightarrow> int64 \<times> nat \<times> nat list" where
  "arg_step (m, c, as) x =
     (if sint m < sint (ns_Score x) then (ns_Score x, 1, as)
      else if ns_Score x = m then (m, c + 1, as @ [c + 1])
      else (m, c, as))"

definition arg_run :: "NodeScore \<Rightarrow> NodeScore list \<Rightarrow> int64 \<times> nat \<times> nat list" where
  "arg_run n ns = foldl arg_step (ns_Score n, 1, []) ns"

fun intn_args :: "NodeScore list \<Rightarrow> nat list" where
  "intn_args [] = []"
| "intn_args (n # ns) = snd (snd (arg_run n ns))"

text \<open>The sequences of results that the calls can have.\<close>

definition draws_of :: "nat list \<Rightarrow> nat list set" where
  "draws_of as = {ds. list_all2 (<) ds as}"

lemma draws_of_Nil: "draws_of [] = {[]}"
  by (auto simp: draws_of_def)

lemma draws_of_length: "ds \<in> draws_of as \<Longrightarrow> length ds = length as"
  by (auto simp: draws_of_def dest: list_all2_lengthD)

lemma draws_of_snoc:
  "draws_of (as @ [a]) = (\<lambda>(ds, d). ds @ [d]) ` (draws_of as \<times> {..<a})"
proof -
  have "list_all2 (<) ds (as @ [a]) \<longleftrightarrow> (\<exists>ds' d. ds = ds' @ [d] \<and> list_all2 (<) ds' as \<and> d < a)" for ds
    by (cases ds rule: rev_cases) (auto simp: list_all2_conv_all_nth nth_append less_Suc_eq)
  then show ?thesis by (auto simp: draws_of_def image_iff)
qed

lemma finite_draws: "finite (draws_of as)"
  by (induction as rule: rev_induct) (auto simp: draws_of_Nil draws_of_snoc)

lemma card_snoc:
  "card {ds \<in> draws_of (as @ [a]). P ds} =
     card {(ds, d). ds \<in> draws_of as \<and> d < a \<and> P (ds @ [d])}"
proof -
  have "{ds \<in> draws_of (as @ [a]). P ds} =
      (\<lambda>(ds, d). ds @ [d]) ` {(ds, d). ds \<in> draws_of as \<and> d < a \<and> P (ds @ [d])}"
    by (auto simp: draws_of_snoc)
  then show ?thesis by (simp add: card_image inj_on_def)
qed

lemma card_draws_snoc: "card (draws_of (as @ [a])) = card (draws_of as) * a"
proof -
  have "{(ds, d). ds \<in> draws_of as \<and> d < a} = draws_of as \<times> {..<a}" by auto
  then show ?thesis using card_snoc [of as a "\<lambda>_. True"] by (simp add: card_cartesian_product)
qed

section \<open>One run\<close>

definition sel_run :: "NodeScore \<Rightarrow> NodeScore list \<Rightarrow> nat list \<Rightarrow> string \<times> int64 \<times> nat \<times> nat list" where
  "sel_run n ns draws = foldl select_step (ns_Name n, ns_Score n, 1, draws) ns"

lemma selectNode_run: "selectNode (n # ns) ds = Inr (fst (sel_run n ns ds))"
  by (simp add: selectNode_def sel_run_def)

lemma sel_run_snoc: "sel_run n (ns @ [x]) ds = select_step (sel_run n ns ds) x"
  by (simp add: sel_run_def)

lemma arg_run_snoc: "arg_run n (ns @ [x]) = arg_step (arg_run n ns) x"
  by (simp add: arg_run_def)

lemma arg_run_Nil: "arg_run n [] = (ns_Score n, 1, [])"
  by (simp add: arg_run_def)

lemma sel_run_args:
  assumes "arg_run n ns = (m, c, as)" and "length ds = length as"
  shows "\<exists>sel. sel_run n ns (ds @ ex) = (sel, m, c, ex) \<and> fst (sel_run n ns ds) = sel"
  using assms
proof (induction ns arbitrary: m c as ds ex rule: rev_induct)
  case Nil
  then show ?case by (simp add: arg_run_def sel_run_def)
next
  case (snoc x ns)
  obtain m' c' as' where run: "arg_run n ns = (m', c', as')" by (cases "arg_run n ns")
  consider "sint m' < sint (ns_Score x)" | "\<not> sint m' < sint (ns_Score x)" "ns_Score x = m'"
    | "\<not> sint m' < sint (ns_Score x)" "ns_Score x \<noteq> m'" by blast
  then show ?case
  proof cases
    case 2
    with snoc.prems run obtain d ds' where ds: "ds = ds' @ [d]" "length ds' = length as'"
      by (cases ds rule: rev_cases) (auto simp: arg_run_snoc)
    from snoc.IH [OF run ds(2), of "[d] @ ex"] snoc.IH [OF run ds(2), of "[d]"]
    show ?thesis using 2 snoc.prems run by (auto simp: arg_run_snoc sel_run_snoc ds)
  next
    case 1
    then have "length ds = length as'" using snoc.prems run by (simp add: arg_run_snoc)
    then obtain sel where "sel_run n ns (ds @ ex) = (sel, m', c', ex)" "sel_run n ns ds = (sel, m', c', [])"
      using snoc.IH [OF run, of ds ex] snoc.IH [OF run, of ds "[]"] by auto
    then show ?thesis using 1 snoc.prems run by (simp add: arg_run_snoc sel_run_snoc)
  next
    case 3
    then have "length ds = length as'" using snoc.prems run by (simp add: arg_run_snoc)
    then obtain sel where "sel_run n ns (ds @ ex) = (sel, m', c', ex)" "sel_run n ns ds = (sel, m', c', [])"
      using snoc.IH [OF run, of ds ex] snoc.IH [OF run, of ds "[]"] by auto
    then show ?thesis using 3 snoc.prems run by (simp add: arg_run_snoc sel_run_snoc)
  qed
qed


lemma sel_run_max:
  assumes "sel_run n ns ds = (sel, m, c, ds')"
  shows "\<exists>x \<in> set (n # ns). ns_Name x = sel \<and> ns_Score x = m"
    and "\<forall>y \<in> set (n # ns). sint (ns_Score y) \<le> sint m"
  using assms
proof (induction ns arbitrary: sel m c ds' rule: rev_induct)
  case Nil
  case 1 then show ?case by (simp add: sel_run_def)
  case 2 then show ?case by (simp add: sel_run_def)
next
  case (snoc x ns)
  obtain sel' m' c' ds'' where run: "sel_run n ns ds = (sel', m', c', ds'')"
    by (cases "sel_run n ns ds")
  note IH = snoc.IH [OF run]
  {
    case 1
    then show ?case using run IH(1) by (auto simp: sel_run_snoc split: if_splits)
  next
    case 2
    then show ?case using run IH(2) by (fastforce simp: sel_run_snoc split: if_splits)
  }
qed

lemma arg_run_max:
  assumes "arg_run n ns = (m, c, as)"
  shows "\<forall>y \<in> set (n # ns). sint (ns_Score y) \<le> sint m"
    and "c = length (filter (\<lambda>y. ns_Score y = m) (n # ns))"
  using assms
proof (induction ns arbitrary: m c as rule: rev_induct)
  case Nil
  case 1 then show ?case by (simp add: arg_run_def)
  case 2 then show ?case by (simp add: arg_run_def)
next
  case (snoc x ns)
  obtain m' c' as' where run: "arg_run n ns = (m', c', as')" by (cases "arg_run n ns")
  note IH = snoc.IH [OF run]
  {
    case 1
    then show ?case using run IH(1) by (fastforce simp: arg_run_snoc split: if_splits)
  next
    case 2
    have "ns_Score y \<noteq> ns_Score x" if "sint m' < sint (ns_Score x)" "y \<in> set (n # ns)" for y
      using IH(1) that by fastforce
    with 2 run IH(2) show ?case
      by (auto simp: arg_run_snoc filter_eq_nil_iff split: if_splits)
  }
qed

lemma arg_run_pos: "arg_run n ns = (m, c, as) \<Longrightarrow> 0 < c"
proof (induction ns arbitrary: m c as rule: rev_induct)
  case (snoc x ns)
  then show ?case by (cases "arg_run n ns") (auto simp: arg_run_snoc split: if_splits)
qed (simp add: arg_run_Nil)

section \<open>Properties\<close>

text \<open>
  The selection fails exactly on an empty list; otherwise it names a node whose score is
  maximal, whatever the random numbers are.
\<close>

theorem selectNode_maximal:
  "case selectNode nodeScoreList draws of
     Inl e \<Rightarrow> nodeScoreList = [] \<and> e = Sentinel ErrEmptyPriorityList
   | Inr name \<Rightarrow> \<exists>x \<in> set nodeScoreList. ns_Name x = name \<and>
       list_all (\<lambda>y. sint (ns_Score y) \<le> sint (ns_Score x)) nodeScoreList"
proof (cases nodeScoreList)
  case (Cons n ns)
  obtain sel m c ds' where run: "sel_run n ns draws = (sel, m, c, ds')" by (cases "sel_run n ns draws")
  with sel_run_max [OF run] Cons show ?thesis
    by (auto simp: selectNode_run list_all_iff)
qed (simp add: selectNode_def)


text \<open>What one more node does to the selected name.\<close>

lemma sel_run_snoc_fst:
  assumes "arg_run n ns = (m, c, as)" and "ds \<in> draws_of as"
  shows "sint m < sint (ns_Score y) \<Longrightarrow> fst (sel_run n (ns @ [y]) ds) = ns_Name y"
    and "ns_Score y = m \<Longrightarrow> fst (sel_run n (ns @ [y]) (ds @ [d])) =
      (if d = 0 then ns_Name y else fst (sel_run n ns ds))"
    and "\<not> sint m < sint (ns_Score y) \<Longrightarrow> ns_Score y \<noteq> m \<Longrightarrow>
      fst (sel_run n (ns @ [y]) ds) = fst (sel_run n ns ds)"
proof -
  obtain sel where sel: "sel_run n ns (ds @ ex) = (sel, m, c, ex)" "fst (sel_run n ns ds) = sel" for ex
    using sel_run_args [OF assms(1) draws_of_length [OF assms(2)]] by metis
  note sel0 = sel(1) [of "[]", simplified] and sel1 = sel(1) [of "[d]"]
  show "sint m < sint (ns_Score y) \<Longrightarrow> fst (sel_run n (ns @ [y]) ds) = ns_Name y"
    and "ns_Score y = m \<Longrightarrow> fst (sel_run n (ns @ [y]) (ds @ [d])) =
      (if d = 0 then ns_Name y else fst (sel_run n ns ds))"
    and "\<not> sint m < sint (ns_Score y) \<Longrightarrow> ns_Score y \<noteq> m \<Longrightarrow>
      fst (sel_run n (ns @ [y]) ds) = fst (sel_run n ns ds)"
    using sel1 by (simp_all add: sel_run_snoc sel0)
qed

lemma sel_run_name: "fst (sel_run n ns ds) \<in> ns_Name ` set (n # ns)"
proof -
  obtain sel m c ds' where run: "sel_run n ns ds = (sel, m, c, ds')" by (cases "sel_run n ns ds")
  from sel_run_max(1) [OF this] show ?thesis by (auto simp: run)
qed

lemma selectNode_name: "selectNode nsl ds = Inr name \<Longrightarrow> name \<in> ns_Name ` set nsl"
  by (cases nsl) (use sel_run_name in \<open>auto simp: selectNode_run, simp add: selectNode_def\<close>)

lemma uniform_tie:
  assumes run: "arg_run n ns = (m, c, as)" and y: "ns_Score y = m" "ns_Name y \<notin> ns_Name ` set (n # ns)"
    and K: "name \<noteq> ns_Name y \<Longrightarrow>
      c * card {ds \<in> draws_of as. fst (sel_run n ns ds) = name} = card (draws_of as)"
  shows "(c + 1) * card {ds \<in> draws_of (as @ [c + 1]). fst (sel_run n (ns @ [y]) ds) = name} =
    card (draws_of (as @ [c + 1]))"
proof -
  let ?K = "{ds \<in> draws_of as. fst (sel_run n ns ds) = name}"
  have "{(ds, d). ds \<in> draws_of as \<and> d < c + 1 \<and> fst (sel_run n (ns @ [y]) (ds @ [d])) = name} =
      (if name = ns_Name y then draws_of as \<times> {0} else ?K \<times> {1..<c + 1})"
    using y sel_run_name [of n ns] by (auto simp: sel_run_snoc_fst(2) [OF run] split: if_splits) metis+
  then have "card {ds \<in> draws_of (as @ [c + 1]). fst (sel_run n (ns @ [y]) ds) = name} =
      (if name = ns_Name y then card (draws_of as) else card ?K * c)"
    by (simp add: card_snoc card_cartesian_product)
  then show ?thesis
    using K by (cases "name = ns_Name y") (auto simp: card_draws_snoc algebra_simps)
qed

lemma uniform_run:
  assumes "distinct (map ns_Name (n # ns))" and "arg_run n ns = (m, c, as)"
    and "x \<in> set (n # ns)" and "ns_Score x = m"
  shows "c * card {ds \<in> draws_of as. fst (sel_run n ns ds) = ns_Name x} = card (draws_of as)"
  using assms
proof (induction ns arbitrary: m c as x rule: rev_induct)
  case Nil
  then have "{ds \<in> draws_of as. fst (sel_run n [] ds) = ns_Name x} = draws_of as"
    by (auto simp: sel_run_def)
  with Nil show ?case by (auto simp: arg_run_Nil)
next
  case (snoc y ns)
  obtain m' c' as' where run: "arg_run n ns = (m', c', as')" by (cases "arg_run n ns")
  have dist: "distinct (map ns_Name (n # ns))" "ns_Name y \<notin> ns_Name ` set (n # ns)"
    using snoc.prems(1) by auto
  note IH = snoc.IH [OF dist(1) run]
  have x: "x = y \<or> x \<in> set (n # ns)" using snoc.prems(3) by auto
  consider "sint m' < sint (ns_Score y)" | "\<not> sint m' < sint (ns_Score y)" "ns_Score y = m'"
    | "\<not> sint m' < sint (ns_Score y)" "ns_Score y \<noteq> m'" by blast
  then show ?case
  proof cases
    case 1
    with snoc.prems run have r: "m = ns_Score y" "c = 1" "as = as'" by (auto simp: arg_run_snoc)
    have "x = y" using x snoc.prems(4) r 1 arg_run_max(1) [OF run] by fastforce
    then have "{ds \<in> draws_of as. fst (sel_run n (ns @ [y]) ds) = ns_Name x} = draws_of as"
      using sel_run_snoc_fst(1) [OF run _ 1] r by auto
    then show ?thesis by (simp add: r)
  next
    case 2
    with snoc.prems run have r: "m = m'" "c = c' + 1" "as = as' @ [c' + 1]" by (auto simp: arg_run_snoc)
    have "c' * card {ds \<in> draws_of as'. fst (sel_run n ns ds) = ns_Name x} = card (draws_of as')"
      if "ns_Name x \<noteq> ns_Name y"
      using IH [of x] x that snoc.prems(4) r by auto
    from uniform_tie [OF run 2(2) dist(2) this] show ?thesis by (simp add: r)
  next
    case 3
    with snoc.prems run have r: "m = m'" "c = c'" "as = as'" by (auto simp: arg_run_snoc)
    then have "x \<in> set (n # ns)" using x 3 snoc.prems(4) by auto
    moreover have "{ds \<in> draws_of as'. fst (sel_run n (ns @ [y]) ds) = ns_Name x} =
        {ds \<in> draws_of as'. fst (sel_run n ns ds) = ns_Name x}"
      using sel_run_snoc_fst(3) [OF run _ 3] by auto
    ultimately show ?thesis using IH [of x] snoc.prems(4) r by simp
  qed
qed

text \<open>
  Among distinct nodes of maximal score the selection is uniform: if there are \<open>k\<close> of them,
  each is selected by one \<open>k\<close>-th of the sequences of results that the calls of the random
  number generator can have.
\<close>

theorem selectNode_uniform:
  assumes "distinct (map ns_Name nsl)" and "x \<in> set nsl"
    and "\<forall>y \<in> set nsl. sint (ns_Score y) \<le> sint (ns_Score x)"
  shows "length (filter (\<lambda>y. ns_Score y = ns_Score x) nsl) *
      card {ds \<in> draws_of (intn_args nsl). selectNode nsl ds = Inr (ns_Name x)} =
    card (draws_of (intn_args nsl))"
proof -
  obtain n ns where nsl: "nsl = n # ns" using assms(2) by (cases nsl) auto
  obtain m c as where run: "arg_run n ns = (m, c, as)" by (cases "arg_run n ns")
  have "filter (\<lambda>y. ns_Score y = m) (n # ns) \<noteq> []"
    using arg_run_pos [OF run] arg_run_max(2) [OF run] by auto
  then obtain y where "y \<in> set nsl" "ns_Score y = m"
    unfolding nsl filter_eq_nil_iff by blast
  then have "sint (ns_Score x) = sint m"
    using assms arg_run_max(1) [OF run] unfolding nsl by (meson order_antisym)
  then have x: "ns_Score x = m" by (simp add: signed_word_eqI)
  from uniform_run [OF _ run _ x] assms show ?thesis
    by (simp add: nsl selectNode_run run x arg_run_max(2) [OF run])
qed


definition ex_scores :: "NodeScore list" where
  "ex_scores = [\<lparr>ns_Name = ''a'', ns_Score = 7\<rparr>, \<lparr>ns_Name = ''b'', ns_Score = 7\<rparr>,
     \<lparr>ns_Name = ''low'', ns_Score = - 1\<rparr>, \<lparr>ns_Name = ''c'', ns_Score = 7\<rparr>]"

theorem selectNode_uniform_witness:
  "intn_args ex_scores = [2, 3] \<and>
   3 * card {ds \<in> draws_of [2, 3]. selectNode ex_scores ds = Inr ''b''} = card (draws_of [2, 3])"
proof -
  have args: "intn_args ex_scores = [2, 3]"
    by (simp add: ex_scores_def arg_run_def)
  have "\<forall>y \<in> set ex_scores. sint (ns_Score y) \<le> sint (ns_Score \<lparr>ns_Name = ''b'', ns_Score = 7\<rparr>)"
    by (simp add: ex_scores_def)
  moreover have "distinct (map ns_Name ex_scores)" "\<lparr>ns_Name = ''b'', ns_Score = 7\<rparr> \<in> set ex_scores"
    by (simp_all add: ex_scores_def)
  ultimately show ?thesis
    using selectNode_uniform [of ex_scores "\<lparr>ns_Name = ''b'', ns_Score = 7\<rparr>"] args
    by (simp add: ex_scores_def)
qed

end
