(* ===== verification/Decimal.thy ===== *)
theory Decimal
  imports Prelude
begin

text \<open>
  Decimal printing and reading, shared by the plan names, the durations of labels and
  configurations, and the command lines: the digits that \<^verbatim>\<open>%d\<close> prints, their value, and how
  many there are.
\<close>

definition digit_val :: "char \<Rightarrow> nat" where
  "digit_val c = of_char c - 48"

definition undecimal :: "string \<Rightarrow> nat" where
  "undecimal s = foldl (\<lambda>n c. 10 * n + digit_val c) 0 s"

lemma of_char_digit: "d < 10 \<Longrightarrow> of_char (digit_char d) = (48 + d :: nat)"
  by (simp add: digit_char_def)

lemma digit_val_digit: "d < 10 \<Longrightarrow> digit_val (digit_char d) = d"
  by (simp add: digit_val_def of_char_digit)

lemma undecimal_snoc: "undecimal (s @ [c]) = 10 * undecimal s + digit_val c"
  by (simp add: undecimal_def)

lemma undecimal_sprint: "undecimal (sprint_nat n) = n"
proof (induction n rule: sprint_nat.induct)
  case (1 n)
  show ?case
  proof (cases "n < 10")
    case True
    then show ?thesis
      by (simp add: sprint_nat.simps [of n] undecimal_def digit_val_digit)
  next
    case False
    with "1.IH" show ?thesis
      by (simp add: sprint_nat.simps [of n] undecimal_snoc digit_val_digit)
  qed
qed

lemma sprint_nonempty [simp]: "sprint_nat n \<noteq> []"
  by (subst sprint_nat.simps) simp

lemma sprint_inject: "sprint_nat m = sprint_nat n \<longleftrightarrow> m = n"
  by (metis undecimal_sprint)

definition digits :: "char set" where
  "digits = digit_char ` {..<10}"

lemma sprint_digits: "set (sprint_nat n) \<subseteq> digits"
proof (induction n rule: sprint_nat.induct)
  case (1 n)
  then show ?case
    by (subst sprint_nat.simps) (auto simp: digits_def)
qed

lemma length_sprint: "n < 10 ^ k \<Longrightarrow> 0 < k \<Longrightarrow> length (sprint_nat n) \<le> k"
proof (induction k arbitrary: n)
  case 0
  then show ?case by simp
next
  case (Suc k)
  show ?case
  proof (cases "n < 10")
    case True
    then show ?thesis by (simp add: sprint_nat.simps [of n])
  next
    case False
    with Suc.prems have "n div 10 < 10 ^ k" and "0 < k"
      by (auto simp: div_less_iff_less_mult mult.commute intro: gr0I)
    with Suc.IH have "length (sprint_nat (n div 10)) \<le> k" by blast
    with False show ?thesis by (simp add: sprint_nat.simps [of n])
  qed
qed

end
