(* ===== verification/Names.thy ===== *)
theory Names
  imports Decimal
begin

text \<open>
  The name under which a pod set's schedule plan is stored: \<^verbatim>\<open>getName\<close> of
  \<^verbatim>\<open>internal/pkg/client/utils.go\<close>, with the standard library's FNV-1a hash and
  decimal printing and the vendored \<^verbatim>\<open>SafeEncodeString\<close> that it calls. The theorems show
  when two pod sets share a name, that within a namespace they never do, and how long a
  name can be.
\<close>

unbundle bit_operations_syntax

section \<open>The hash and the encoding\<close>

text \<open>\<^verbatim>\<open>hash/fnv\<close>: the offset basis, the prime, and \<^verbatim>\<open>Write\<close> over bytes.\<close>

definition fnv_offset32 :: "32 word" where
  "fnv_offset32 = 2166136261"

definition fnv32a_write :: "32 word \<Rightarrow> string \<Rightarrow> 32 word" where
  "fnv32a_write h bs = foldl (\<lambda>h c. (h XOR of_char c) * 16777619) h bs"

definition alphanums :: string where
  "alphanums = ''bcdfghjklmnpqrstvwxz2456789''"

text \<open>
  \<^verbatim>\<open>SafeEncodeString\<close> ranges over runes; the program calls it on decimal digits, where runes
  and bytes are the same.
\<close>

definition SafeEncodeString :: "string \<Rightarrow> string" where
  "SafeEncodeString s = map (\<lambda>b. alphanums ! (of_char b mod length alphanums)) s"

definition getName :: "string \<Rightarrow> string \<Rightarrow> string" where
  "getName namespace podset =
     (let hash = fnv32a_write fnv_offset32 namespace;
          hash = fnv32a_write hash podset
      in podset @ ''-'' @ SafeEncodeString (sprint_nat (unat hash)))"

section \<open>The encoding is injective on digits\<close>

definition encode_char :: "char \<Rightarrow> char" where
  "encode_char b = alphanums ! (of_char b mod length alphanums)"

lemma SafeEncodeString_map: "SafeEncodeString s = map encode_char s"
  by (simp add: SafeEncodeString_def encode_char_def)

lemma length_alphanums: "length alphanums = 27"
  by (simp add: alphanums_def)

lemma distinct_alphanums: "distinct alphanums"
  by (simp add: alphanums_def)

lemma encode_char_digit:
  "d < 10 \<Longrightarrow> encode_char (digit_char d) = alphanums ! ((48 + d) mod 27)"
  by (simp add: encode_char_def of_char_digit length_alphanums)

lemma digit_slot_inj:
  assumes "d < 10" and "e < 10" and "(48 + d) mod 27 = (48 + e) mod (27::nat)"
  shows "d = e"
  using assms by (simp add: mod_if split: if_splits)

lemma encode_char_inj: "inj_on encode_char digits"
proof (rule inj_onI)
  fix a b
  assume "a \<in> digits" and "b \<in> digits" and eq: "encode_char a = encode_char b"
  then obtain d e where d: "a = digit_char d" "d < 10" and e: "b = digit_char e" "e < 10"
    by (auto simp: digits_def)
  from eq have "alphanums ! ((48 + d) mod 27) = alphanums ! ((48 + e) mod 27)"
    by (simp add: d e encode_char_digit)
  then have "(48 + d) mod 27 = (48 + e) mod 27"
    by (subst (asm) nth_eq_iff_index_eq [OF distinct_alphanums])
      (simp_all add: length_alphanums)
  with d e show "a = b" by (auto dest: digit_slot_inj)
qed

lemma SafeEncodeString_inject:
  assumes "set s \<subseteq> digits" and "set t \<subseteq> digits"
  shows "SafeEncodeString s = SafeEncodeString t \<longleftrightarrow> s = t"
proof -
  have "inj_on encode_char (set s \<union> set t)"
    using encode_char_inj assms by (blast intro: inj_on_subset)
  then show ?thesis
    unfolding SafeEncodeString_map by (rule inj_on_map_eq_map)
qed

lemma encode_sprint_inject:
  "SafeEncodeString (sprint_nat m) = SafeEncodeString (sprint_nat n) \<longleftrightarrow> m = n"
  by (simp add: SafeEncodeString_inject sprint_digits sprint_inject)

lemma encode_char_alphanums: "encode_char b \<in> set alphanums"
  unfolding encode_char_def by (rule nth_mem) (simp add: length_alphanums)

lemma no_dash_in_suffix: "CHR ''-'' \<notin> set (SafeEncodeString s)"
proof -
  have "CHR ''-'' \<notin> set alphanums" by (simp add: alphanums_def)
  then show ?thesis
    using encode_char_alphanums by (auto simp: SafeEncodeString_map)
qed

section \<open>Plan names\<close>

definition plan_hash :: "string \<Rightarrow> string \<Rightarrow> 32 word" where
  "plan_hash namespace podset = fnv32a_write fnv_offset32 (namespace @ podset)"

lemma getName_hash:
  "getName namespace podset =
     podset @ ''-'' @ SafeEncodeString (sprint_nat (unat (plan_hash namespace podset)))"
  by (simp add: getName_def plan_hash_def fnv32a_write_def Let_def)

text \<open>
  Two pod sets have the same plan name exactly when they have the same pod-set label and
  the hashes of namespace and label agree. In particular the concatenation of namespace and
  label, which is what the hash is taken over, never makes two different labels collide.
\<close>

theorem getName_eq_iff:
  "getName ns p = getName ns' p' \<longleftrightarrow>
     p = p' \<and> fnv32a_write fnv_offset32 (ns @ p) = fnv32a_write fnv_offset32 (ns' @ p')"
proof
  assume "getName ns p = getName ns' p'"
  then have "p @ CHR ''-'' # SafeEncodeString (sprint_nat (unat (plan_hash ns p))) =
      p' @ CHR ''-'' # SafeEncodeString (sprint_nat (unat (plan_hash ns' p')))"
    by (simp add: getName_hash)
  then have "p = p' \<and> SafeEncodeString (sprint_nat (unat (plan_hash ns p))) =
      SafeEncodeString (sprint_nat (unat (plan_hash ns' p')))"
    by (rule split_at_last) (rule no_dash_in_suffix)+
  then show "p = p' \<and> fnv32a_write fnv_offset32 (ns @ p) = fnv32a_write fnv_offset32 (ns' @ p')"
    by (auto simp: encode_sprint_inject plan_hash_def intro: unsigned_word_eqI)
qed (auto simp: getName_hash plan_hash_def)

lemma getName_inject: "getName ns p = getName ns p' \<longleftrightarrow> p = p'"
  by (auto simp: getName_hash dest: split_at_last [OF _ no_dash_in_suffix no_dash_in_suffix])

text \<open>
  A plan's name is its pod-set label, a dash and one to ten characters, so a label of at
  most 63 characters gives a name of at most 74, within the limit of 253 on object names.
\<close>

theorem getName_length:
  "length podset + 2 \<le> length (getName ns podset) \<and>
   length (getName ns podset) \<le> length podset + 11"
proof -
  let ?h = "unat (plan_hash ns podset)"
  have "?h < 2 ^ 32" using unsigned_less [of "plan_hash ns podset"] by simp
  then have "?h < 10 ^ 10" by simp
  then have "length (sprint_nat ?h) \<le> 10" by (rule length_sprint) simp
  moreover have "Suc 0 \<le> length (sprint_nat ?h)" by (simp add: sprint_nat.simps [of ?h])
  ultimately show ?thesis
    by (simp add: getName_hash SafeEncodeString_map)
qed

end
