(* ===== verification/PlanClient.thy ===== *)
theory PlanClient
  imports Names Kube
begin

text \<open>
  The client of the custom resource \<^verbatim>\<open>SchedulePlan\<close>
  (\<^verbatim>\<open>internal/pkg/client/scheduleplan_client.go\<close>): one plan object per pod set, holding the
  node that is planned for each pod.

  The API server is a parameter, the record \<open>kube\<close> of the calls that the client makes, on an
  abstract server state; \<open>kube_ok\<close> states what the server's documentation promises of them.
  A call that fails may or may not have been applied.
\<close>

section \<open>The API server\<close>

record 's kube =
  kc_Get :: "NamespacedName \<Rightarrow> 's \<Rightarrow> err + SchedulePlan"
  kc_List :: "string \<Rightarrow> labels \<Rightarrow> 's \<Rightarrow> err + SchedulePlan list"
  kc_Create :: "SchedulePlan \<Rightarrow> 's \<Rightarrow> err option \<times> 's"
  kc_Update :: "SchedulePlan \<Rightarrow> 's \<Rightarrow> err option \<times> 's"
  kc_Delete :: "NamespacedName \<Rightarrow> 's \<Rightarrow> err option \<times> 's"

type_synonym plans = "NamespacedName \<rightharpoonup> SchedulePlan"

definition plan_key :: "SchedulePlan \<Rightarrow> NamespacedName" where
  "plan_key p = \<lparr>nn_Namespace = plan_Namespace p, nn_Name = plan_Name p\<rparr>"

text \<open>
  Reading returns the stored object. \<^verbatim>\<open>Create\<close> succeeds only on a free name and
  \<^verbatim>\<open>Update\<close> only on a taken one; a write that succeeds has its effect, and one that fails has
  this effect or none.
\<close>

definition written :: "('s \<Rightarrow> plans) \<Rightarrow> 's \<Rightarrow> err option \<times> 's \<Rightarrow> plans \<Rightarrow> bool" where
  "written plans s r m \<longleftrightarrow>
     (case r of (None, s') \<Rightarrow> plans s' = m | (Some _, s') \<Rightarrow> plans s' \<in> {plans s, m})"

definition kube_ok :: "'s kube \<Rightarrow> ('s \<Rightarrow> plans) \<Rightarrow> bool" where
  "kube_ok kc plans \<longleftrightarrow>
     (\<forall>k s p. kc_Get kc k s = Inr p \<longrightarrow> plans s k = Some p) \<and>
     (\<forall>p s. written plans s (kc_Create kc p s) ((plans s)(plan_key p \<mapsto> p)) \<and>
        (plan_key p \<in> dom (plans s) \<longrightarrow>
           fst (kc_Create kc p s) \<noteq> None \<and> plans (snd (kc_Create kc p s)) = plans s)) \<and>
     (\<forall>p s. written plans s (kc_Update kc p s) ((plans s)(plan_key p \<mapsto> p)) \<and>
        (plan_key p \<notin> dom (plans s) \<longrightarrow>
           fst (kc_Update kc p s) \<noteq> None \<and> plans (snd (kc_Update kc p s)) = plans s)) \<and>
     (\<forall>k s. written plans s (kc_Delete kc k s) ((plans s)(k := None)))"

section \<open>The operations\<close>

definition podset_label :: string where
  "podset_label = ''planner.ciena.io/pod-set''"

definition client_List :: "'s kube \<Rightarrow> string \<Rightarrow> labels \<Rightarrow> 's \<Rightarrow> err + SchedulePlan list" where
  "client_List kc namespace labels s =
     (case kc_List kc namespace labels s of
        Inl e \<Rightarrow> Inl (Wrapped ''error listing planner: '' e)
      | Inr planList \<Rightarrow> Inr planList)"

definition client_Get :: "'s kube \<Rightarrow> string \<Rightarrow> string \<Rightarrow> 's \<Rightarrow> err + SchedulePlan" where
  "client_Get kc namespace podset s =
     (let name = getName namespace podset
      in case kc_Get kc \<lparr>nn_Namespace = namespace, nn_Name = name\<rparr> s of
           Inl e \<Rightarrow> Inl (Wrapped ''error getting planner: '' e)
         | Inr plan \<Rightarrow> Inr plan)"

text \<open>The plan object that both updates create when there is none to read.\<close>

definition new_SchedulePlan :: "string \<Rightarrow> string \<Rightarrow> PlanSpec list \<Rightarrow> SchedulePlan" where
  "new_SchedulePlan namespace podset newPlan =
     \<lparr>plan_Namespace = namespace, plan_Name = getName namespace podset,
      plan_Labels = [(podset_label, podset)], plan_Plan = newPlan\<rparr>"

definition plan_specs :: "(string, string) gomap \<Rightarrow> PlanSpec list" where
  "plan_specs assignments = map (\<lambda>(pod, node). \<lparr>ps_Pod = pod, ps_Node = node\<rparr>) assignments"

text \<open>The loop of \<^verbatim>\<open>Update\<close> over the assignments: what is new, and what the plan has.\<close>

fun split_assignments ::
  "PlanSpec list \<Rightarrow> (string, string) gomap \<Rightarrow> PlanSpec list \<Rightarrow> PlanSpec list \<Rightarrow>
     PlanSpec list \<times> PlanSpec list" where
  "split_assignments plan [] newPlan currentPlan = (newPlan, currentPlan)"
| "split_assignments plan ((pod, node) # assignments) newPlan currentPlan =
     (let planSpec = \<lparr>ps_Pod = pod, ps_Node = node\<rparr>
      in if planSpec \<notin> set plan
         then split_assignments plan assignments (newPlan @ [planSpec]) currentPlan
         else split_assignments plan assignments newPlan (currentPlan @ [planSpec]))"

definition client_Update ::
  "'s kube \<Rightarrow> string \<Rightarrow> string \<Rightarrow> (string, string) gomap \<Rightarrow> 's \<Rightarrow> err option \<times> 's" where
  "client_Update kc namespace podset assignments s =
     (case client_Get kc namespace podset s of
        Inl _ \<Rightarrow>
          (case kc_Create kc (new_SchedulePlan namespace podset (plan_specs assignments)) s of
             (Some e, s') \<Rightarrow> (Some (Wrapped ''error creating plan spec: '' e), s')
           | (None, s') \<Rightarrow> (None, s'))
      | Inr planRef \<Rightarrow>
          (case split_assignments (plan_Plan planRef) assignments [] [] of
             (newPlan, currentPlan) \<Rightarrow>
               if length newPlan = 0 then (None, s)
               else
                 (case kc_Update kc (planRef\<lparr>plan_Plan := currentPlan @ newPlan\<rparr>) s of
                    (Some e, s') \<Rightarrow> (Some (Wrapped ''error updating plan spec: '' e), s')
                  | (None, s') \<Rightarrow> (None, s'))))"

text \<open>The loop of \<^verbatim>\<open>UpdateAssignment\<close> over the plan: what changes, and what stays.\<close>

fun split_plan ::
  "string \<Rightarrow> string \<Rightarrow> PlanSpec list \<Rightarrow> PlanSpec list \<Rightarrow> PlanSpec list \<Rightarrow>
     PlanSpec list \<times> PlanSpec list" where
  "split_plan podName nodeName [] newPlan currentPlan = (newPlan, currentPlan)"
| "split_plan podName nodeName (plan # plans) newPlan currentPlan =
     (if ps_Pod plan = podName \<and> ps_Node plan \<noteq> nodeName
      then split_plan podName nodeName plans
             (newPlan @ [\<lparr>ps_Pod = podName, ps_Node = nodeName\<rparr>]) currentPlan
      else split_plan podName nodeName plans newPlan (currentPlan @ [plan]))"

definition client_UpdateAssignment ::
  "'s kube \<Rightarrow> string \<Rightarrow> string \<Rightarrow> string \<Rightarrow> string \<Rightarrow> 's \<Rightarrow> err option \<times> 's" where
  "client_UpdateAssignment kc namespace podset podName nodeName s =
     (case client_Get kc namespace podset s of
        Inl _ \<Rightarrow>
          (case kc_Create kc
             (new_SchedulePlan namespace podset [\<lparr>ps_Pod = podName, ps_Node = nodeName\<rparr>]) s of
             (Some e, s') \<Rightarrow>
               (Some (Wrapped (''error creating plan spec for pod '' @ podName @ '', node '' @
                  nodeName @ '': '') e), s')
           | (None, s') \<Rightarrow> (None, s'))
      | Inr planRef \<Rightarrow>
          (case split_plan podName nodeName (plan_Plan planRef) [] [] of
             (newPlan, currentPlan) \<Rightarrow>
               if length newPlan = 0 then (None, s)
               else
                 (case kc_Update kc (planRef\<lparr>plan_Plan := currentPlan @ newPlan\<rparr>) s of
                    (Some e, s') \<Rightarrow>
                      (Some (Wrapped (''error updating plan spec for pod '' @ podName @ '', node '' @
                         nodeName @ '': '') e), s')
                  | (None, s') \<Rightarrow> (None, s'))))"

text \<open>The loop of \<^verbatim>\<open>Delete\<close>: whether the pod occurs, and the plan without it.\<close>

fun remove_pod :: "string \<Rightarrow> PlanSpec list \<Rightarrow> bool \<Rightarrow> PlanSpec list \<Rightarrow> bool \<times> PlanSpec list" where
  "remove_pod podName [] found newPlan = (found, newPlan)"
| "remove_pod podName (plan # plans) found newPlan =
     (if ps_Pod plan = podName then remove_pod podName plans True newPlan
      else remove_pod podName plans found (newPlan @ [plan]))"

text \<open>The boolean of \<^verbatim>\<open>Delete\<close> says that a write failed, so that the caller can retry.\<close>

definition client_Delete ::
  "'s kube \<Rightarrow> string \<Rightarrow> string \<Rightarrow> string \<Rightarrow> 's \<Rightarrow> (bool \<times> err option) \<times> 's" where
  "client_Delete kc podName namespace podset s =
     (case client_Get kc namespace podset s of
        Inl e \<Rightarrow> ((False, Some e), s)
      | Inr planRef \<Rightarrow>
          (case remove_pod podName (plan_Plan planRef) False [] of
             (found, newPlan) \<Rightarrow>
               if \<not> found then ((False, None), s)
               else if length newPlan = 0 then
                 (case kc_Delete kc (plan_key planRef) s of
                    (Some e, s') \<Rightarrow> ((True, Some (Wrapped ''error deleting plan: '' e)), s')
                  | (None, s') \<Rightarrow> ((False, None), s'))
               else
                 (case kc_Update kc (planRef\<lparr>plan_Plan := newPlan\<rparr>) s of
                    (Some e, s') \<Rightarrow> ((True, Some (Wrapped ''error updating plan spec: '' e)), s')
                  | (None, s') \<Rightarrow> ((False, None), s'))))"

fun find_pod :: "string \<Rightarrow> PlanSpec list \<Rightarrow> PlanSpec option" where
  "find_pod podName [] = None"
| "find_pod podName (plan # plans) =
     (if ps_Pod plan = podName then Some plan else find_pod podName plans)"

definition client_CheckIfPodPresent ::
  "'s kube \<Rightarrow> string \<Rightarrow> string \<Rightarrow> string \<Rightarrow> 's \<Rightarrow> err + PlanSpec option" where
  "client_CheckIfPodPresent kc namespace podset podName s =
     (case client_Get kc namespace podset s of
        Inl e \<Rightarrow> Inl e
      | Inr plan \<Rightarrow> Inr (find_pod podName (plan_Plan plan)))"

section \<open>Plans as maps\<close>

text \<open>
  What the list operations of the client promise, as a map from pods to nodes. \<open>replace\<close> is
  the new contents on an update, \<open>reassign\<close> that of the update of one pod, \<open>drop\<close> that of a
  removal.
\<close>

locale plan_entries =
  fixes find_node :: "'p \<Rightarrow> string \<Rightarrow> string option"
    and ok :: "'p \<Rightarrow> bool"
    and replace :: "'p \<Rightarrow> (string, string) gomap \<Rightarrow> 'p"
    and reassign :: "string \<Rightarrow> string \<Rightarrow> 'p \<Rightarrow> 'p"
    and drop_pod :: "string \<Rightarrow> 'p \<Rightarrow> 'p"
  assumes find_replace: "distinct (map fst as) \<Longrightarrow> find_node (replace p as) = map_of as"
    and find_reassign: "ok p \<Longrightarrow> find_node (reassign pod node p) =
      (if find_node p pod = None then find_node p else (find_node p)(pod \<mapsto> node))"
    and find_drop: "find_node (drop_pod pod p) = (find_node p)(pod := None)"
    and ok_replace: "distinct (map fst as) \<Longrightarrow> ok (replace p as)"
    and ok_reassign: "ok p \<Longrightarrow> ok (reassign pod node p)"
    and ok_drop: "ok p \<Longrightarrow> ok (drop_pod pod p)"
begin

lemma drop_all: "find_node (fold drop_pod pods p) = (find_node p) |` (- set pods)"
proof (induction pods arbitrary: p)
  case (Cons pod pods)
  then show ?case by (auto simp: find_drop restrict_map_def fun_eq_iff)
qed (simp add: restrict_map_def)

lemma reassign_keeps_pods: "ok p \<Longrightarrow> dom (find_node (reassign pod node p)) = dom (find_node p)"
  by (auto simp: find_reassign)

lemma reassign_last_wins:
  "ok p \<Longrightarrow> find_node (reassign pod n' (reassign pod n p)) = find_node (reassign pod n' p)"
  by (auto simp: find_reassign ok_reassign)

lemma reassign_commutes:
  assumes "ok p" and "pod \<noteq> pod'"
  shows "find_node (reassign pod n (reassign pod' n' p)) = find_node (reassign pod' n' (reassign pod n p))"
  using assms by (auto simp: find_reassign ok_reassign fun_upd_twist)

end


lemma split_assignments_filter:
  "split_assignments plan as n c =
     (n @ filter (\<lambda>e. e \<notin> set plan) (plan_specs as), c @ filter (\<lambda>e. e \<in> set plan) (plan_specs as))"
  by (induction plan as n c rule: split_assignments.induct) (simp_all add: plan_specs_def Let_def)

lemma split_plan_filter:
  "split_plan pod node plan n c =
     (n @ map (\<lambda>_. \<lparr>ps_Pod = pod, ps_Node = node\<rparr>)
            (filter (\<lambda>e. ps_Pod e = pod \<and> ps_Node e \<noteq> node) plan),
      c @ filter (\<lambda>e. \<not> (ps_Pod e = pod \<and> ps_Node e \<noteq> node)) plan)"
  by (induction pod node plan n c rule: split_plan.induct) simp_all

lemma remove_pod_filter:
  "remove_pod pod plan f n =
     (f \<or> pod \<in> ps_Pod ` set plan, n @ filter (\<lambda>e. ps_Pod e \<noteq> pod) plan)"
  by (induction pod plan f n rule: remove_pod.induct) auto

definition entry_node :: "PlanSpec list \<Rightarrow> string \<Rightarrow> string option" where
  "entry_node plan pod = map_option ps_Node (find_pod pod plan)"

definition entries_ok :: "PlanSpec list \<Rightarrow> bool" where
  "entries_ok plan \<longleftrightarrow> distinct (map ps_Pod plan)"

definition entries_replace :: "PlanSpec list \<Rightarrow> (string, string) gomap \<Rightarrow> PlanSpec list" where
  "entries_replace plan as = (case split_assignments plan as [] [] of (n, c) \<Rightarrow> c @ n)"

definition entries_reassign :: "string \<Rightarrow> string \<Rightarrow> PlanSpec list \<Rightarrow> PlanSpec list" where
  "entries_reassign pod node plan = (case split_plan pod node plan [] [] of (n, c) \<Rightarrow> c @ n)"

definition entries_drop :: "string \<Rightarrow> PlanSpec list \<Rightarrow> PlanSpec list" where
  "entries_drop pod plan = snd (remove_pod pod plan False [])"

lemma find_pod_None: "find_pod pod plan = None \<longleftrightarrow> pod \<notin> ps_Pod ` set plan"
  by (induction plan) auto

lemma entry_node_None [simp]: "entry_node plan pod = None \<longleftrightarrow> pod \<notin> ps_Pod ` set plan"
  by (simp add: entry_node_def find_pod_None)

lemma entry_node_Some:
  "entries_ok plan \<Longrightarrow> entry_node plan pod = Some node \<longleftrightarrow> \<lparr>ps_Pod = pod, ps_Node = node\<rparr> \<in> set plan"
proof (induction plan)
  case (Cons e plan)
  then show ?case by (cases e) (force simp: entry_node_def entries_ok_def)
qed (simp add: entry_node_def)

lemma entry_node_eqI:
  assumes "entries_ok plan" and "\<And>pod node. \<lparr>ps_Pod = pod, ps_Node = node\<rparr> \<in> set plan \<longleftrightarrow> m pod = Some node"
  shows "entry_node plan = m"
proof
  show "entry_node plan pod = m pod" for pod
    using assms entry_node_Some [of plan pod] by (metis not_Some_eq)
qed

lemma entry_node_mono:
  assumes "entries_ok plan'" and "entries_ok plan" and "set plan \<subseteq> set plan'"
  shows "entry_node plan \<subseteq>\<^sub>m entry_node plan'"
  unfolding map_le_def
proof
  fix pod
  assume "pod \<in> dom (entry_node plan)"
  then obtain node where "entry_node plan pod = Some node" by blast
  with assms show "entry_node plan pod = entry_node plan' pod"
    by (metis entry_node_Some subsetD)
qed

lemma entries_ok_mset: "entries_ok plan \<Longrightarrow> mset (map ps_Pod plan') \<subseteq># mset (map ps_Pod plan) \<Longrightarrow> entries_ok plan'"
  unfolding entries_ok_def by (metis distinct_append mset_append mset_eq_imp_distinct_iff
      subset_mset.le_iff_add ex_mset)

lemma mset_entries_replace: "mset (entries_replace plan as) = mset (plan_specs as)"
  unfolding entries_replace_def split_assignments_filter
  by (simp add: mset_filter flip: multiset_partition)

lemma entries_ok_specs: "distinct (map fst as) \<Longrightarrow> entries_ok (plan_specs as)"
  by (simp add: entries_ok_def plan_specs_def comp_def case_prod_beta)

lemma entry_node_specs:
  assumes "distinct (map fst as)"
  shows "entry_node (plan_specs as) = map_of as"
  by (rule entry_node_eqI [OF entries_ok_specs [OF assms]])
    (use assms in \<open>force simp: plan_specs_def\<close>)

lemma entry_node_cong:
  assumes "entries_ok plan" and "mset plan' = mset plan"
  shows "entry_node plan' = entry_node plan" and "entries_ok plan'"
proof -
  show "entries_ok plan'"
    using assms by (metis entries_ok_mset mset_map subset_mset.order_refl)
  then show "entry_node plan' = entry_node plan"
    using assms by (intro entry_node_eqI) (auto simp: entry_node_Some dest: mset_eq_setD)
qed

lemma entries_reassign_unfold:
  "entries_reassign pod node plan =
     filter (\<lambda>e. \<not> (ps_Pod e = pod \<and> ps_Node e \<noteq> node)) plan @
     map (\<lambda>_. \<lparr>ps_Pod = pod, ps_Node = node\<rparr>) (filter (\<lambda>e. ps_Pod e = pod \<and> ps_Node e \<noteq> node) plan)"
  by (simp add: entries_reassign_def split_plan_filter)

lemma entries_ok_reassign: "entries_ok plan \<Longrightarrow> entries_ok (entries_reassign pod node plan)"
proof -
  have "mset (map ps_Pod (entries_reassign pod node plan)) = mset (map ps_Pod plan)"
    unfolding entries_reassign_unfold by (induction plan) auto
  then show "entries_ok plan \<Longrightarrow> ?thesis" by (auto intro: entries_ok_mset)
qed

lemma entries_reassign_mem:
  "\<lparr>ps_Pod = p, ps_Node = n\<rparr> \<in> set (entries_reassign pod node plan) \<longleftrightarrow>
     (if p = pod then n = node \<and> pod \<in> ps_Pod ` set plan else \<lparr>ps_Pod = p, ps_Node = n\<rparr> \<in> set plan)"
proof (cases "p = pod")
  case True
  have "\<lparr>ps_Pod = ps_Pod e, ps_Node = node\<rparr> \<in> set plan" if "e \<in> set plan" "ps_Node e = node" for e
    using that by (cases e rule: PlanSpec.cases) simp
  with True show ?thesis by (auto simp: entries_reassign_unfold image_iff) force
next
  case False
  then show ?thesis by (auto simp: entries_reassign_unfold)
qed

lemma entry_node_reassign:
  assumes "entries_ok plan"
  shows "entry_node (entries_reassign pod node plan) =
    (if entry_node plan pod = None then entry_node plan else (entry_node plan)(pod \<mapsto> node))"
  by (rule entry_node_eqI [OF entries_ok_reassign [OF assms]])
    (auto simp: entries_reassign_mem entry_node_Some [OF assms] image_iff)

lemma entries_drop_filter: "entries_drop pod plan = filter (\<lambda>e. ps_Pod e \<noteq> pod) plan"
  by (simp add: entries_drop_def remove_pod_filter)

interpretation entries: plan_entries entry_node entries_ok entries_replace entries_reassign entries_drop
proof
  fix as :: "(string, string) gomap" and p
  assume as: "distinct (map fst as)"
  show "entry_node (entries_replace p as) = map_of as" and "entries_ok (entries_replace p as)"
    using entry_node_cong [OF entries_ok_specs [OF as] mset_entries_replace]
    by (simp_all add: entry_node_specs [OF as])
next
  fix pod p
  show "entry_node (entries_drop pod p) = (entry_node p)(pod := None)"
    unfolding entries_drop_filter by (induction p) (auto simp: entry_node_def fun_eq_iff)
  assume "entries_ok p"
  then show "entries_ok (entries_drop pod p)"
    unfolding entries_drop_filter entries_ok_def by (induction p) auto
qed (simp_all add: entries_ok_reassign entry_node_reassign)


section \<open>The stored plans\<close>

text \<open>
  The abstract view: for a namespace and a pod set, the node that is planned for each pod.
  \<open>plans_wf\<close>: every object is stored under its own key and plans each pod at most once.
\<close>

abbreviation podset_key :: "string \<Rightarrow> string \<Rightarrow> NamespacedName" where
  "podset_key namespace podset \<equiv>
     \<lparr>nn_Namespace = namespace, nn_Name = getName namespace podset\<rparr>"

definition planned :: "plans \<Rightarrow> string \<Rightarrow> string \<Rightarrow> string \<Rightarrow> string option" where
  "planned m namespace podset =
     (case m (podset_key namespace podset) of
        None \<Rightarrow> (\<lambda>_. None)
      | Some p \<Rightarrow> entry_node (plan_Plan p))"

definition plans_wf :: "plans \<Rightarrow> bool" where
  "plans_wf m \<longleftrightarrow> (\<forall>k p. m k = Some p \<longrightarrow> plan_key p = k \<and> entries_ok (plan_Plan p))"

lemma plans_wfD:
  assumes "plans_wf m" and "m k = Some p"
  shows "plan_key p = k" and "entries_ok (plan_Plan p)"
  using assms by (auto simp: plans_wf_def)

lemma plan_key_new [simp]: "plan_key (new_SchedulePlan ns podset es) = podset_key ns podset"
  by (simp add: plan_key_def new_SchedulePlan_def)

lemma plan_key_update [simp]: "plan_key (p\<lparr>plan_Plan := es\<rparr>) = plan_key p"
  by (simp add: plan_key_def)

lemma plan_Plan_new [simp]: "plan_Plan (new_SchedulePlan ns podset es) = es"
  by (simp add: new_SchedulePlan_def)

lemma plans_wf_upd:
  "plans_wf m \<Longrightarrow> plan_key p = k \<Longrightarrow> entries_ok (plan_Plan p) \<Longrightarrow> plans_wf (m(k \<mapsto> p))"
  by (simp add: plans_wf_def)

lemma plans_wf_del: "plans_wf m \<Longrightarrow> plans_wf (m(k := None))"
  by (simp add: plans_wf_def)

lemma planned_upd [simp]:
  "planned (m(podset_key ns podset \<mapsto> p)) ns podset = entry_node (plan_Plan p)"
  "planned (m(podset_key ns podset := None)) ns podset = (\<lambda>_. None)"
  by (simp_all add: planned_def)

lemma planned_Some: "m (podset_key ns podset) = Some p \<Longrightarrow> planned m ns podset = entry_node (plan_Plan p)"
  by (simp add: planned_def)

text \<open>
  What one write of the client can do to the stored plans: it stores or removes the one object
  of its pod set, or, if it fails, does nothing.
\<close>

definition wrote :: "NamespacedName \<Rightarrow> plans \<Rightarrow> err option \<Rightarrow> SchedulePlan option \<Rightarrow> plans \<Rightarrow> bool" where
  "wrote k m r target m' \<longleftrightarrow> m' = m(k := target) \<or> r \<noteq> None \<and> m' = m"

lemma written_wrote:
  "written plans s res ((plans s)(k := t)) \<Longrightarrow> wrote k (plans s) (fst res) t (plans (snd res))"
  by (auto simp: written_def wrote_def split: option.splits prod.splits)

lemma kube_Get: "kube_ok kc plans \<Longrightarrow> kc_Get kc k s = Inr p \<Longrightarrow> plans s k = Some p"
  by (simp add: kube_ok_def)

lemma kube_Create:
  assumes "kube_ok kc plans" and "kc_Create kc p s = (r, s')"
  shows "wrote (plan_key p) (plans s) r (Some p) (plans s')"
    and "r = None \<Longrightarrow> plans s (plan_key p) = None"
proof -
  have "written plans s (kc_Create kc p s) ((plans s)(plan_key p \<mapsto> p))"
    using assms(1) unfolding kube_ok_def by blast
  from written_wrote [OF this] show "wrote (plan_key p) (plans s) r (Some p) (plans s')"
    by (simp add: assms(2))
  have "plan_key p \<in> dom (plans s) \<longrightarrow> fst (kc_Create kc p s) \<noteq> None"
    using assms(1) unfolding kube_ok_def by blast
  then show "r = None \<Longrightarrow> plans s (plan_key p) = None" by (simp add: assms(2) domIff)
qed

lemma kube_Update:
  assumes "kube_ok kc plans" and "kc_Update kc p s = (r, s')"
  shows "wrote (plan_key p) (plans s) r (Some p) (plans s')"
proof -
  have "written plans s (kc_Update kc p s) ((plans s)(plan_key p \<mapsto> p))"
    using assms(1) unfolding kube_ok_def by blast
  from written_wrote [OF this] show ?thesis by (simp add: assms(2))
qed

lemma kube_Delete:
  assumes "kube_ok kc plans" and "kc_Delete kc k s = (r, s')"
  shows "wrote k (plans s) r None (plans s')"
proof -
  have "written plans s (kc_Delete kc k s) ((plans s)(k := None))"
    using assms(1) unfolding kube_ok_def by blast
  from written_wrote [OF this] show ?thesis by (simp add: assms(2))
qed

lemma client_Get_Inr:
  assumes "kube_ok kc plans" and "client_Get kc ns podset s = Inr p"
  shows "plans s (podset_key ns podset) = Some p"
  using assms by (auto simp: client_Get_def Let_def dest: kube_Get split: sum.splits)

lemma wrote_wf:
  assumes "wrote k m r t m'" and "plans_wf m"
    and "\<And>p. t = Some p \<Longrightarrow> plan_key p = k \<and> entries_ok (plan_Plan p)"
  shows "plans_wf m'"
  using assms by (cases t) (auto simp: wrote_def plans_wf_def split: if_splits)

lemma wrote_other:
  assumes "wrote (podset_key ns podset) m r t m'" and "(ns', podset') \<noteq> (ns, podset)"
  shows "planned m' ns' podset' = planned m ns' podset'"
  using assms by (auto simp: wrote_def planned_def getName_inject)

text \<open>The writes of each operation.\<close>

lemma Update_cases:
  assumes kube: "kube_ok kc plans" and wf: "plans_wf (plans s)"
    and run: "client_Update kc ns podset as s = (r, s')"
  obtains (unchanged) p where "client_Get kc ns podset s = Inr p"
      "set (plan_specs as) \<subseteq> set (plan_Plan p)" "r = None" "s' = s"
  | (writes) r' t where "\<And>p. client_Get kc ns podset s = Inr p \<Longrightarrow> \<not> set (plan_specs as) \<subseteq> set (plan_Plan p)"
      "wrote (podset_key ns podset) (plans s) r' (Some t) (plans s')" "r' = None \<longleftrightarrow> r = None"
      "plan_key t = podset_key ns podset" "mset (plan_Plan t) = mset (plan_specs as)"
proof (cases "client_Get kc ns podset s")
  case (Inl e)
  let ?t = "new_SchedulePlan ns podset (plan_specs as)"
  obtain r' where r': "kc_Create kc ?t s = (r', s')" "r' = None \<longleftrightarrow> r = None"
    using run Inl by (auto simp: client_Update_def split: prod.splits option.splits)
  from kube_Create(1) [OF kube r'(1)] have "wrote (podset_key ns podset) (plans s) r' (Some ?t) (plans s')"
    by simp
  from writes [OF _ this r'(2)] Inl show thesis by simp
next
  case (Inr p)
  have key: "plan_key p = podset_key ns podset"
    using plans_wfD(1) [OF wf] client_Get_Inr [OF kube Inr] by blast
  let ?es = "entries_replace (plan_Plan p) as"
  have es: "filter (\<lambda>e. e \<in> set (plan_Plan p)) (plan_specs as) @
      filter (\<lambda>e. e \<notin> set (plan_Plan p)) (plan_specs as) = ?es"
    by (simp add: entries_replace_def split_assignments_filter)
  show thesis
  proof (cases "set (plan_specs as) \<subseteq> set (plan_Plan p)")
    case True
    with run Inr show ?thesis
      by (intro unchanged)
        (auto simp: client_Update_def split_assignments_filter filter_eq_nil_iff subset_iff split: if_splits)
  next
    case False
    then have "filter (\<lambda>e. e \<notin> set (plan_Plan p)) (plan_specs as) \<noteq> []"
      by (auto simp: filter_eq_nil_iff)
    with run Inr obtain r' where r': "kc_Update kc (p\<lparr>plan_Plan := ?es\<rparr>) s = (r', s')" "r' = None \<longleftrightarrow> r = None"
      by (auto simp: client_Update_def split_assignments_filter es split: prod.splits option.splits)
    show ?thesis
      using writes [OF _ _ r'(2), of "p\<lparr>plan_Plan := ?es\<rparr>"] kube_Update [OF kube r'(1)] Inr key False
        mset_entries_replace by auto
  qed
qed

lemma UpdateAssignment_cases:
  assumes kube: "kube_ok kc plans" and wf: "plans_wf (plans s)"
    and run: "client_UpdateAssignment kc ns podset pod node s = (r, s')"
  obtains (creates) r' t e where "client_Get kc ns podset s = Inl e"
      "wrote (podset_key ns podset) (plans s) r' (Some t) (plans s')" "r' = None \<longleftrightarrow> r = None"
      "r = None \<Longrightarrow> plans s (podset_key ns podset) = None"
      "plan_key t = podset_key ns podset" "plan_Plan t = plan_specs [(pod, node)]"
  | (unchanged) p where "client_Get kc ns podset s = Inr p" "r = None" "s' = s"
      "entry_node (plan_Plan p) pod \<in> {None, Some node}"
  | (writes) r' p t where "client_Get kc ns podset s = Inr p"
      "wrote (podset_key ns podset) (plans s) r' (Some t) (plans s')" "r' = None \<longleftrightarrow> r = None"
      "plan_key t = podset_key ns podset" "plan_Plan t = entries_reassign pod node (plan_Plan p)"
      "entry_node (plan_Plan p) pod \<noteq> None"
proof (cases "client_Get kc ns podset s")
  case (Inl e)
  let ?t = "new_SchedulePlan ns podset [\<lparr>ps_Pod = pod, ps_Node = node\<rparr>]"
  obtain r' where r': "kc_Create kc ?t s = (r', s')" "r' = None \<longleftrightarrow> r = None"
    using run Inl by (auto simp: client_UpdateAssignment_def split: prod.splits option.splits)
  show thesis
    by (rule creates [OF Inl _ r'(2), of ?t])
      (use kube_Create [OF kube r'(1)] r'(2) in \<open>simp_all add: plan_specs_def\<close>)
next
  case (Inr p)
  have wfp: "plan_key p = podset_key ns podset" "entries_ok (plan_Plan p)"
    using plans_wfD [OF wf] client_Get_Inr [OF kube Inr] by blast+
  let ?changed = "filter (\<lambda>e. ps_Pod e = pod \<and> ps_Node e \<noteq> node) (plan_Plan p)"
  let ?t = "p\<lparr>plan_Plan := entries_reassign pod node (plan_Plan p)\<rparr>"
  show thesis
  proof (cases "?changed = []")
    case True
    have "entry_node (plan_Plan p) pod \<in> {None, Some node}"
    proof (cases "entry_node (plan_Plan p) pod")
      case (Some n)
      with True wfp show ?thesis by (force simp: entry_node_Some filter_eq_nil_iff)
    qed simp
    with True run Inr show ?thesis
      by (intro unchanged) (auto simp: client_UpdateAssignment_def split_plan_filter)
  next
    case False
    with run Inr obtain r' where r': "kc_Update kc ?t s = (r', s')" "r' = None \<longleftrightarrow> r = None"
      by (auto simp: client_UpdateAssignment_def entries_reassign_def split_plan_filter
          split: prod.splits option.splits)
    from False have "entry_node (plan_Plan p) pod \<noteq> None" by (auto simp: filter_eq_nil_iff)
    then show ?thesis
      by (intro writes [OF Inr _ r'(2), of ?t])
        (use kube_Update [OF kube r'(1)] wfp in simp_all)
  qed
qed

lemma Delete_cases:
  assumes kube: "kube_ok kc plans" and wf: "plans_wf (plans s)"
    and run: "client_Delete kc pod ns podset s = ((b, r), s')"
  obtains (no_plan) e where "client_Get kc ns podset s = Inl e" "r = Some e" "\<not> b" "s' = s"
  | (absent) p where "client_Get kc ns podset s = Inr p" "entry_node (plan_Plan p) pod = None"
      "r = None" "\<not> b" "s' = s"
  | (writes) r' p t where "client_Get kc ns podset s = Inr p"
      "wrote (podset_key ns podset) (plans s) r' t (plans s')" "r' = None \<longleftrightarrow> r = None"
      "b \<longleftrightarrow> r \<noteq> None" "entries_ok (plan_Plan p)"
      "t = (if entries_drop pod (plan_Plan p) = [] then None
            else Some (p\<lparr>plan_Plan := entries_drop pod (plan_Plan p)\<rparr>))"
      "plan_key p = podset_key ns podset" "entry_node (plan_Plan p) pod \<noteq> None"
proof (cases "client_Get kc ns podset s")
  case (Inl e)
  with run show ?thesis by (intro no_plan) (auto simp: client_Delete_def)
next
  case (Inr p)
  have wfp: "plan_key p = podset_key ns podset" "entries_ok (plan_Plan p)"
    using plans_wfD [OF wf] client_Get_Inr [OF kube Inr] by blast+
  let ?t = "p\<lparr>plan_Plan := entries_drop pod (plan_Plan p)\<rparr>"
  consider "pod \<notin> ps_Pod ` set (plan_Plan p)"
    | "pod \<in> ps_Pod ` set (plan_Plan p)" "entries_drop pod (plan_Plan p) = []"
    | "pod \<in> ps_Pod ` set (plan_Plan p)" "entries_drop pod (plan_Plan p) \<noteq> []" by blast
  then show thesis
  proof cases
    case 1
    with run Inr show ?thesis
      by (intro absent) (auto simp: client_Delete_def remove_pod_filter)
  next
    case 2
    with run Inr obtain r' where r': "kc_Delete kc (plan_key p) s = (r', s')" "r' = None \<longleftrightarrow> r = None" "b \<longleftrightarrow> r \<noteq> None"
      by (auto simp: client_Delete_def remove_pod_filter entries_drop_filter
          split: prod.splits option.splits)
    show ?thesis
      by (rule writes [OF Inr _ r'(2,3) wfp(2), of None])
        (use kube_Delete [OF kube r'(1)] wfp 2 in simp_all)
  next
    case 3
    with run Inr obtain r' where r': "kc_Update kc ?t s = (r', s')" "r' = None \<longleftrightarrow> r = None" "b \<longleftrightarrow> r \<noteq> None"
      by (auto simp: client_Delete_def remove_pod_filter entries_drop_filter
          split: prod.splits option.splits)
    show ?thesis
      by (rule writes [OF Inr _ r'(2,3) wfp(2), of "Some ?t"])
        (use kube_Update [OF kube r'(1)] wfp 3 in simp_all)
  qed
qed


section \<open>Properties\<close>

text \<open>An API server that never fails, on an association list of objects.\<close>

definition map_kube :: "(NamespacedName, SchedulePlan) gomap kube" where
  "map_kube =
     \<lparr>kc_Get = (\<lambda>k s. case map_of s k of None \<Rightarrow> Inl (External ''not found'') | Some p \<Rightarrow> Inr p),
      kc_List = (\<lambda>ns ls s. Inr (filter (\<lambda>p. plan_Namespace p = ns \<and> set ls \<subseteq> set (plan_Labels p)) (map snd s))),
      kc_Create = (\<lambda>p s. case map_of s (plan_key p) of
         None \<Rightarrow> (None, AList.update (plan_key p) p s)
       | Some _ \<Rightarrow> (Some (External ''already exists''), s)),
      kc_Update = (\<lambda>p s. case map_of s (plan_key p) of
         None \<Rightarrow> (Some (External ''not found''), s)
       | Some _ \<Rightarrow> (None, AList.update (plan_key p) p s)),
      kc_Delete = (\<lambda>k s. (None, AList.delete k s))\<rparr>"

lemma map_kube_ok: "kube_ok map_kube map_of"
  unfolding kube_ok_def map_kube_def
  by (auto simp: written_def go_map delete_conv' split: option.splits)

lemma Update_effect:
  assumes "kube_ok kc plans" and "plans_wf (plans s)" and "distinct (map fst as)"
    and "client_Update kc ns podset as s = (None, s')"
  shows "planned (plans s') ns podset =
      (if \<exists>p. client_Get kc ns podset s = Inr p \<and> set (plan_specs as) \<subseteq> set (plan_Plan p)
       then planned (plans s) ns podset else map_of as) \<and>
    map_of as \<subseteq>\<^sub>m planned (plans s') ns podset \<and>
    ((ns', podset') \<noteq> (ns, podset) \<longrightarrow>
      planned (plans s') ns' podset' = planned (plans s) ns' podset')"
  using assms(1,2,4)
proof (cases rule: Update_cases)
  case (unchanged p)
  note pl = client_Get_Inr [OF assms(1) unchanged(1)]
  have "map_of as \<subseteq>\<^sub>m entry_node (plan_Plan p)"
    unfolding entry_node_specs [OF assms(3), symmetric]
    by (rule entry_node_mono [OF plans_wfD(2) [OF assms(2) pl] entries_ok_specs [OF assms(3)]
          unchanged(2)])
  then show ?thesis using unchanged by (auto simp: planned_def pl)
next
  case (writes r' t)
  have "planned (plans s') ns podset = map_of as"
    using writes entry_node_cong(1) [OF entries_ok_specs [OF assms(3)] writes(5)]
    by (auto simp: wrote_def entry_node_specs [OF assms(3)] planned_def)
  with writes(1) wrote_other [OF writes(2), of ns' podset'] show ?thesis by auto
qed

text \<open>
  C9: a successful update of a pod set's plan stores exactly the given assignments, except that a
  plan which already holds all of them is left as it is, further pods included. Either way
  every given assignment is then planned, and no other pod set's plan is touched.
\<close>

theorem client_Update_correct:
  assumes "kube_ok kc plans" and "plans_wf (plans s)" and "distinct (map fst as)"
    and "client_Update kc ns podset as s = (None, s')"
  shows "planned (plans s') ns podset =
      (if \<exists>p. client_Get kc ns podset s = Inr p \<and> set (plan_specs as) \<subseteq> set (plan_Plan p)
       then planned (plans s) ns podset else map_of as) \<and>
    map_of as \<subseteq>\<^sub>m planned (plans s') ns podset \<and>
    ((ns', podset') \<noteq> (ns, podset) \<longrightarrow>
      planned (plans s') ns' podset' = planned (plans s) ns' podset')"
  using assms by (rule Update_effect)

text \<open>
  A pod set in a server state, for the examples: pods \<open>a\<close> and \<open>b\<close> planned on two nodes.
\<close>

definition ex_store :: "(NamespacedName, SchedulePlan) gomap" where
  "ex_store = [(podset_key ''ns'' ''web'', new_SchedulePlan ''ns'' ''web''
     (plan_specs [(''a'', ''n1''), (''b'', ''n2'')]))]"

lemma ex_store_wf: "plans_wf (map_of ex_store)"
  by (simp add: plans_wf_def ex_store_def entries_ok_def plan_specs_def)

lemma ex_store_Get:
  "client_Get map_kube ''ns'' ''web'' ex_store =
     Inr (new_SchedulePlan ''ns'' ''web'' (plan_specs [(''a'', ''n1''), (''b'', ''n2'')]))"
  by (simp add: client_Get_def map_kube_def ex_store_def)

theorem client_Update_correct_witness:
  "planned (map_of (snd (client_Update map_kube ''ns'' ''web'' [(''a'', ''n3''), (''b'', ''n2'')] ex_store)))
     ''ns'' ''web'' = [''a'' \<mapsto> ''n3'', ''b'' \<mapsto> ''n2'']"
proof -
  let ?as = "[(''a'', ''n3''), (''b'', ''n2'')]"
  have run: "client_Update map_kube ''ns'' ''web'' ?as ex_store =
      (None, snd (client_Update map_kube ''ns'' ''web'' ?as ex_store))"
    by (simp add: client_Update_def ex_store_Get plan_specs_def, simp add: map_kube_def ex_store_def)
  have "distinct (map fst ?as)" by simp
  from client_Update_correct [OF map_kube_ok ex_store_wf this run]
  show ?thesis by (auto simp: ex_store_Get plan_specs_def)
qed

lemma UpdateAssignment_effect:
  assumes "kube_ok kc plans" and "plans_wf (plans s)"
    and "client_UpdateAssignment kc ns podset pod node s = (None, s')"
  shows "planned (plans s') ns podset =
      (if plans s (podset_key ns podset) \<noteq> None \<and> planned (plans s) ns podset pod = None
       then planned (plans s) ns podset
       else (planned (plans s) ns podset)(pod \<mapsto> node)) \<and>
    ((ns', podset') \<noteq> (ns, podset) \<longrightarrow>
      planned (plans s') ns' podset' = planned (plans s) ns' podset')"
  using assms
proof (cases rule: UpdateAssignment_cases)
  case (creates r' t e)
  then have "planned (plans s') ns podset = (planned (plans s) ns podset)(pod \<mapsto> node)"
    by (auto simp: wrote_def planned_def entry_node_specs)
  with creates wrote_other [OF creates(2), of ns' podset'] show ?thesis by auto
next
  case (unchanged p)
  then show ?thesis
    by (auto simp: planned_def client_Get_Inr [OF assms(1)] fun_upd_idem)
next
  case (writes r' p t)
  note pl = client_Get_Inr [OF assms(1) writes(1)]
  have "planned (plans s') ns podset = (planned (plans s) ns podset)(pod \<mapsto> node)"
    using writes pl entries.find_reassign [OF plans_wfD(2) [OF assms(2) pl]]
    by (auto simp: wrote_def planned_def)
  with writes wrote_other [OF writes(2), of ns' podset'] show ?thesis
    by (auto simp: planned_def pl)
qed

text \<open>
  C10: a successful update of one pod's assignment plans that node for the pod when the plan
  knows the pod or there is no plan yet, and otherwise changes nothing at all; the other
  pods of the set keep their nodes.
\<close>

theorem client_UpdateAssignment_correct:
  assumes "kube_ok kc plans" and "plans_wf (plans s)"
    and "client_UpdateAssignment kc ns podset pod node s = (None, s')"
  shows "planned (plans s') ns podset =
      (if plans s (podset_key ns podset) \<noteq> None \<and> planned (plans s) ns podset pod = None
       then planned (plans s) ns podset
       else (planned (plans s) ns podset)(pod \<mapsto> node)) \<and>
    ((ns', podset') \<noteq> (ns, podset) \<longrightarrow>
      planned (plans s') ns' podset' = planned (plans s) ns' podset')"
  using assms by (rule UpdateAssignment_effect)


theorem client_UpdateAssignment_correct_witness:
  "planned (map_of (snd (client_UpdateAssignment map_kube ''ns'' ''web'' ''a'' ''n9'' ex_store)))
     ''ns'' ''web'' = [''a'' \<mapsto> ''n9'', ''b'' \<mapsto> ''n2'']"
proof -
  have run: "client_UpdateAssignment map_kube ''ns'' ''web'' ''a'' ''n9'' ex_store =
      (None, snd (client_UpdateAssignment map_kube ''ns'' ''web'' ''a'' ''n9'' ex_store))"
    by (simp add: client_UpdateAssignment_def ex_store_Get plan_specs_def,
        simp add: map_kube_def ex_store_def)
  have "planned (map_of ex_store) ''ns'' ''web'' = [''a'' \<mapsto> ''n1'', ''b'' \<mapsto> ''n2'']"
    by (simp add: planned_def ex_store_def entry_node_specs fun_eq_iff)
  with client_UpdateAssignment_correct [OF map_kube_ok ex_store_wf run]
  show ?thesis by (auto simp: fun_upd_twist)
qed

text \<open>
  The update of one pod's assignment does not add a pod to an existing plan: it reports
  success and leaves every plan as it was.
\<close>

theorem client_UpdateAssignment_no_insert:
  assumes "client_Get kc ns podset s = Inr p" and "pod \<notin> ps_Pod ` set (plan_Plan p)"
  shows "client_UpdateAssignment kc ns podset pod node s = (None, s)"
proof -
  have "filter (\<lambda>e. ps_Pod e = pod \<and> ps_Node e \<noteq> node) (plan_Plan p) = []"
    using assms(2) by (auto simp: filter_eq_nil_iff)
  then show ?thesis
    by (simp add: client_UpdateAssignment_def assms(1) split_plan_filter)
qed

theorem client_UpdateAssignment_no_insert_witness:
  "client_UpdateAssignment map_kube ''ns'' ''web'' ''c'' ''n1'' ex_store = (None, ex_store)"
  by (rule client_UpdateAssignment_no_insert [OF ex_store_Get]) (simp add: plan_specs_def)

lemma Delete_effect:
  assumes "kube_ok kc plans" and "plans_wf (plans s)"
    and "client_Delete kc pod ns podset s = ((retry, r), s')"
  shows "(r = None \<longrightarrow>
      planned (plans s') ns podset = (planned (plans s) ns podset)(pod := None) \<and>
      (planned (plans s) ns podset pod \<noteq> None \<and> planned (plans s') ns podset = (\<lambda>_. None) \<longrightarrow>
         plans s' (podset_key ns podset) = None)) \<and>
    (retry \<longleftrightarrow> r \<noteq> None \<and> (\<exists>p. client_Get kc ns podset s = Inr p)) \<and>
    ((ns', podset') \<noteq> (ns, podset) \<longrightarrow>
      planned (plans s') ns' podset' = planned (plans s) ns' podset')"
  using assms
proof (cases rule: Delete_cases)
  case (no_plan e)
  then show ?thesis by auto
next
  case (absent p)
  then show ?thesis
    by (auto simp: planned_def client_Get_Inr [OF assms(1)] fun_upd_idem)
next
  case (writes r' p t)
  note pl = client_Get_Inr [OF assms(1) writes(1)]
  let ?es = "entries_drop pod (plan_Plan p)"
  have drop: "entry_node ?es = (entry_node (plan_Plan p))(pod := None)" by (rule entries.find_drop)
  have "?es = [] \<longleftrightarrow> entry_node ?es = (\<lambda>_. None)"
    by (auto simp: fun_eq_iff entry_node_def find_pod_None)
  then have "r = None \<Longrightarrow> planned (plans s') ns podset = (planned (plans s) ns podset)(pod := None) \<and>
      (planned (plans s') ns podset = (\<lambda>_. None) \<longrightarrow> plans s' (podset_key ns podset) = None)"
    using writes drop by (auto simp: wrote_def planned_def pl)
  with writes wrote_other [OF writes(2), of ns' podset'] show ?thesis by auto
qed

text \<open>
  C11: removing a pod. Without an error the pod is no longer planned, the other pods keep their
  nodes, and a plan whose last pod went is removed as an object. An error is marked for a
  retry exactly when the plan could be read, that is when it was a write that failed.
\<close>

theorem client_Delete_correct:
  assumes "kube_ok kc plans" and "plans_wf (plans s)"
    and "client_Delete kc pod ns podset s = ((retry, r), s')"
  shows "(r = None \<longrightarrow>
      planned (plans s') ns podset = (planned (plans s) ns podset)(pod := None) \<and>
      (planned (plans s) ns podset pod \<noteq> None \<and> planned (plans s') ns podset = (\<lambda>_. None) \<longrightarrow>
         plans s' (podset_key ns podset) = None)) \<and>
    (retry \<longleftrightarrow> r \<noteq> None \<and> (\<exists>p. client_Get kc ns podset s = Inr p)) \<and>
    ((ns', podset') \<noteq> (ns, podset) \<longrightarrow>
      planned (plans s') ns' podset' = planned (plans s) ns' podset')"
  using assms by (rule Delete_effect)

theorem client_Delete_correct_witness:
  "planned (map_of (snd (client_Delete map_kube ''a'' ''ns'' ''web'' ex_store))) ''ns'' ''web'' =
     [''b'' \<mapsto> ''n2'']"
proof -
  have run: "client_Delete map_kube ''a'' ''ns'' ''web'' ex_store =
      ((False, None), snd (client_Delete map_kube ''a'' ''ns'' ''web'' ex_store))"
    by (simp add: client_Delete_def ex_store_Get plan_specs_def, simp add: map_kube_def ex_store_def)
  have "planned (map_of ex_store) ''ns'' ''web'' = [''a'' \<mapsto> ''n1'', ''b'' \<mapsto> ''n2'']"
    by (simp add: planned_def ex_store_def entry_node_specs fun_eq_iff)
  with client_Delete_correct [OF map_kube_ok ex_store_wf run]
  show ?thesis by (auto simp: fun_eq_iff)
qed

text \<open>The writing operations of the client, to state sequences of them.\<close>

datatype client_op =
    OpUpdate string string "(string, string) gomap"
  | OpUpdateAssignment string string string string
  | OpDelete string string string

fun run_client_op :: "'s kube \<Rightarrow> client_op \<Rightarrow> 's \<Rightarrow> 's" where
  "run_client_op kc (OpUpdate ns podset as) s = snd (client_Update kc ns podset as s)"
| "run_client_op kc (OpUpdateAssignment ns podset pod node) s =
     snd (client_UpdateAssignment kc ns podset pod node s)"
| "run_client_op kc (OpDelete pod ns podset) s = snd (client_Delete kc pod ns podset s)"

fun op_ok :: "client_op \<Rightarrow> bool" where
  "op_ok (OpUpdate ns podset as) \<longleftrightarrow> distinct (map fst as)"
| "op_ok _ \<longleftrightarrow> True"


lemma run_client_op_wf:
  assumes "kube_ok kc plans" and "plans_wf (plans s)" and "op_ok op"
  shows "plans_wf (plans (run_client_op kc op s))"
proof (cases op)
  case (OpUpdate ns podset as)
  obtain r s' where run: "client_Update kc ns podset as s = (r, s')" by fastforce
  have as: "distinct (map fst as)" using assms(3) OpUpdate by simp
  from assms(1,2) run have "plans_wf (plans s')"
  proof (cases rule: Update_cases)
    case (writes r' t)
    then show ?thesis
      using entry_node_cong(2) [OF entries_ok_specs [OF as] writes(5)]
      by (intro wrote_wf [OF writes(2) assms(2)]) auto
  qed (use assms in simp)
  then show ?thesis by (simp add: OpUpdate run)
next
  case (OpUpdateAssignment ns podset pod node)
  obtain r s' where run: "client_UpdateAssignment kc ns podset pod node s = (r, s')" by fastforce
  from assms(1,2) run have "plans_wf (plans s')"
  proof (cases rule: UpdateAssignment_cases)
    case (creates r' t e)
    then show ?thesis
      by (intro wrote_wf [OF creates(2) assms(2)]) (auto simp: entries_ok_specs)
  next
    case (writes r' p t)
    then show ?thesis
      using plans_wfD(2) [OF assms(2) client_Get_Inr [OF assms(1) writes(1)]]
      by (intro wrote_wf [OF writes(2) assms(2)]) (auto simp: entries.ok_reassign)
  qed (use assms in simp)
  then show ?thesis by (simp add: OpUpdateAssignment run)
next
  case (OpDelete pod ns podset)
  obtain b r s' where run: "client_Delete kc pod ns podset s = ((b, r), s')"
    by (metis prod.collapse)
  from assms(1,2) run have "plans_wf (plans s')"
  proof (cases rule: Delete_cases)
    case (writes r' p t)
    then show ?thesis
      by (intro wrote_wf [OF writes(2) assms(2)]) (auto simp: entries.ok_drop split: if_splits)
  qed (use assms in simp_all)
  then show ?thesis by (simp add: OpDelete run)
qed

text \<open>
  Whatever sequence of operations is run, whatever the API server answers, and whether or
  not its failing writes were applied: every stored plan keeps its own name and plans
  each pod at most once.
\<close>

theorem client_ops_keep_plans_wf:
  assumes "kube_ok kc plans" and "plans_wf (plans s)" and "\<forall>op \<in> set ops. op_ok op"
  shows "plans_wf (plans (fold (run_client_op kc) ops s))"
  using assms(2,3)
  by (induction ops arbitrary: s) (auto intro: run_client_op_wf [OF assms(1)])

theorem client_ops_keep_plans_wf_witness:
  "plans_wf (map_of (fold (run_client_op map_kube)
     [OpUpdate ''ns'' ''web'' [(''a'', ''n3'')], OpDelete ''a'' ''ns'' ''web''] ex_store))"
  by (rule client_ops_keep_plans_wf [OF map_kube_ok ex_store_wf]) simp

text \<open>Reading the plan of a pod set.\<close>

lemma client_CheckIfPodPresent_planned:
  assumes "kube_ok kc plans" and "client_CheckIfPodPresent kc ns podset pod s = Inr e"
  shows "map_option ps_Node e = planned (plans s) ns podset pod"
  using assms
  by (auto simp: client_CheckIfPodPresent_def planned_def entry_node_def
      client_Get_Inr [OF assms(1)] split: sum.splits)

section \<open>An API server in a larger world\<close>

definition lift_write :: "('w \<Rightarrow> 's) \<Rightarrow> ('s \<Rightarrow> 'w \<Rightarrow> 'w) \<Rightarrow> ('s \<Rightarrow> err option \<times> 's) \<Rightarrow> 'w \<Rightarrow> err option \<times> 'w" where
  "lift_write get put f w = (case f (get w) of (r, s) \<Rightarrow> (r, put s w))"

definition lift_kube :: "('w \<Rightarrow> 's) \<Rightarrow> ('s \<Rightarrow> 'w \<Rightarrow> 'w) \<Rightarrow> 's kube \<Rightarrow> 'w kube" where
  "lift_kube get put kc =
     \<lparr>kc_Get = (\<lambda>k w. kc_Get kc k (get w)), kc_List = (\<lambda>ns ls w. kc_List kc ns ls (get w)),
      kc_Create = (\<lambda>p. lift_write get put (kc_Create kc p)),
      kc_Update = (\<lambda>p. lift_write get put (kc_Update kc p)),
      kc_Delete = (\<lambda>k. lift_write get put (kc_Delete kc k))\<rparr>"

lemma written_lift:
  assumes "\<And>s w. get (put s w) = s"
  shows "written (\<lambda>w. plans (get w)) w (lift_write get put f w) m \<longleftrightarrow> written plans (get w) (f (get w)) m"
  by (auto simp: written_def lift_write_def assms split: prod.splits option.splits)

lemma lift_kube_ok:
  assumes "kube_ok kc plans" and "\<And>s w. get (put s w) = s"
  shows "kube_ok (lift_kube get put kc) (\<lambda>w. plans (get w))"
proof -
  have "fst (lift_write get put f w) = fst (f (get w))"
    "plans (get (snd (lift_write get put f w))) = plans (snd (f (get w)))" for f w
    by (auto simp: lift_write_def assms(2) split: prod.splits)
  with assms(1) show ?thesis
    unfolding kube_ok_def lift_kube_def by (simp add: written_lift [where get = get and put = put, OF assms(2)])
qed

section \<open>An API server that serves\<close>

text \<open>Reads of what is stored and writes that are possible succeed.\<close>

definition kube_serves :: "'s kube \<Rightarrow> ('s \<Rightarrow> plans) \<Rightarrow> bool" where
  "kube_serves kc plans \<longleftrightarrow>
     (\<forall>k s. k \<in> dom (plans s) \<longrightarrow> (\<exists>p. kc_Get kc k s = Inr p)) \<and>
     (\<forall>p s. plan_key p \<notin> dom (plans s) \<longrightarrow> fst (kc_Create kc p s) = None) \<and>
     (\<forall>p s. plan_key p \<in> dom (plans s) \<longrightarrow> fst (kc_Update kc p s) = None) \<and>
     (\<forall>k s. k \<in> dom (plans s) \<longrightarrow> fst (kc_Delete kc k s) = None)"

lemma map_kube_serves: "kube_serves map_kube map_of"
  by (auto simp: kube_serves_def map_kube_def dom_def split: option.splits)

lemma client_Get_serves:
  assumes "kube_serves kc plans" and "client_Get kc ns podset s = Inl e"
  shows "podset_key ns podset \<notin> dom (plans s)"
proof
  assume "podset_key ns podset \<in> dom (plans s)"
  then obtain p where "kc_Get kc (podset_key ns podset) s = Inr p"
    using assms(1) unfolding kube_serves_def by blast
  with assms(2) show False by (simp add: client_Get_def)
qed

lemma client_Update_serves:
  assumes kube: "kube_ok kc plans" and serves: "kube_serves kc plans" and wf: "plans_wf (plans s)"
  shows "\<exists>s'. client_Update kc ns podset as s = (None, s')"
proof (cases "client_Get kc ns podset s")
  case (Inl e)
  have "fst (kc_Create kc (new_SchedulePlan ns podset (plan_specs as)) s) = None"
    using serves client_Get_serves [OF serves Inl] by (simp add: kube_serves_def)
  with Inl show ?thesis by (auto simp: client_Update_def split: prod.splits)
next
  case (Inr p)
  have "plans s (podset_key ns podset) = Some p" by (rule client_Get_Inr [OF kube Inr])
  with plans_wfD(1) [OF wf this] have "plan_key (p\<lparr>plan_Plan := es\<rparr>) \<in> dom (plans s)" for es
    by (simp add: domIff)
  then have "fst (kc_Update kc (p\<lparr>plan_Plan := es\<rparr>) s) = None" for es
    using serves by (simp add: kube_serves_def)
  with Inr show ?thesis
    by (simp add: client_Update_def case_prod_beta option.case_eq_if)
qed

lemma client_Delete_serves:
  assumes kube: "kube_ok kc plans" and serves: "kube_serves kc plans" and wf: "plans_wf (plans s)"
  shows "\<exists>e s'. client_Delete kc pod ns podset s = ((False, e), s')"
proof (cases "client_Get kc ns podset s")
  case (Inl e)
  then show ?thesis by (simp add: client_Delete_def)
next
  case (Inr p)
  have "plans s (podset_key ns podset) = Some p" by (rule client_Get_Inr [OF kube Inr])
  with plans_wfD(1) [OF wf this] have "plan_key (p\<lparr>plan_Plan := es\<rparr>) \<in> dom (plans s)" "plan_key p \<in> dom (plans s)" for es
    by (simp_all add: domIff)
  then have "fst (kc_Update kc (p\<lparr>plan_Plan := es\<rparr>) s) = None" "fst (kc_Delete kc (plan_key p) s) = None" for es
    using serves by (simp_all add: kube_serves_def)
  with Inr show ?thesis
    by (simp add: client_Delete_def case_prod_beta option.case_eq_if)
qed

end
