(* ===== verification/Planner.thy ===== *)
theory Planner
  imports Selection PlanClient
begin

text \<open>
  The planner service: \<^verbatim>\<open>internal/pkg/planner/planner.go\<close>, \<^verbatim>\<open>podset_handler.go\<close> and
  \<^verbatim>\<open>api.go\<close>. It assigns a node to each pod of a pod set, remembers the assignments of pods
  that do not run yet in \<^verbatim>\<open>podToNodeMap\<close>, and removes pods from stored plans when they are
  deleted.

  What the planner reads of its surroundings while it plans one pod is a \<open>plan_env\<close>: the nodes
  in the informer's cache, the cluster as the predicates see it, the orders in which the
  worker pool runs the filters and the scores on a number of nodes, and the values that \<^verbatim>\<open>rand.Intn\<close> returns.
  These may differ from pod to pod.
\<close>

section \<open>Nodes that can be planned on\<close>

fun taint_flags :: "Taint list \<Rightarrow> bool \<Rightarrow> bool \<Rightarrow> bool \<times> bool" where
  "taint_flags [] preferNoSchedule noSchedule = (preferNoSchedule, noSchedule)"
| "taint_flags (t # ts) preferNoSchedule noSchedule =
     (if taint_Effect t = EffectPreferNoSchedule then taint_flags ts True noSchedule
      else if taint_Effect t = EffectNoSchedule \<or> taint_Effect t = EffectNoExecute
      then taint_flags ts preferNoSchedule True
      else taint_flags ts preferNoSchedule noSchedule)"

fun eligible_loop :: "Node list \<Rightarrow> Node list \<Rightarrow> Node list \<Rightarrow> Node list \<times> Node list" where
  "eligible_loop [] eligibleNodes preferNoScheduleNodes = (eligibleNodes, preferNoScheduleNodes)"
| "eligible_loop (node # nodes) eligibleNodes preferNoScheduleNodes =
     (case taint_flags (node_Taints node) False False of
        (preferNoSchedule, noSchedule) \<Rightarrow>
          if \<not> noSchedule then eligible_loop nodes (eligibleNodes @ [node]) preferNoScheduleNodes
          else if preferNoSchedule
          then eligible_loop nodes eligibleNodes (preferNoScheduleNodes @ [node])
          else eligible_loop nodes eligibleNodes preferNoScheduleNodes)"

text \<open>The argument is the answer of the node lister.\<close>

definition getEligibleNodes :: "err + Node list \<Rightarrow> err + Node list" where
  "getEligibleNodes nodeLister =
     (case nodeLister of
        Inl e \<Rightarrow> Inl (Wrapped ''unable to list nodes: '' e)
      | Inr nodes \<Rightarrow>
          (case eligible_loop nodes [] [] of
             (eligibleNodes, preferNoScheduleNodes) \<Rightarrow>
               if length eligibleNodes = 0 then Inr preferNoScheduleNodes else Inr eligibleNodes))"

definition FindNodeLister :: "err + Node list \<Rightarrow> string \<Rightarrow> err + Node" where
  "FindNodeLister nodeLister node =
     (case getEligibleNodes nodeLister of
        Inl e \<Rightarrow> Inl e
      | Inr nodes \<Rightarrow>
          (case find (\<lambda>n. node_Name n = node) nodes of
             Some n \<Rightarrow> Inr n
           | None \<Rightarrow> Inl (Wrapped (''cound not find node lister instance for node '' @ node @ '': '')
               (Sentinel PlannerErrNotFound))))"

section \<open>Where a pod is\<close>

type_synonym assignments = "NamespacedName \<rightharpoonup> string"

definition getPodNode :: "assignments \<Rightarrow> Pod \<Rightarrow> err + string" where
  "getPodNode podToNodeMap pod =
     (case podToNodeMap (pod_key pod) of
        None \<Rightarrow> Inl (Wrapped (''cannot find pod '' @ pod_Name pod @ '' node: '') (Sentinel ErrPodNotAssigned))
      | Some node \<Rightarrow> Inr node)"

definition setPodNode :: "assignments \<Rightarrow> Pod \<Rightarrow> string \<Rightarrow> assignments" where
  "setPodNode podToNodeMap pod nodeName = podToNodeMap(pod_key pod \<mapsto> nodeName)"

definition GetNodeName :: "err + Node list \<Rightarrow> assignments \<Rightarrow> Pod \<Rightarrow> err + string" where
  "GetNodeName nodeLister podToNodeMap pod =
     (if pod_HostIP pod = '''' then getPodNode podToNodeMap pod
      else
        (case getEligibleNodes nodeLister of
           Inl e \<Rightarrow> Inl e
         | Inr nodes \<Rightarrow>
             (case find (\<lambda>node. list_ex (\<lambda>a. a = pod_HostIP pod) (node_Addresses node)) nodes of
                Some node \<Rightarrow> Inr (node_Name node)
              | None \<Rightarrow> Inl (Wrapped (''pod ip '' @ pod_HostIP pod @ '' not found in node lister cache: '')
                  (Sentinel PlannerErrNotFound)))))"

text \<open>The handle of a pod set: its pods that are assigned to a node.\<close>

definition podset_List :: "err + Node list \<Rightarrow> assignments \<Rightarrow> Pod list \<Rightarrow> Node \<Rightarrow> err + Pod list" where
  "podset_List nodeLister podToNodeMap pods node =
     Inr (filter (\<lambda>pod. case GetNodeName nodeLister podToNodeMap pod of
            Inl _ \<Rightarrow> False | Inr name \<Rightarrow> name = node_Name node) pods)"

definition newPodSetHandler :: "err + Node list \<Rightarrow> assignments \<Rightarrow> Pod list \<Rightarrow> PodSetHandle" where
  "newPodSetHandler nodeLister podToNodeMap pods =
     \<lparr>hdl_List = podset_List nodeLister podToNodeMap pods\<rparr>"

section \<open>Finding a node\<close>

text \<open>\<^verbatim>\<open>findFit\<close>: the candidates by name, their scores, the selected one; it is remembered.\<close>

fun candidate_nodes :: "(string \<rightharpoonup> Node) \<Rightarrow> string \<Rightarrow> string list \<Rightarrow> err + Node list" where
  "candidate_nodes m pod [] = Inr []"
| "candidate_nodes m pod (name # names) =
     (case m name of
        None \<Rightarrow> Inl (Wrapped (''no-eligible-node-ref-found-for-'' @ name @ ''-pod-'' @ pod @ '': '')
                   (Sentinel ErrNoNodesFound))
      | Some node \<Rightarrow>
          (case candidate_nodes m pod names of Inl e \<Rightarrow> Inl e | Inr nodes \<Rightarrow> Inr (node # nodes)))"

record plan_env =
  env_lister :: "err + Node list"
  env_cluster :: cluster
  env_filters :: "nat \<Rightarrow> nat list"
  env_scores :: "nat \<Rightarrow> nat list"
  env_draws :: "nat list"

definition findFit ::
  "PredicateHandler \<Rightarrow> plan_env \<Rightarrow> Pod list \<Rightarrow> assignments \<Rightarrow> Pod \<Rightarrow> Node list \<Rightarrow> string list \<Rightarrow>
     (err + Node) \<times> assignments" where
  "findFit ph env pods podToNodeMap pod eligibleNodes eligibleNodeNames =
     (if length eligibleNodeNames = 0
      then (Inl (Wrapped (''no-eligible-nodes-found-for-pod-'' @ pod_Name pod @ '': '')
              (Sentinel ErrNoNodesFound)), podToNodeMap)
      else
        let candidateNodeMap = map_of (rev (map (\<lambda>node. (node_Name node, node)) eligibleNodes));
            hdl = newPodSetHandler (env_lister env) podToNodeMap pods
        in case candidate_nodes candidateNodeMap (pod_Name pod) eligibleNodeNames of
             Inl e \<Rightarrow> (Inl e, podToNodeMap)
           | Inr candidateNodes \<Rightarrow>
               let nodeScoreList =
                 RunScorePredicates ph (env_cluster env) hdl pod candidateNodes
                   (env_scores env (length candidateNodes))
               in case selectNode nodeScoreList (env_draws env) of
                    Inl e \<Rightarrow> (Inl (Wrapped (''select-node-failed-for-pod-'' @ pod_Name pod @ '': '') e),
                             podToNodeMap)
                  | Inr nodeName \<Rightarrow>
                      (case candidateNodeMap nodeName of
                         None \<Rightarrow> (Inl (Wrapped (''node-instance-not-found-in-cache-for-'' @ nodeName @ '': '')
                                   (Sentinel ErrNoNodesFound)), podToNodeMap)
                       | Some nodeInstance \<Rightarrow>
                           (Inr nodeInstance, setPodNode podToNodeMap pod (node_Name nodeInstance))))"

section \<open>Building a plan\<close>

definition getEligibleNodesForPod ::
  "PredicateHandler \<Rightarrow> plan_env \<Rightarrow> PodSetHandle \<Rightarrow> Pod \<Rightarrow> Node list \<Rightarrow> err + string list" where
  "getEligibleNodesForPod ph env hdl pod allEligibleNodes =
     (let filteredNodes =
        FindNodesThatPassFilters ph (env_cluster env) hdl pod allEligibleNodes
          (env_filters env (length allEligibleNodes))
      in if length filteredNodes = 0 then Inl (Sentinel ErrNoNodesFound)
         else Inr (map node_Name filteredNodes))"

type_synonym scheduling = "NamespacedName \<rightharpoonup> string list"

text \<open>The method \<^verbatim>\<open>getEligibleNodes\<close>, which remembers its results in the scheduling map.\<close>

definition getEligibleNodes_cached ::
  "PredicateHandler \<Rightarrow> plan_env \<Rightarrow> PodSetHandle \<Rightarrow> Pod \<Rightarrow> Node list \<Rightarrow> scheduling \<Rightarrow>
     (err + string list) \<times> scheduling" where
  "getEligibleNodes_cached ph env hdl pod allEligibleNodes schedulingMap =
     (case schedulingMap (pod_key pod) of
        Some eligibleNodes \<Rightarrow> (Inr eligibleNodes, schedulingMap)
      | None \<Rightarrow>
          (case getEligibleNodesForPod ph env hdl pod allEligibleNodes of
             Inl e \<Rightarrow> (Inl e, schedulingMap)
           | Inr eligibleNodes \<Rightarrow> (Inr eligibleNodes, schedulingMap(pod_key pod \<mapsto> eligibleNodes))))"

text \<open>
  One iteration of the loop of \<^verbatim>\<open>BuildPlan\<close>, on the remembered assignments, the scheduling map,
  the assignments of this plan and the pods that failed.
\<close>

record build =
  b_podToNodeMap :: assignments
  b_schedulingMap :: scheduling
  b_assignmentMap :: "(string, string) gomap"
  b_failedPodList :: "Pod list"

definition plan_pod ::
  "PredicateHandler \<Rightarrow> plan_env \<Rightarrow> Pod list \<Rightarrow> Node list \<Rightarrow> Pod \<Rightarrow> build \<Rightarrow> build" where
  "plan_pod ph env pods allEligibleNodes pod b =
     (if pod_Phase pod = PodFailed \<or> pod_DeletionTimestamp pod \<noteq> None then b
      else
        case GetNodeName (env_lister env) (b_podToNodeMap b) pod of
          Inr node \<Rightarrow> b\<lparr>b_assignmentMap := AList.update (pod_Name pod) node (b_assignmentMap b)\<rparr>
        | Inl _ \<Rightarrow>
            (case getEligibleNodes_cached ph env
                    (newPodSetHandler (env_lister env) (b_podToNodeMap b) pods) pod
                    allEligibleNodes (b_schedulingMap b) of
               (Inl _, schedulingMap) \<Rightarrow>
                 b\<lparr>b_schedulingMap := schedulingMap, b_failedPodList := b_failedPodList b @ [pod]\<rparr>
             | (Inr eligibleNodeNames, schedulingMap) \<Rightarrow>
                 (case findFit ph env pods (b_podToNodeMap b) pod allEligibleNodes eligibleNodeNames of
                    (Inl _, podToNodeMap) \<Rightarrow>
                      b\<lparr>b_podToNodeMap := podToNodeMap, b_schedulingMap := schedulingMap,
                        b_failedPodList := b_failedPodList b @ [pod]\<rparr>
                  | (Inr selectedNode, podToNodeMap) \<Rightarrow>
                      b\<lparr>b_podToNodeMap := podToNodeMap, b_schedulingMap := schedulingMap,
                        b_assignmentMap :=
                          AList.update (pod_Name pod) (node_Name selectedNode) (b_assignmentMap b)\<rparr>)))"

fun plan_pods ::
  "PredicateHandler \<Rightarrow> (Pod \<Rightarrow> plan_env) \<Rightarrow> Pod list \<Rightarrow> Node list \<Rightarrow> Pod list \<Rightarrow> build \<Rightarrow> build" where
  "plan_pods ph envs pods allEligibleNodes [] b = b"
| "plan_pods ph envs pods allEligibleNodes (pod # rest) b =
     plan_pods ph envs pods allEligibleNodes rest (plan_pod ph (envs pod) pods allEligibleNodes pod b)"

definition BuildPlan ::
  "PredicateHandler \<Rightarrow> err + Node list \<Rightarrow> (Pod \<Rightarrow> plan_env) \<Rightarrow> Pod list \<Rightarrow> Pod list \<Rightarrow> scheduling \<Rightarrow>
     assignments \<Rightarrow> (err + (string, string) gomap) \<times> assignments" where
  "BuildPlan ph nodeLister envs pods podList schedulingMap podToNodeMap =
     (case getEligibleNodes nodeLister of
        Inl e \<Rightarrow> (Inl e, podToNodeMap)
      | Inr allEligibleNodes \<Rightarrow>
          let b = plan_pods ph envs pods allEligibleNodes podList
                    \<lparr>b_podToNodeMap = podToNodeMap, b_schedulingMap = schedulingMap,
                     b_assignmentMap = [], b_failedPodList = []\<rparr>
          in (Inr (b_assignmentMap b), b_podToNodeMap b))"

text \<open>
  \<^verbatim>\<open>BuildSchedulePlan\<close>: \<open>listPods\<close> is the listing of the pods with a label selector. The loop
  records the index of the scheduled pod and the eligible nodes that come with the request.
\<close>

fun index_pods ::
  "string \<Rightarrow> string list \<Rightarrow> nat \<Rightarrow> Pod list \<Rightarrow> nat \<Rightarrow> scheduling \<Rightarrow> nat \<times> scheduling" where
  "index_pods scheduledPod eligibleNodes index [] indexOfScheduledPod schedulingMap =
     (indexOfScheduledPod, schedulingMap)"
| "index_pods scheduledPod eligibleNodes index (pod # pods) indexOfScheduledPod schedulingMap =
     (if pod_Name pod = scheduledPod
      then index_pods scheduledPod eligibleNodes (index + 1) pods index
             (schedulingMap(pod_key pod \<mapsto> eligibleNodes))
      else index_pods scheduledPod eligibleNodes (index + 1) pods indexOfScheduledPod schedulingMap)"

definition swap_front :: "nat \<Rightarrow> 'a list \<Rightarrow> 'a list" where
  "swap_front i xs = (if i > 0 then xs[0 := xs ! i, i := xs ! 0] else xs)"

definition BuildSchedulePlan ::
  "PredicateHandler \<Rightarrow> (string \<Rightarrow> string \<Rightarrow> err + Pod list) \<Rightarrow> err + Node list \<Rightarrow> (Pod \<Rightarrow> plan_env) \<Rightarrow>
     string \<Rightarrow> string \<Rightarrow> string \<Rightarrow> string list \<Rightarrow> assignments \<Rightarrow>
     (err + (string, string) gomap) \<times> assignments" where
  "BuildSchedulePlan ph listPods nodeLister envs namespace podSet scheduledPod eligibleNodes podToNodeMap =
     (case listPods namespace (''planner.ciena.io/pod-set='' @ podSet) of
        Inl e \<Rightarrow> (Inl (Wrapped ''schedule plan list pods error: '' e), podToNodeMap)
      | Inr items \<Rightarrow>
          (case index_pods scheduledPod eligibleNodes 0 items 0 Map.empty of
             (indexOfScheduledPod, schedulingMap) \<Rightarrow>
               let podList = swap_front indexOfScheduledPod items
               in BuildPlan ph nodeLister envs podList podList schedulingMap podToNodeMap))"

text \<open>The gRPC method: the request of the scheduler plugin; errors become an internal status.\<close>

record SchedulePlanRequest =
  req_Namespace :: string
  req_PodSet :: string
  req_ScheduledPod :: string
  req_EligibleNodes :: "string list"

definition APIServer_BuildSchedulePlan ::
  "PredicateHandler \<Rightarrow> (string \<Rightarrow> string \<Rightarrow> err + Pod list) \<Rightarrow> err + Node list \<Rightarrow> (Pod \<Rightarrow> plan_env) \<Rightarrow>
     SchedulePlanRequest \<Rightarrow> assignments \<Rightarrow> (string + (string, string) gomap) \<times> assignments" where
  "APIServer_BuildSchedulePlan ph listPods nodeLister envs req podToNodeMap =
     (case BuildSchedulePlan ph listPods nodeLister envs (req_Namespace req) (req_PodSet req)
             (req_ScheduledPod req) (req_EligibleNodes req) podToNodeMap of
        (Inl e, m) \<Rightarrow> (Inl (err_Error e), m)
      | (Inr assignments, m) \<Rightarrow> (Inr assignments, m))"

section \<open>Deleted pods\<close>

text \<open>
  The work items of the update queue are closures that remove one pod from one plan. The delays
  of the rate limiter are not modelled: the queue is the list of the items in the order in
  which their delays end.
\<close>

record workWrapper =
  w_name :: string
  w_namespace :: string
  w_podset :: string

text \<open>
  The planner's own state with the state of the API server beside it.
\<close>

record 's PodSetPlanner =
  podToNodeMap :: assignments
  updateQueue :: "workWrapper list"
  api :: 's

text \<open>
  A new planner: nothing assigned, nothing queued, and a predicate handler with the built-in
  predicates. The informers it starts deliver the pod events to \<open>handlePodUpdate\<close>.
\<close>

definition NewPlanner :: "int \<Rightarrow> int \<Rightarrow> 's \<Rightarrow> err + PredicateHandler \<times> 's PodSetPlanner" where
  "NewPlanner callTimeout parallelism_option s =
     (case New [WithCallTimeout callTimeout, WithParallelism parallelism_option] of
        Inl e \<Rightarrow> Inl (Wrapped ''error creating predicate handler: '' e)
      | Inr predicateHandler \<Rightarrow>
          Inr (predicateHandler, \<lparr>podToNodeMap = Map.empty, updateQueue = [], api = s\<rparr>))"

text \<open>\<^verbatim>\<open>doUpdate\<close>: run the removal; the error is returned only when it is worth a retry.\<close>

definition doUpdate :: "'s kube \<Rightarrow> workWrapper \<Rightarrow> 's \<Rightarrow> err option \<times> 's" where
  "doUpdate kc w s =
     (case client_Delete kc (w_name w) (w_namespace w) (w_podset w) s of
        ((updateFailed, err), s') \<Rightarrow>
          (case err of
             None \<Rightarrow> (None, s')
           | Some e \<Rightarrow> if \<not> updateFailed then (None, s') else (Some e, s')))"

definition removePodFromPlanner :: "'s kube \<Rightarrow> Pod \<Rightarrow> 's PodSetPlanner \<Rightarrow> 's PodSetPlanner" where
  "removePodFromPlanner kc pod p =
     (let podset = label_of ''planner.ciena.io/pod-set'' (pod_Labels pod)
      in if podset = '''' then p
         else
           let w = \<lparr>w_name = pod_Name pod, w_namespace = pod_Namespace pod, w_podset = podset\<rparr>
           in case doUpdate kc w (api p) of
                (None, s') \<Rightarrow> p\<lparr>api := s'\<rparr>
              | (Some e, s') \<Rightarrow> p\<lparr>api := s', updateQueue := updateQueue p @ [w]\<rparr>)"

definition handlePodDeleteWithLock :: "'s kube \<Rightarrow> Pod \<Rightarrow> 's PodSetPlanner \<Rightarrow> 's PodSetPlanner" where
  "handlePodDeleteWithLock kc pod p =
     removePodFromPlanner kc pod (p\<lparr>podToNodeMap := (podToNodeMap p)(pod_key pod := None)\<rparr>)"

definition handlePodUpdate :: "'s kube \<Rightarrow> Pod \<Rightarrow> Pod \<Rightarrow> 's PodSetPlanner \<Rightarrow> 's PodSetPlanner" where
  "handlePodUpdate kc oldPod newPod p =
     (if pod_Phase oldPod \<noteq> PodRunning \<and> pod_Phase newPod = PodRunning
      then p\<lparr>podToNodeMap := (podToNodeMap p)(pod_key newPod := None)\<rparr>
      else if pod_DeletionTimestamp oldPod = None \<and> pod_DeletionTimestamp newPod \<noteq> None
      then handlePodDeleteWithLock kc newPod p
      else p)"

definition processUpdate :: "'s kube \<Rightarrow> workWrapper \<Rightarrow> 's PodSetPlanner \<Rightarrow> 's PodSetPlanner" where
  "processUpdate kc item p =
     (case doUpdate kc item (api p) of
        (None, s') \<Rightarrow> p\<lparr>api := s'\<rparr>
      | (Some e, s') \<Rightarrow> p\<lparr>api := s', updateQueue := updateQueue p @ [item]\<rparr>)"

definition processUpdateEvents :: "'s kube \<Rightarrow> 's PodSetPlanner \<Rightarrow> 's PodSetPlanner" where
  "processUpdateEvents kc p =
     (case updateQueue p of
        [] \<Rightarrow> p
      | item # items \<Rightarrow> processUpdate kc item (p\<lparr>updateQueue := items\<rparr>))"


section \<open>Eligible nodes\<close>

definition no_schedule :: "Node \<Rightarrow> bool" where
  "no_schedule n \<longleftrightarrow>
     list_ex (\<lambda>t. taint_Effect t = EffectNoSchedule \<or> taint_Effect t = EffectNoExecute) (node_Taints n)"

definition prefer_no_schedule :: "Node \<Rightarrow> bool" where
  "prefer_no_schedule n \<longleftrightarrow> list_ex (\<lambda>t. taint_Effect t = EffectPreferNoSchedule) (node_Taints n)"

lemma taint_flags_eq:
  "taint_flags ts p n =
     (p \<or> list_ex (\<lambda>t. taint_Effect t = EffectPreferNoSchedule) ts,
      n \<or> list_ex (\<lambda>t. taint_Effect t = EffectNoSchedule \<or> taint_Effect t = EffectNoExecute) ts)"
  by (induction ts p n rule: taint_flags.induct) auto

lemma eligible_loop_eq:
  "eligible_loop nodes e p =
     (e @ filter (\<lambda>n. \<not> no_schedule n) nodes,
      p @ filter (\<lambda>n. no_schedule n \<and> prefer_no_schedule n) nodes)"
  by (induction nodes e p rule: eligible_loop.induct)
    (simp_all add: taint_flags_eq no_schedule_def prefer_no_schedule_def)

text \<open>
  C30: the nodes that can be planned on are those without a \<open>NoSchedule\<close> or \<open>NoExecute\<close> taint, and
  only if there is no such node at all, those that have such a taint and a
  \<open>PreferNoSchedule\<close> taint besides. A \<open>PreferNoSchedule\<close> taint alone never counts against
  a node.
\<close>

theorem getEligibleNodes_correct:
  "getEligibleNodes (Inr nodes) = Inr
     (if list_ex (\<lambda>n. \<not> no_schedule n) nodes then filter (\<lambda>n. \<not> no_schedule n) nodes
      else filter prefer_no_schedule nodes)"
proof (cases "list_ex (\<lambda>n. \<not> no_schedule n) nodes")
  case True
  then have "filter (\<lambda>n. \<not> no_schedule n) nodes \<noteq> []" by (auto simp: filter_eq_nil_iff list_ex_iff)
  with True show ?thesis by (simp add: getEligibleNodes_def eligible_loop_eq)
next
  case False
  then have "filter (\<lambda>n. no_schedule n \<and> prefer_no_schedule n) nodes = filter prefer_no_schedule nodes"
    by (auto simp: list_ex_iff intro: filter_cong)
  moreover from False have "filter (\<lambda>n. \<not> no_schedule n) nodes = []"
    by (auto simp: filter_eq_nil_iff list_ex_iff)
  ultimately show ?thesis using False by (simp add: getEligibleNodes_def eligible_loop_eq)
qed

section \<open>Finding a node\<close>

lemma list_all2_in_set2: "list_all2 P xs ys \<Longrightarrow> y \<in> set ys \<Longrightarrow> \<exists>x \<in> set xs. P x y"
  by (induction xs ys rule: list_all2_induct) auto

lemma candidate_nodes_Inr:
  "candidate_nodes m pod names = Inr ns \<longleftrightarrow> list_all2 (\<lambda>name n. m name = Some n) names ns"
proof (induction names arbitrary: ns)
  case (Cons name names)
  show ?case
    by (auto simp: list_all2_Cons1 Cons.IH [symmetric] split: option.splits sum.splits)
qed auto

definition node_map :: "Node list \<Rightarrow> string \<rightharpoonup> Node" where
  "node_map nodes = map_of (rev (map (\<lambda>node. (node_Name node, node)) nodes))"

lemma node_map_Some: "node_map nodes name = Some n \<Longrightarrow> n \<in> set nodes \<and> node_Name n = name"
  by (auto simp: node_map_def dest!: map_of_SomeD)

lemma node_map_dom: "dom (node_map nodes) = node_Name ` set nodes"
  by (auto simp: node_map_def dom_map_of_conv_image_fst image_image)

text \<open>The worker pool runs no piece twice, and each piece unless it is cut short.\<close>

definition runs_ok :: "PredicateHandler \<Rightarrow> plan_env \<Rightarrow> bool" where
  "runs_ok ph env \<longleftrightarrow>
     (\<forall>n. \<exists>c. Until (parallelism ph) n c (env_filters env n)) \<and>
     (\<forall>n. \<exists>c. Until (parallelism ph) n c (env_scores env n))"

definition runs_complete :: "PredicateHandler \<Rightarrow> plan_env \<Rightarrow> bool" where
  "runs_complete ph env \<longleftrightarrow>
     (\<forall>n. Until (parallelism ph) n False (env_filters env n)) \<and>
     (\<forall>n. Until (parallelism ph) n False (env_scores env n))"

lemma runs_complete_ok: "runs_complete ph env \<Longrightarrow> runs_ok ph env"
  by (auto simp: runs_complete_def runs_ok_def)

lemma scores_names:
  assumes "Until par (length nodes) c sched"
  shows "ns_Name ` set (RunScorePredicates ph cl hdl pod nodes sched) \<subseteq> node_Name ` set nodes"
  using Until_runs_no_piece_twice [OF assms] by (auto simp: RunScore_map)

lemma findFit_Inr:
  assumes fit: "findFit ph env pods m pod nodes names = (Inr n, m')" and runs: "runs_ok ph env"
  shows "n \<in> set nodes \<and> node_Name n \<in> set names \<and> m' = m(pod_key pod \<mapsto> node_Name n)"
proof -
  let ?hdl = "newPodSetHandler (env_lister env) m pods"
  obtain cs name where cs: "candidate_nodes (node_map nodes) (pod_Name pod) names = Inr cs"
    and sel: "selectNode (RunScorePredicates ph (env_cluster env) ?hdl pod cs (env_scores env (length cs)))
      (env_draws env) = Inr name"
    and n: "node_map nodes name = Some n" "m' = m(pod_key pod \<mapsto> node_Name n)"
    using fit by (auto simp: findFit_def Let_def setPodNode_def node_map_def
        split: if_splits sum.splits option.splits)
  obtain c where "Until (parallelism ph) (length cs) c (env_scores env (length cs))"
    using runs by (auto simp: runs_ok_def)
  from scores_names [OF this] selectNode_name [OF sel] have "name \<in> node_Name ` set cs" by blast
  then obtain n' where "n' \<in> set cs" "name = node_Name n'" by blast
  then obtain name' where "name' \<in> set names" "node_map nodes name' = Some n'"
    using cs by (auto simp: candidate_nodes_Inr dest: list_all2_in_set2)
  with node_map_Some n \<open>name = node_Name n'\<close> show ?thesis by (metis)
qed


lemma findFit_Inl: "findFit ph env pods m pod nodes names = (Inl e, m') \<Longrightarrow> m' = m"
  by (auto simp: findFit_def Let_def split: if_splits sum.splits option.splits)

section \<open>Planning one pod\<close>

definition active :: "Pod \<Rightarrow> bool" where
  "active pod \<longleftrightarrow> pod_Phase pod \<noteq> PodFailed \<and> pod_DeletionTimestamp pod = None"

text \<open>
  What the planner checks before it places a pod on a node in state \<open>b\<close>: the node is among the
  eligible nodes that came with the request, or, for the other pods of the set, it passes
  the filters, which see the pods that are assigned in \<open>b\<close>.
\<close>

definition accepted :: "PredicateHandler \<Rightarrow> plan_env \<Rightarrow> Pod list \<Rightarrow> Pod \<Rightarrow> build \<Rightarrow> Node \<Rightarrow> bool" where
  "accepted ph env pods pod b n \<longleftrightarrow>
     (case b_schedulingMap b (pod_key pod) of
        Some names \<Rightarrow> node_Name n \<in> set names
      | None \<Rightarrow> IsSuccess (RunFilterPredicates (filterPredicates ph) (env_cluster env)
          (newPodSetHandler (env_lister env) (b_podToNodeMap b) pods) pod n))"

lemma getEligibleNodesForPod_Inr:
  assumes "getEligibleNodesForPod ph env hdl pod nodes = Inr names" and "runs_ok ph env"
  shows "set names \<subseteq> node_Name ` {n \<in> set nodes.
    IsSuccess (RunFilterPredicates (filterPredicates ph) (env_cluster env) hdl pod n)}"
proof -
  obtain c where "Until (parallelism ph) (length nodes) c (env_filters env (length nodes))"
    using assms(2) by (auto simp: runs_ok_def)
  then have "set (map ((!) nodes) (env_filters env (length nodes))) \<subseteq> set nodes"
    using Until_runs_no_piece_twice by force
  with assms(1) show ?thesis
    by (auto simp: getEligibleNodesForPod_def Let_def FindNodes_filter split: if_splits intro!: imageI)
qed

lemma cached_accepted:
  assumes runs: "runs_ok ph env" and names: "distinct (map node_Name nodes)"
    and elig: "getEligibleNodes_cached ph env (newPodSetHandler (env_lister env) (b_podToNodeMap b) pods)
      pod nodes (b_schedulingMap b) = (Inr ns, sm)"
    and n: "n \<in> set nodes" "node_Name n \<in> set ns"
  shows "accepted ph env pods pod b n"
proof (cases "b_schedulingMap b (pod_key pod)")
  case None
  let ?hdl = "newPodSetHandler (env_lister env) (b_podToNodeMap b) pods"
  from None elig have "getEligibleNodesForPod ph env ?hdl pod nodes = Inr ns"
    by (auto simp: getEligibleNodes_cached_def split: sum.splits)
  from getEligibleNodesForPod_Inr [OF this runs] n(2) obtain n' where
    n': "n' \<in> set nodes" "node_Name n' = node_Name n"
      "IsSuccess (RunFilterPredicates (filterPredicates ph) (env_cluster env) ?hdl pod n')"
    by fastforce
  with names n(1) have "n' = n" by (metis distinct_map inj_onD)
  with n' None show ?thesis by (simp add: accepted_def)
next
  case (Some names')
  with elig n(2) show ?thesis by (auto simp: accepted_def getEligibleNodes_cached_def)
qed

lemma plan_pod_cases:
  assumes runs: "runs_ok ph env" and names: "distinct (map node_Name nodes)"
  obtains (skipped) "\<not> active pod" "plan_pod ph env pods nodes pod b = b"
  | (known) node where "active pod" "GetNodeName (env_lister env) (b_podToNodeMap b) pod = Inr node"
      "plan_pod ph env pods nodes pod b =
         b\<lparr>b_assignmentMap := AList.update (pod_Name pod) node (b_assignmentMap b)\<rparr>"
  | (failed) e where "active pod" "GetNodeName (env_lister env) (b_podToNodeMap b) pod = Inl e"
      "b_podToNodeMap (plan_pod ph env pods nodes pod b) = b_podToNodeMap b"
      "b_assignmentMap (plan_pod ph env pods nodes pod b) = b_assignmentMap b"
  | (placed) e n where "active pod" "GetNodeName (env_lister env) (b_podToNodeMap b) pod = Inl e"
      "n \<in> set nodes" "accepted ph env pods pod b n"
      "b_podToNodeMap (plan_pod ph env pods nodes pod b) = (b_podToNodeMap b)(pod_key pod \<mapsto> node_Name n)"
      "b_assignmentMap (plan_pod ph env pods nodes pod b) =
         AList.update (pod_Name pod) (node_Name n) (b_assignmentMap b)"
proof (cases "active pod")
  case False
  then show thesis by (intro skipped) (auto simp: plan_pod_def active_def)
next
  case True
  then have act: "\<not> (pod_Phase pod = PodFailed \<or> pod_DeletionTimestamp pod \<noteq> None)"
    by (simp add: active_def)
  let ?hdl = "newPodSetHandler (env_lister env) (b_podToNodeMap b) pods"
  show thesis
  proof (cases "GetNodeName (env_lister env) (b_podToNodeMap b) pod")
    case (Inr node)
    with True act show ?thesis by (intro known) (simp_all add: plan_pod_def)
  next
    case (Inl e)
    obtain r sm where elig: "getEligibleNodes_cached ph env ?hdl pod nodes (b_schedulingMap b) = (r, sm)"
      by fastforce
    show ?thesis
    proof (cases r)
      case (Inl e')
      with True act \<open>GetNodeName _ _ _ = Inl e\<close> elig show ?thesis
        by (intro failed) (simp_all add: plan_pod_def)
    next
      case (Inr ns)
      obtain r' m' where fit: "findFit ph env pods (b_podToNodeMap b) pod nodes ns = (r', m')" by fastforce
      show ?thesis
      proof (cases r')
        case (Inl e'')
        with True act \<open>GetNodeName _ _ _ = Inl e\<close> elig Inr fit findFit_Inl [of ph env pods] show ?thesis
          by (intro failed) (simp_all add: plan_pod_def)
      next
        case (Inr n)
        have n: "n \<in> set nodes" "node_Name n \<in> set ns" "m' = (b_podToNodeMap b)(pod_key pod \<mapsto> node_Name n)"
          using findFit_Inr [OF _ runs] fit Inr by blast+
        have "accepted ph env pods pod b n"
          using cached_accepted [OF runs names] elig \<open>r = Inr ns\<close> n by blast
        with True act \<open>GetNodeName _ _ _ = Inl e\<close> elig \<open>r = Inr ns\<close> fit Inr n show ?thesis
          by (intro placed) (simp_all add: plan_pod_def)
      qed
    qed
  qed
qed


section \<open>Planning the pods of a set\<close>

text \<open>
  Where the assignment of a pod comes from: the state in which the loop reached the pod, and what
  the planner knew or checked there.
\<close>

definition justified ::
  "PredicateHandler \<Rightarrow> (Pod \<Rightarrow> plan_env) \<Rightarrow> Pod list \<Rightarrow> Node list \<Rightarrow> build \<Rightarrow> Pod \<Rightarrow> string \<Rightarrow> bool" where
  "justified ph envs pods nodes b pod node \<longleftrightarrow>
     active pod \<and>
     (GetNodeName (env_lister (envs pod)) (b_podToNodeMap b) pod = Inr node \<or>
      (\<exists>n \<in> set nodes. node_Name n = node \<and> accepted ph (envs pod) pods pod b n))"

lemma plan_pods_append:
  "plan_pods ph envs pods nodes (xs @ ys) b =
     plan_pods ph envs pods nodes ys (plan_pods ph envs pods nodes xs b)"
  by (induction xs arbitrary: b) auto

lemma plan_pods_justified:
  assumes runs: "\<And>pod. pod \<in> set podList \<Longrightarrow> runs_ok ph (envs pod)"
    and names: "distinct (map node_Name nodes)"
    and res: "map_of (b_assignmentMap (plan_pods ph envs pods nodes podList b0)) name = Some node"
    and start: "b_assignmentMap b0 = []"
  shows "\<exists>pre pod post. podList = pre @ pod # post \<and> pod_Name pod = name \<and>
    justified ph envs pods nodes (plan_pods ph envs pods nodes pre b0) pod node"
  using runs res
proof (induction podList rule: rev_induct)
  case Nil
  then show ?case by (simp add: start)
next
  case (snoc pod podList)
  let ?b = "plan_pods ph envs pods nodes podList b0"
  have old: ?case if "map_of (b_assignmentMap ?b) name = Some node"
    using snoc.IH snoc.prems(1) that by force
  have new: ?case if "pod_Name pod = name" "justified ph envs pods nodes ?b pod node"
    using that by blast
  have res: "map_of (b_assignmentMap (plan_pod ph (envs pod) pods nodes pod ?b)) name = Some node"
    using snoc.prems(2) by (simp add: plan_pods_append)
  have "runs_ok ph (envs pod)" using snoc.prems(1) by simp
  from this names show ?case
  proof (cases rule: plan_pod_cases [where pod = pod and b = ?b and pods = pods])
    case (known node')
    with res show ?thesis
      using old new by (cases "name = pod_Name pod") (auto simp: go_map justified_def)
  next
    case (placed e n)
    with res show ?thesis
      using old new by (cases "name = pod_Name pod") (auto simp: go_map justified_def)
  qed (use res old in auto)
qed

text \<open>
  C3: a plan is sound. Every assignment in it belongs to a pod of the list that has neither failed
  nor is being deleted; and in the state in which the loop reached this pod, either the pod
  was already on that node, or the node could be planned on and was accepted: it was among
  the nodes that came with the request, or it passed the filters, which saw all the pods
  assigned before.
\<close>

theorem BuildPlan_sound:
  assumes "\<forall>pod \<in> set podList. runs_ok ph (envs pod)"
    and "getEligibleNodes nodeLister = Inr nodes" and "distinct (map node_Name nodes)"
    and "BuildPlan ph nodeLister envs pods podList schedulingMap m = (Inr as, m')"
    and "map_of as name = Some node"
  shows "\<exists>pre pod post. podList = pre @ pod # post \<and> pod_Name pod = name \<and>
    justified ph envs pods nodes
      (plan_pods ph envs pods nodes pre \<lparr>b_podToNodeMap = m, b_schedulingMap = schedulingMap,
         b_assignmentMap = [], b_failedPodList = []\<rparr>) pod node"
  using assms by (intro plan_pods_justified) (auto simp: BuildPlan_def Let_def)

section \<open>Remembered assignments\<close>

text \<open>What planning one pending pod does to the remembered assignments and to the plan.\<close>

lemma findFit_map: "findFit ph env pods m pod nodes names = (Inr n, m') \<Longrightarrow> m' = m(pod_key pod \<mapsto> node_Name n)"
  by (auto simp: findFit_def Let_def setPodNode_def split: if_splits sum.splits option.splits)

lemma GetNodeName_pending:
  "pod_HostIP pod = '''' \<Longrightarrow> GetNodeName l m pod = Inr node \<longleftrightarrow> m (pod_key pod) = Some node"
  by (auto simp: GetNodeName_def getPodNode_def split: option.splits)

lemma plan_pod_known:
  "active pod \<Longrightarrow> GetNodeName (env_lister env) (b_podToNodeMap b) pod = Inr node \<Longrightarrow>
     plan_pod ph env pods nodes pod b =
       b\<lparr>b_assignmentMap := AList.update (pod_Name pod) node (b_assignmentMap b)\<rparr>"
  by (auto simp: plan_pod_def active_def)

lemma plan_pod_pending:
  assumes "pod_HostIP pod = ''''"
    and b'_def: "b' = plan_pod ph env pods nodes pod b"
  shows "b_podToNodeMap b \<subseteq>\<^sub>m b_podToNodeMap b'"
    and "map_of (b_assignmentMap b') = map_of (b_assignmentMap b) \<or>
      map_of (b_assignmentMap b') = (map_of (b_assignmentMap b))(pod_Name pod := b_podToNodeMap b' (pod_key pod))"
proof -
  let ?m = "b_podToNodeMap b"
  have "?m \<subseteq>\<^sub>m b_podToNodeMap b' \<and>
      (map_of (b_assignmentMap b') = map_of (b_assignmentMap b) \<or>
       map_of (b_assignmentMap b') = (map_of (b_assignmentMap b))(pod_Name pod := b_podToNodeMap b' (pod_key pod)))"
  proof (cases "?m (pod_key pod)")
    case (Some node)
    then have "GetNodeName (env_lister env) ?m pod = Inr node" by (simp add: GetNodeName_pending assms)
    with Some show ?thesis
      unfolding b'_def plan_pod_def by (simp add: go_map)
  next
    case None
    then have "?m \<subseteq>\<^sub>m ?m(pod_key pod \<mapsto> x)" for x by (auto simp: map_le_def)
    moreover obtain e where "GetNodeName (env_lister env) ?m pod = Inl e"
      using None GetNodeName_pending [OF assms(1)] by (metis old.sum.exhaust option.distinct(1))
    ultimately show ?thesis
      unfolding b'_def plan_pod_def
      by (auto simp: go_map split: prod.splits sum.splits dest: findFit_map findFit_Inl)
  qed
  then show "?m \<subseteq>\<^sub>m b_podToNodeMap b'"
    and "map_of (b_assignmentMap b') = map_of (b_assignmentMap b) \<or>
      map_of (b_assignmentMap b') = (map_of (b_assignmentMap b))(pod_Name pod := b_podToNodeMap b' (pod_key pod))"
    by auto
qed

lemma plan_pods_pending:
  assumes "\<forall>pod \<in> set podList. pod_HostIP pod = ''''"
  shows "b_podToNodeMap b \<subseteq>\<^sub>m b_podToNodeMap (plan_pods ph envs pods nodes podList b)"
    and "name \<notin> pod_Name ` set podList \<Longrightarrow>
      map_of (b_assignmentMap (plan_pods ph envs pods nodes podList b)) name = map_of (b_assignmentMap b) name"
  using assms
proof (induction podList arbitrary: b)
  case (Cons pod podList)
  {
    case (1 b)
    then have "pod_HostIP pod = []" and "\<forall>pod \<in> set podList. pod_HostIP pod = []" by simp_all
    from map_le_trans [OF plan_pod_pending(1) [OF this(1) refl] Cons.IH(1) [OF this(2)]] show ?case
      unfolding plan_pods.simps .
  next
    case (2 b)
    have pend: "pod_HostIP pod = []" and name: "name \<noteq> pod_Name pod" using 2 by auto
    have "map_of (b_assignmentMap (plan_pod ph (envs pod) pods nodes pod b)) name =
        map_of (b_assignmentMap b) name"
      using plan_pod_pending(2) [where ph = ph and env = "envs pod" and pods = pods and nodes = nodes
          and b = b, OF pend refl] name by auto
    moreover have "name \<notin> pod_Name ` set podList" "\<forall>pod \<in> set podList. pod_HostIP pod = []"
      using 2 by auto
    ultimately show ?case using Cons.IH(2) by simp
  }
qed auto

lemma plan_pods_remembered:
  assumes "\<forall>pod \<in> set podList. pod_HostIP pod = ''''" and "distinct (map pod_Name podList)"
    and "pod \<in> set podList" and "map_of (b_assignmentMap b) (pod_Name pod) = None"
    and "map_of (b_assignmentMap (plan_pods ph envs pods nodes podList b)) (pod_Name pod) = Some node"
  shows "active pod \<and> b_podToNodeMap (plan_pods ph envs pods nodes podList b) (pod_key pod) = Some node"
  using assms
proof (induction podList arbitrary: b)
  case (Cons p podList)
  let ?b = "plan_pod ph (envs p) pods nodes p b"
  have pend: "\<forall>pod \<in> set podList. pod_HostIP pod = ''''" "pod_HostIP p = ''''" using Cons.prems(1) by auto
  note step = plan_pod_pending(2) [where ph = ph and env = "envs p" and pods = pods and nodes = nodes
      and b = b, OF pend(2) refl]
  show ?case
  proof (cases "pod = p")
    case True
    then have "pod_Name p \<notin> pod_Name ` set podList" using Cons.prems(2) by auto
    with Cons.prems(5) True have as: "map_of (b_assignmentMap ?b) (pod_Name p) = Some node"
      by (simp add: plan_pods_pending(2) [OF pend(1)])
    with step Cons.prems(4) True have "b_podToNodeMap ?b (pod_key p) = Some node" by auto
    then have "b_podToNodeMap (plan_pods ph envs pods nodes podList ?b) (pod_key p) = Some node"
      using plan_pods_pending(1) [OF pend(1), of ?b] by (auto simp: map_le_def dom_def)
    moreover have "active p"
      using as Cons.prems(4) True by (auto simp: plan_pod_def active_def split: if_splits)
    ultimately show ?thesis using True by simp
  next
    case False
    then have pod: "pod \<in> set podList" using Cons.prems(3) by simp
    moreover have "pod_Name p \<notin> pod_Name ` set podList" using Cons.prems(2) by simp
    ultimately have "pod_Name pod \<noteq> pod_Name p" by (metis imageI)
    with step Cons.prems(4) have "map_of (b_assignmentMap ?b) (pod_Name pod) = None" by auto
    with Cons.IH [OF pend(1) _ pod, of ?b] Cons.prems(2,5) show ?thesis by simp
  qed
qed simp

lemma plan_pods_repeat:
  assumes "\<forall>pod \<in> set podList. pod_HostIP pod = ''''" and "distinct (map pod_Name podList)"
    and "pod \<in> set podList" and "active pod" and "b_podToNodeMap b (pod_key pod) = Some node"
  shows "map_of (b_assignmentMap (plan_pods ph envs pods nodes podList b)) (pod_Name pod) = Some node"
  using assms
proof (induction podList arbitrary: b)
  case (Cons p podList)
  have pend: "\<forall>pod \<in> set podList. pod_HostIP pod = ''''" "pod_HostIP p = ''''" using Cons.prems(1) by auto
  show ?case
  proof (cases "pod = p")
    case True
    then have "GetNodeName (env_lister (envs p)) (b_podToNodeMap b) p = Inr node"
      using Cons.prems(5) pend(2) by (simp add: GetNodeName_pending)
    moreover have "pod_Name p \<notin> pod_Name ` set podList" using Cons.prems(2) by auto
    ultimately show ?thesis
      using True Cons.prems(4) plan_pods_pending(2) [OF pend(1), of "pod_Name p"]
      by (simp add: plan_pod_known go_map)
  next
    case False
    have "b_podToNodeMap (plan_pod ph (envs p) pods nodes p b) (pod_key pod) = Some node"
      using plan_pod_pending(1) [where b = b, OF pend(2) refl] Cons.prems(5) by (force simp: map_le_def dom_def)
    with False Cons.IH [OF pend(1)] Cons.prems show ?thesis by simp
  qed
qed simp

text \<open>
  C8: assignments are remembered. A second plan for the same pending pods repeats every
  assignment of the first one, whatever has changed meanwhile: the nodes, the other pods, the
  random numbers and the eligible nodes that come with the new request.
\<close>

theorem BuildPlan_repeats:
  assumes "\<forall>pod \<in> set podList. pod_HostIP pod = ''''" and "distinct (map pod_Name podList)"
    and "BuildPlan ph nodeLister envs pods podList schedulingMap m = (Inr as, m')"
    and "BuildPlan ph' nodeLister' envs' pods' podList schedulingMap' m' = (Inr as', m'')"
  shows "map_of as \<subseteq>\<^sub>m map_of as'"
  unfolding map_le_def
proof
  fix name
  assume "name \<in> dom (map_of as)"
  then obtain node where node: "map_of as name = Some node" by blast
  obtain nodes nodes' where nodes: "getEligibleNodes nodeLister = Inr nodes"
      "getEligibleNodes nodeLister' = Inr nodes'"
    using assms(3,4) by (auto simp: BuildPlan_def split: sum.splits)
  let ?b = "\<lambda>m sm. \<lparr>b_podToNodeMap = m, b_schedulingMap = sm, b_assignmentMap = [], b_failedPodList = []\<rparr>"
  let ?fin = "plan_pods ph envs pods nodes podList (?b m schedulingMap)"
  let ?fin' = "plan_pods ph' envs' pods' nodes' podList (?b m' schedulingMap')"
  have e: "as = b_assignmentMap ?fin" "m' = b_podToNodeMap ?fin" "as' = b_assignmentMap ?fin'"
    using assms(3,4) nodes by (auto simp: BuildPlan_def Let_def)
  have "name \<in> pod_Name ` set podList"
    using plan_pods_pending(2) [OF assms(1), of name] node e(1) by fastforce
  then obtain pod where pod: "pod \<in> set podList" "pod_Name pod = name" by blast
  have "active pod \<and> m' (pod_key pod) = Some node"
    using plan_pods_remembered [OF assms(1,2) pod(1), of "?b m schedulingMap"] node e(1,2) pod(2) by auto
  then show "map_of as name = map_of as' name"
    using plan_pods_repeat [OF assms(1,2) pod(1), of "?b m' schedulingMap'"] node e(3) pod(2) by auto
qed

section \<open>A small cluster\<close>

text \<open>Two nodes, the planner's own predicate handler, one worker, and pending pods.\<close>

definition ex_ph :: PredicateHandler where
  "ex_ph = projr (New [WithCallTimeout 1, WithParallelism 1])"

lemma ex_ph_New: "New [WithCallTimeout 1, WithParallelism 1] = Inr ex_ph" and ex_ph_par: "parallelism ex_ph = 1"
  using New_planner_ex by (auto simp: ex_ph_def)

lemmas ex_ph_simps = New_planner(1,2) [OF ex_ph_New] ex_ph_par

definition ex_node :: "string \<Rightarrow> Node" where
  "ex_node name = blank_node\<lparr>node_Name := name\<rparr>"

definition ex_pod :: "string \<Rightarrow> Pod" where
  "ex_pod name = blank_pod\<lparr>pod_Name := name\<rparr>"

definition ex_env :: plan_env where
  "ex_env = \<lparr>env_lister = Inr [ex_node ''n1'', ex_node ''n2''], env_cluster = ex_cluster [],
     env_filters = (\<lambda>n. [0..<n]), env_scores = (\<lambda>n. [0..<n]), env_draws = []\<rparr>"

lemma ex_env_complete: "runs_complete ex_ph ex_env"
  using Until_sequential by (simp add: runs_complete_def ex_env_def ex_ph_par)

lemma ex_node_simps [simp]: "node_Name (ex_node n) = n" "node_Taints (ex_node n) = []"
  by (simp_all add: ex_node_def blank_node_def)

lemma ex_pod_simps [simp]:
  "pod_Name (ex_pod n) = n" "pod_HostIP (ex_pod n) = ''''" "active (ex_pod n)"
  "pod_Phase (ex_pod n) = PodPending" "pod_DeletionTimestamp (ex_pod n) = None" "pod_Namespace (ex_pod n) = ''''"
  by (simp_all add: ex_pod_def blank_pod_def active_def)

lemma ex_eligible: "getEligibleNodes (Inr [ex_node ''n1'', ex_node ''n2'']) = Inr [ex_node ''n1'', ex_node ''n2'']"
  by (simp add: getEligibleNodes_def)

lemma ex_passes:
  assumes "podset_List l m [ex_pod n] (ex_node k) = Inr []"
  shows "IsSuccess (RunFilterPredicates in_tree_filters (ex_cluster []) (newPodSetHandler l m [ex_pod n])
    (ex_pod n) (ex_node k))"
  using assms
  by (simp add: in_tree_success podAntiAffinity_Filter_def podIsADuplicate_Filter_def
      podFitsNode_Filter_def ex_cluster_def ex_pod_def ex_node_def blank_pod_def blank_node_def
      getPodAntiAffinityTerms_def checkPodsWithAntiAffinityExist_def computePodResourceRequest_def
      emptyResource_def mergePods_def getPodContainerKeys_def newPodSetHandler_def)

lemma ex_BuildPlan:
  "BuildPlan ex_ph (Inr [ex_node ''n1'', ex_node ''n2'']) (\<lambda>_. ex_env) [ex_pod ''a''] [ex_pod ''a'']
     Map.empty Map.empty = (Inr [(''a'', ''n2'')], [pod_key (ex_pod ''a'') \<mapsto> ''n2''])"
proof -
  have "IsSuccess (RunFilterPredicates in_tree_filters (ex_cluster [])
      (newPodSetHandler l Map.empty [ex_pod ''a'']) (ex_pod ''a'') (ex_node k))" for l k
    by (rule ex_passes) (simp add: podset_List_def GetNodeName_def getPodNode_def)
  then show ?thesis
    by (simp add: BuildPlan_def ex_eligible plan_pod_def GetNodeName_def getPodNode_def ex_env_def
        getEligibleNodes_cached_def getEligibleNodesForPod_def FindNodes_filter ex_ph_simps
        findFit_def RunScore_map selectNode_def setPodNode_def numeral_2_eq_2)
qed

theorem BuildPlan_sound_witness:
  "justified ex_ph (\<lambda>_. ex_env) [ex_pod ''a''] [ex_node ''n1'', ex_node ''n2'']
     \<lparr>b_podToNodeMap = Map.empty, b_schedulingMap = Map.empty, b_assignmentMap = [],
      b_failedPodList = []\<rparr> (ex_pod ''a'') ''n2''"
proof -
  have "\<forall>pod \<in> set [ex_pod ''a'']. runs_ok ex_ph ((\<lambda>_. ex_env) pod)"
    using runs_complete_ok [OF ex_env_complete] by simp
  from BuildPlan_sound [OF this ex_eligible _ ex_BuildPlan, of "''a''" "''n2''"]
  show ?thesis by (auto simp: Cons_eq_append_conv)
qed

theorem BuildPlan_repeats_witness:
  "\<exists>as' m''. BuildPlan ex_ph (Inr [ex_node ''n1'']) (\<lambda>_. ex_env) [] [ex_pod ''a'']
     [pod_key (ex_pod ''a'') \<mapsto> [''n1'']] [pod_key (ex_pod ''a'') \<mapsto> ''n2''] = (Inr as', m'') \<and>
     map_of as' ''a'' = Some ''n2''"
proof -
  obtain as' m'' where run: "BuildPlan ex_ph (Inr [ex_node ''n1'']) (\<lambda>_. ex_env) [] [ex_pod ''a'']
      [pod_key (ex_pod ''a'') \<mapsto> [''n1'']] [pod_key (ex_pod ''a'') \<mapsto> ''n2''] = (Inr as', m'')"
    by (simp add: BuildPlan_def getEligibleNodes_def Let_def)
  have "map_of [(''a'', ''n2'')] \<subseteq>\<^sub>m map_of as'"
    using BuildPlan_repeats [OF _ _ ex_BuildPlan run] by simp
  with run show ?thesis by (auto simp: map_le_def)
qed

section \<open>The scheduled pod\<close>

lemma plan_pod_other:
  assumes "name \<noteq> pod_Name pod"
  shows "map_of (b_assignmentMap (plan_pod ph env pods nodes pod b)) name = map_of (b_assignmentMap b) name"
  using assms by (auto simp: plan_pod_def go_map split: sum.splits prod.splits)

lemma plan_pods_other:
  "name \<notin> pod_Name ` set podList \<Longrightarrow>
     map_of (b_assignmentMap (plan_pods ph envs pods nodes podList b)) name = map_of (b_assignmentMap b) name"
  by (induction podList arbitrary: b) (auto simp: plan_pod_other)

lemma index_pods_absent:
  "sp \<notin> pod_Name ` set items \<Longrightarrow> index_pods sp el k items idx sm = (idx, sm)"
  by (induction items arbitrary: k) auto

lemma index_pods_found:
  assumes "distinct (map pod_Name items)" and "i < length items"
  shows "index_pods (pod_Name (items ! i)) el k items idx sm = (k + i, sm(pod_key (items ! i) \<mapsto> el))"
  using assms
proof (induction items arbitrary: i k)
  case (Cons p items)
  show ?case
  proof (cases i)
    case 0
    with Cons.prems show ?thesis by (auto simp: index_pods_absent fun_upd_def)
  next
    case (Suc j)
    then have j: "j < length items" using Cons.prems(2) by simp
    then have "pod_Name (items ! j) \<in> pod_Name ` set items" by simp
    then have "pod_Name p \<noteq> pod_Name (items ! j)" using Cons.prems(1) by auto
    with Suc Cons.IH [OF _ j, of "k + 1"] Cons.prems(1) show ?thesis by simp
  qed
qed simp

lemma swap_front_hd: "i < length xs \<Longrightarrow> \<exists>rest. swap_front i xs = xs ! i # rest"
  by (cases xs) (auto simp: swap_front_def split: nat.splits)

lemma swap_front_mset: "i < length xs \<Longrightarrow> mset (swap_front i xs) = mset xs"
  using mset_swap [of i xs 0] by (cases "xs = []") (auto simp: swap_front_def)

text \<open>
  What \<^verbatim>\<open>BuildSchedulePlan\<close> does with the scheduled pod: it is planned first, with the eligible
  nodes of the request as its candidates, and no other pod touches its entry.
\<close>

lemma BuildSchedulePlan_scheduled:
  assumes items: "listPods ns (''planner.ciena.io/pod-set='' @ podSet) = Inr items"
    and dist: "distinct (map pod_Name items)" and pod: "pod \<in> set items"
    and nodes: "getEligibleNodes nodeLister = Inr nodes"
  shows "\<exists>as m' pods.
    BuildSchedulePlan ph listPods nodeLister envs ns podSet (pod_Name pod) el m = (Inr as, m') \<and>
    map_of as (pod_Name pod) = map_of (b_assignmentMap (plan_pod ph (envs pod) pods nodes pod
       \<lparr>b_podToNodeMap = m, b_schedulingMap = [pod_key pod \<mapsto> el], b_assignmentMap = [],
        b_failedPodList = []\<rparr>)) (pod_Name pod)"
proof -
  obtain i where i: "i < length items" "items ! i = pod" using pod by (auto simp: in_set_conv_nth)
  obtain rest where rest: "swap_front i items = pod # rest" using swap_front_hd [OF i(1)] i(2) by auto
  have "mset (map pod_Name (pod # rest)) = mset (map pod_Name items)"
    using swap_front_mset [OF i(1)] rest by (metis mset_map)
  then have "pod_Name pod \<notin> pod_Name ` set rest"
    using dist by (metis distinct.simps(2) list.simps(9) mset_eq_imp_distinct_iff set_map)
  note other = plan_pods_other [OF this]
  have "BuildSchedulePlan ph listPods nodeLister envs ns podSet (pod_Name pod) el m =
      BuildPlan ph nodeLister envs (pod # rest) (pod # rest) [pod_key pod \<mapsto> el] m"
    unfolding BuildSchedulePlan_def items
    using index_pods_found [OF dist i(1), of el 0 0 Map.empty] by (simp add: i(2) rest Let_def)
  then show ?thesis
    by (auto simp: BuildPlan_def nodes Let_def other)
qed

lemma findFit_succeeds:
  assumes names: "names \<noteq> []" "set names \<subseteq> node_Name ` set nodes"
    and runs: "runs_complete ph env" and par: "0 < parallelism ph"
  shows "\<exists>n m'. findFit ph env pods m pod nodes names = (Inr n, m')"
proof -
  let ?hdl = "newPodSetHandler (env_lister env) m pods"
  have "\<forall>name \<in> set names. \<exists>n. node_map nodes name = Some n"
    using names(2) unfolding node_map_dom [symmetric] by (auto simp: dom_def)
  then have csl: "list_all2 (\<lambda>name n. node_map nodes name = Some n) names
      (map (\<lambda>name. the (node_map nodes name)) names)" (is "list_all2 _ _ ?cs")
    by (auto simp: list_all2_conv_all_nth)
  define cs where "cs = ?cs"
  note csl = csl [folded cs_def]
  then have cs: "candidate_nodes (node_map nodes) (pod_Name pod) names = Inr cs"
    by (simp only: candidate_nodes_Inr)
  have complete: "Until (parallelism ph) (length cs) False (env_scores env (length cs))"
    using runs by (auto simp: runs_complete_def)
  then have "length (env_scores env (length cs)) = length names"
    using Until_each_piece [OF par] csl by (metis length_upt list_all2_lengthD mset_eq_length diff_zero)
  then have "RunScorePredicates ph (env_cluster env) ?hdl pod cs (env_scores env (length cs)) \<noteq> []"
    using names(1) by (auto simp: RunScore_map)
  then obtain name where sel: "selectNode (RunScorePredicates ph (env_cluster env) ?hdl pod cs
      (env_scores env (length cs))) (env_draws env) = Inr name"
    by (cases "RunScorePredicates ph (env_cluster env) ?hdl pod cs (env_scores env (length cs))")
      (auto simp: selectNode_def)
  obtain n' where n': "n' \<in> set cs" "name = node_Name n'"
    using selectNode_name [OF sel] scores_names [OF complete] by blast
  then have "n' \<in> set nodes" using csl by (auto dest!: list_all2_in_set2 node_map_Some)
  then obtain n where "node_map nodes name = Some n"
    using n' node_map_dom [of nodes] by (metis domD imageI)
  with sel cs names(1) show ?thesis by (simp add: findFit_def node_map_def [symmetric] Let_def)
qed

lemma candidate_nodes_unknown:
  "\<not> set names \<subseteq> dom m \<Longrightarrow>
     \<exists>e. candidate_nodes m pod names = Inl e \<and> errors_is e ErrNoNodesFound"
proof (induction names)
  case (Cons name names)
  then show ?case by (cases "m name"; cases "candidate_nodes m pod names") (auto simp: subset_iff)
qed simp

lemma scheduled_pod_served:
  assumes "listPods ns (''planner.ciena.io/pod-set='' @ podSet) = Inr items"
    and "distinct (map pod_Name items)" and "pod \<in> set items"
    and "active pod" and "pod_HostIP pod = ''''" and "m (pod_key pod) = None"
    and "getEligibleNodes nodeLister = Inr nodes"
    and "el \<noteq> []" and "set el \<subseteq> node_Name ` set nodes"
    and "runs_complete ph (envs pod)" and "0 < parallelism ph"
  shows "\<exists>as m' node. BuildSchedulePlan ph listPods nodeLister envs ns podSet (pod_Name pod) el m = (Inr as, m') \<and>
    map_of as (pod_Name pod) = Some node \<and> node \<in> set el"
proof -
  let ?b = "\<lparr>b_podToNodeMap = m, b_schedulingMap = [pod_key pod \<mapsto> el], b_assignmentMap = [],
    b_failedPodList = []\<rparr>"
  obtain as m' pods where run:
      "BuildSchedulePlan ph listPods nodeLister envs ns podSet (pod_Name pod) el m = (Inr as, m')"
      "map_of as (pod_Name pod) = map_of (b_assignmentMap (plan_pod ph (envs pod) pods nodes pod ?b)) (pod_Name pod)"
    using BuildSchedulePlan_scheduled [where ns = ns and podSet = podSet and listPods = listPods,
        OF assms(1,2,3,7)] by blast
  obtain n m1 where fit: "findFit ph (envs pod) pods m pod nodes el = (Inr n, m1)"
    using findFit_succeeds [OF assms(8,9,10,11)] by blast
  have "node_Name n \<in> set el"
    using findFit_Inr [OF fit runs_complete_ok [OF assms(10)]] by blast
  moreover have "map_of (b_assignmentMap (plan_pod ph (envs pod) pods nodes pod ?b)) (pod_Name pod) =
      Some (node_Name n)"
    using assms(4-6) fit
    by (simp add: plan_pod_def active_def GetNodeName_def getPodNode_def getEligibleNodes_cached_def)
  ultimately show ?thesis using run by auto
qed

text \<open>
  C7: the pod that the scheduler asks about is served. If it is pending and not assigned yet, and
  the eligible nodes of the request are not empty and are all nodes that the planner plans on,
  then the plan assigns to it one of these nodes, when the lists of pods and nodes are answered and the runs of
  the worker pool are not cut short.
\<close>

theorem BuildSchedulePlan_serves_scheduled_pod:
  assumes "listPods ns (''planner.ciena.io/pod-set='' @ podSet) = Inr items"
    and "distinct (map pod_Name items)" and "pod \<in> set items"
    and "active pod" and "pod_HostIP pod = ''''" and "m (pod_key pod) = None"
    and "getEligibleNodes nodeLister = Inr nodes"
    and "el \<noteq> []" and "set el \<subseteq> node_Name ` set nodes"
    and "runs_complete ph (envs pod)" and "0 < parallelism ph"
  shows "\<exists>as m' node. BuildSchedulePlan ph listPods nodeLister envs ns podSet (pod_Name pod) el m = (Inr as, m') \<and>
    map_of as (pod_Name pod) = Some node \<and> node \<in> set el"
  using assms by (rule scheduled_pod_served)

theorem BuildSchedulePlan_serves_scheduled_pod_witness:
  "\<exists>as m' node. BuildSchedulePlan ex_ph (\<lambda>_ _. Inr [ex_pod ''b'', ex_pod ''a''])
     (Inr [ex_node ''n1'', ex_node ''n2'']) (\<lambda>_. ex_env) ''ns'' ''web'' (pod_Name (ex_pod ''a'')) [''n1'']
     Map.empty = (Inr as, m') \<and> map_of as (pod_Name (ex_pod ''a'')) = Some node \<and> node \<in> set [''n1'']"
  by (rule BuildSchedulePlan_serves_scheduled_pod [where items = "[ex_pod ''b'', ex_pod ''a'']",
        OF _ _ _ _ _ _ ex_eligible _ _ ex_env_complete])
    (simp_all add: ex_ph_par)

text \<open>
  C32: one unknown node in the request costs the pod its place. If some eligible node of the
  scheduler is not a node that the planner plans on, for instance because it has a taint that
  only this pod tolerates, then a pod that is not assigned yet is left out of the plan, even
  though the other eligible nodes would do.
\<close>

theorem BuildSchedulePlan_unknown_node_drops_pod:
  assumes "listPods ns (''planner.ciena.io/pod-set='' @ podSet) = Inr items"
    and "distinct (map pod_Name items)" and "pod \<in> set items"
    and "pod_HostIP pod = ''''" and "m (pod_key pod) = None"
    and "getEligibleNodes nodeLister = Inr nodes"
    and "\<not> set el \<subseteq> node_Name ` set nodes"
  shows "\<exists>as m'. BuildSchedulePlan ph listPods nodeLister envs ns podSet (pod_Name pod) el m = (Inr as, m') \<and>
    map_of as (pod_Name pod) = None"
proof -
  let ?b = "\<lparr>b_podToNodeMap = m, b_schedulingMap = [pod_key pod \<mapsto> el], b_assignmentMap = [],
    b_failedPodList = []\<rparr>"
  obtain as m' pods where run:
      "BuildSchedulePlan ph listPods nodeLister envs ns podSet (pod_Name pod) el m = (Inr as, m')"
      "map_of as (pod_Name pod) = map_of (b_assignmentMap (plan_pod ph (envs pod) pods nodes pod ?b)) (pod_Name pod)"
    using BuildSchedulePlan_scheduled [where ns = ns and podSet = podSet and listPods = listPods,
        OF assms(1,2,3,6)] by blast
  obtain e where "candidate_nodes (node_map nodes) (pod_Name pod) el = Inl e"
    using candidate_nodes_unknown [of el "node_map nodes"] assms(7) unfolding node_map_dom by metis
  then obtain e' where "findFit ph (envs pod) pods m pod nodes el = (Inl e', m)"
    by (cases "el = []") (simp_all add: findFit_def node_map_def Let_def)
  then have "map_of (b_assignmentMap (plan_pod ph (envs pod) pods nodes pod ?b)) (pod_Name pod) = None"
    using assms(4,5)
    by (simp add: plan_pod_def GetNodeName_def getPodNode_def getEligibleNodes_cached_def)
  with run show ?thesis by auto
qed

theorem BuildSchedulePlan_unknown_node_drops_pod_witness:
  "\<exists>as m'. BuildSchedulePlan ex_ph (\<lambda>_ _. Inr [ex_pod ''b'', ex_pod ''a''])
     (Inr [ex_node ''n1'', ex_node ''n2'']) (\<lambda>_. ex_env) ''ns'' ''web'' (pod_Name (ex_pod ''a''))
     [''n1'', ''tainted''] Map.empty = (Inr as, m') \<and> map_of as (pod_Name (ex_pod ''a'')) = None"
  by (rule BuildSchedulePlan_unknown_node_drops_pod [where items = "[ex_pod ''b'', ex_pod ''a'']",
        OF _ _ _ _ _ ex_eligible]) simp_all

section \<open>Deleted pods and retries\<close>

lemma doUpdate_effect:
  assumes "kube_ok kc plans" and "plans_wf (plans s)" and "doUpdate kc w s = (r, s')"
  shows "r = None \<Longrightarrow> (\<exists>e. client_Get kc (w_namespace w) (w_podset w) s = Inl e) \<or>
      planned (plans s') (w_namespace w) (w_podset w) (w_name w) = None"
    and "r \<noteq> None \<Longrightarrow> \<exists>plan. client_Get kc (w_namespace w) (w_podset w) s = Inr plan"
    and "plans_wf (plans s')"
proof -
  obtain retry d s'' where run:
    "client_Delete kc (w_name w) (w_namespace w) (w_podset w) s = ((retry, d), s'')"
    by (metis prod.collapse)
  have s'': "s'' = s'" and r: "r = (if retry then d else None)"
    using assms(3) run Delete_effect [OF assms(1,2) run] by (auto simp: doUpdate_def split: option.splits if_splits)
  note eff = Delete_effect [OF assms(1,2) run, unfolded s'']
  show "r = None \<Longrightarrow> (\<exists>e. client_Get kc (w_namespace w) (w_podset w) s = Inl e) \<or>
      planned (plans s') (w_namespace w) (w_podset w) (w_name w) = None"
    using eff r by (cases "client_Get kc (w_namespace w) (w_podset w) s") (auto split: if_splits)
  show "r \<noteq> None \<Longrightarrow> \<exists>plan. client_Get kc (w_namespace w) (w_podset w) s = Inr plan"
    using eff r by (auto split: if_splits)
  show "plans_wf (plans s')"
    using run_client_op_wf [OF assms(1,2), of "OpDelete (w_name w) (w_namespace w) (w_podset w)"] run s'' by simp
qed

text \<open>
  C29: the reaction to an event. When a pod starts to run, the planner only forgets its
  assignment. When a pod gets a deletion timestamp, the planner forgets its assignment, and if the
  pod belongs to a pod set it runs the pod's removal from the plan of the set. The removal is queued for a
  retry exactly when it failed although the plan could be read, so that the write failed. When it is not queued, the pod is
  no longer planned, or the plan could not be read. Any other event changes nothing.
\<close>

theorem handlePodUpdate_correct:
  assumes "kube_ok kc plans" and "plans_wf (plans (api p))"
    and "w = \<lparr>w_name = pod_Name newPod, w_namespace = pod_Namespace newPod,
      w_podset = label_of ''planner.ciena.io/pod-set'' (pod_Labels newPod)\<rparr>"
    and "p' = handlePodUpdate kc oldPod newPod p"
    and "client_Delete kc (w_name w) (w_namespace w) (w_podset w) (api p) = ((updateFailed, e), s')"
  shows "if pod_Phase oldPod \<noteq> PodRunning \<and> pod_Phase newPod = PodRunning
    then p' = p\<lparr>podToNodeMap := (podToNodeMap p)(pod_key newPod := None)\<rparr>
    else if pod_DeletionTimestamp oldPod = None \<and> pod_DeletionTimestamp newPod \<noteq> None
    then podToNodeMap p' = (podToNodeMap p)(pod_key newPod := None) \<and>
      (if w_podset w = '''' then api p' = api p \<and> updateQueue p' = updateQueue p
       else api p' = s' \<and>
         updateQueue p' =
           (if e \<noteq> None \<and> (\<exists>plan. client_Get kc (w_namespace w) (w_podset w) (api p) = Inr plan)
            then updateQueue p @ [w] else updateQueue p) \<and>
         (updateQueue p' = updateQueue p \<longrightarrow>
            (\<exists>e'. client_Get kc (w_namespace w) (w_podset w) (api p) = Inl e') \<or>
            planned (plans (api p')) (w_namespace w) (w_podset w) (w_name w) = None))
    else p' = p"
proof -
  note del = Delete_effect [OF assms(1,2,5)]
  have run: "doUpdate kc w (api p) = (if updateFailed then e else None, s')"
    using del assms(5) by (auto simp: doUpdate_def split: option.splits)
  note eff = doUpdate_effect(1) [OF assms(1,2) run]
  have failed: "updateFailed \<longleftrightarrow> e \<noteq> None \<and> (\<exists>plan. client_Get kc (w_namespace w) (w_podset w) (api p) = Inr plan)"
    using del by blast
  have event: "p' = (if pod_Phase oldPod \<noteq> PodRunning \<and> pod_Phase newPod = PodRunning
      then p\<lparr>podToNodeMap := (podToNodeMap p)(pod_key newPod := None)\<rparr>
      else if pod_DeletionTimestamp oldPod = None \<and> pod_DeletionTimestamp newPod \<noteq> None
      then (if w_podset w = '''' then p\<lparr>podToNodeMap := (podToNodeMap p)(pod_key newPod := None)\<rparr>
            else p\<lparr>podToNodeMap := (podToNodeMap p)(pod_key newPod := None), api := s',
              updateQueue := updateQueue p @ (if updateFailed then [w] else [])\<rparr>)
      else p)"
    using run failed unfolding assms(4)
    by (cases e) (auto simp: handlePodUpdate_def handlePodDeleteWithLock_def removePodFromPlanner_def Let_def assms(3))
  show ?thesis using eff failed by (simp add: event)
qed

text \<open>
  Pod \<open>a\<close> of the plan is deleted: on a server that serves, it leaves the plan and nothing is queued; on
  one that rejects updates, its removal is queued.
\<close>

definition rejecting_kube :: "(NamespacedName, SchedulePlan) gomap kube" where
  "rejecting_kube = map_kube\<lparr>kc_Update := \<lambda>p s. (Some (External ''conflict''), s)\<rparr>"

lemma rejecting_kube_ok: "kube_ok rejecting_kube map_of"
  using map_kube_ok unfolding kube_ok_def rejecting_kube_def by (simp add: written_def)

definition ex_set_pod :: Pod where
  "ex_set_pod = (ex_pod ''a'')\<lparr>pod_Namespace := ''ns'', pod_Labels := [(''planner.ciena.io/pod-set'', ''web'')]\<rparr>"

definition ex_deletion :: "(NamespacedName, SchedulePlan) gomap kube \<Rightarrow> (NamespacedName, SchedulePlan) gomap PodSetPlanner" where
  "ex_deletion kc = handlePodUpdate kc ex_set_pod (ex_set_pod\<lparr>pod_DeletionTimestamp := Some 5\<rparr>)
     \<lparr>podToNodeMap = [pod_key ex_set_pod \<mapsto> ''n1''], updateQueue = [], api = ex_store\<rparr>"

theorem handlePodUpdate_correct_witness:
  "podToNodeMap (ex_deletion map_kube) (pod_key ex_set_pod) = None \<and> updateQueue (ex_deletion map_kube) = [] \<and>
   planned (map_of (api (ex_deletion map_kube))) ''ns'' ''web'' ''a'' = None \<and>
   updateQueue (ex_deletion rejecting_kube) = [\<lparr>w_name = ''a'', w_namespace = ''ns'', w_podset = ''web''\<rparr>]"
proof -
  let ?w = "\<lparr>w_name = ''a'', w_namespace = ''ns'', w_podset = ''web''\<rparr>"
  have w: "?w = \<lparr>w_name = pod_Name (ex_set_pod\<lparr>pod_DeletionTimestamp := Some 5\<rparr>),
      w_namespace = pod_Namespace (ex_set_pod\<lparr>pod_DeletionTimestamp := Some 5\<rparr>),
      w_podset = label_of ''planner.ciena.io/pod-set'' (pod_Labels (ex_set_pod\<lparr>pod_DeletionTimestamp := Some 5\<rparr>))\<rparr>"
    by (simp add: ex_set_pod_def ex_pod_def label_of_def)
  have pod: "pod_DeletionTimestamp ex_set_pod = None" "pod_key (ex_set_pod\<lparr>pod_DeletionTimestamp := Some 5\<rparr>) = pod_key ex_set_pod"
    by (simp_all add: ex_set_pod_def ex_pod_def blank_pod_def pod_key_def)
  have get: "client_Get rejecting_kube ''ns'' ''web'' ex_store = client_Get map_kube ''ns'' ''web'' ex_store"
    by (simp add: client_Get_def rejecting_kube_def)
  have ok: "client_Delete map_kube ''a'' ''ns'' ''web'' ex_store =
      ((False, None), snd (client_Delete map_kube ''a'' ''ns'' ''web'' ex_store))"
    by (simp add: client_Delete_def ex_store_Get plan_specs_def, simp add: map_kube_def ex_store_def)
  have bad: "client_Delete rejecting_kube ''a'' ''ns'' ''web'' ex_store =
      ((True, Some (Wrapped ''error updating plan spec: '' (External ''conflict''))), ex_store)"
    by (simp add: client_Delete_def get ex_store_Get plan_specs_def, simp add: rejecting_kube_def)
  let ?p = "\<lparr>podToNodeMap = [pod_key ex_set_pod \<mapsto> ''n1''], updateQueue = [], api = ex_store\<rparr>"
  have wf: "plans_wf (map_of (api ?p))" by (simp add: ex_store_wf)
  have "client_Delete map_kube (w_name ?w) (w_namespace ?w) (w_podset ?w) (api ?p) =
      ((False, None), snd (client_Delete map_kube ''a'' ''ns'' ''web'' ex_store))"
    using ok by simp
  from handlePodUpdate_correct [OF map_kube_ok wf w refl this, where oldPod = ex_set_pod]
  have "podToNodeMap (ex_deletion map_kube) (pod_key ex_set_pod) = None \<and> updateQueue (ex_deletion map_kube) = [] \<and>
      planned (map_of (api (ex_deletion map_kube))) ''ns'' ''web'' ''a'' = None"
    by (fastforce simp add: pod ex_store_Get simp flip: ex_deletion_def)
  moreover have "client_Delete rejecting_kube (w_name ?w) (w_namespace ?w) (w_podset ?w) (api ?p) =
      ((True, Some (Wrapped ''error updating plan spec: '' (External ''conflict''))), ex_store)"
    using bad by simp
  from handlePodUpdate_correct [OF rejecting_kube_ok wf w refl this, where oldPod = ex_set_pod]
  have "updateQueue (ex_deletion rejecting_kube) = [?w]"
    by (simp add: pod get ex_store_Get flip: ex_deletion_def)
  ultimately show ?thesis by simp
qed

text \<open>
  No queued removal is lost. Working on the queue takes the first item; the others stay in
  order; and the item is put back at the end unless its pod is no longer planned or the plan
  cannot be read any more.
\<close>

theorem processUpdateEvents_keeps_items:
  assumes "kube_ok kc plans" and "plans_wf (plans (api p))" and "updateQueue p = w # ws"
    and "p' = processUpdateEvents kc p"
  shows "podToNodeMap p' = podToNodeMap p \<and> plans_wf (plans (api p')) \<and>
    (updateQueue p' = ws @ [w] \<or>
     updateQueue p' = ws \<and>
       ((\<exists>e. client_Get kc (w_namespace w) (w_podset w) (api p) = Inl e) \<or>
        planned (plans (api p')) (w_namespace w) (w_podset w) (w_name w) = None))"
proof (cases "doUpdate kc w (api p)")
  case (Pair r s')
  with doUpdate_effect [OF assms(1,2) Pair] show ?thesis
    unfolding assms(4)
    by (cases r) (auto simp: processUpdateEvents_def processUpdate_def assms(3))
qed

theorem processUpdateEvents_keeps_items_witness:
  "updateQueue (processUpdateEvents map_kube \<lparr>podToNodeMap = Map.empty,
     updateQueue = [\<lparr>w_name = ''a'', w_namespace = ''ns'', w_podset = ''web''\<rparr>], api = ex_store\<rparr>) \<in>
   {[], [\<lparr>w_name = ''a'', w_namespace = ''ns'', w_podset = ''web''\<rparr>]}"
  using processUpdateEvents_keeps_items [OF map_kube_ok _ _ refl, where
      p = "\<lparr>podToNodeMap = Map.empty,
        updateQueue = [\<lparr>w_name = ''a'', w_namespace = ''ns'', w_podset = ''web''\<rparr>], api = ex_store\<rparr>"]
  by (auto simp: ex_store_wf)

section \<open>What planning other pods leaves alone\<close>

lemma plan_pod_frame:
  assumes "key \<noteq> pod_key pod"
  shows "b_podToNodeMap (plan_pod ph env pods nodes pod b) key = b_podToNodeMap b key"
    and "b_schedulingMap (plan_pod ph env pods nodes pod b) key = b_schedulingMap b key"
  using assms
  by (auto simp: plan_pod_def getEligibleNodes_cached_def split: sum.splits prod.splits option.splits
      dest: findFit_map findFit_Inl)

lemma plan_pods_frame:
  assumes "key \<notin> pod_key ` set podList"
  shows "b_podToNodeMap (plan_pods ph envs pods nodes podList b) key = b_podToNodeMap b key"
    and "b_schedulingMap (plan_pods ph envs pods nodes podList b) key = b_schedulingMap b key"
  using assms by (induction podList arbitrary: b) (auto simp: plan_pod_frame)

lemma plan_pods_distinct:
  "distinct (map fst (b_assignmentMap b)) \<Longrightarrow>
     distinct (map fst (b_assignmentMap (plan_pods ph envs pods nodes podList b)))"
proof (induction podList arbitrary: b)
  case (Cons pod podList)
  have "distinct (map fst (b_assignmentMap (plan_pod ph (envs pod) pods nodes pod b)))"
    using Cons.prems by (auto simp: plan_pod_def go_map split: sum.splits prod.splits)
  with Cons.IH show ?case by simp
qed simp

lemma BuildSchedulePlan_distinct:
  "BuildSchedulePlan ph listPods lister envs ns podSet sp el m = (Inr as, m') \<Longrightarrow> distinct (map fst as)"
  by (auto simp: BuildSchedulePlan_def BuildPlan_def Let_def intro!: plan_pods_distinct
      split: sum.splits prod.splits)

end
