(* ===== verification/PlannerService.thy ===== *)
theory PlannerService
  imports Planner
begin

text \<open>
  The scheduler's side of the planners (\<^verbatim>\<open>internal/pkg/scheduler/planner.go\<close>): it keeps the plan
  objects, looks up the planner services of a pod set, asks each of them for a plan and takes
  the one with the largest reward.

  Everything outside the scheduler is an abstract world \<open>'w\<close>; the calls into it are the fields
  of \<open>'w outside\<close>: the API server's plans, the listing of services, and gRPC.
\<close>

section \<open>The outside\<close>

record Service =
  svc_Name :: string
  svc_Namespace :: string

record 'w outside =
  o_plans :: "'w kube"
  o_ListServices :: "string \<Rightarrow> 'w \<Rightarrow> err + Service list"
  o_DialContext :: "string \<Rightarrow> 'w \<Rightarrow> err option"
  o_BuildSchedulePlan :: "string \<Rightarrow> SchedulePlanRequest \<Rightarrow> 'w \<Rightarrow> (err + (string, string) gomap) \<times> 'w"
  o_StatusMessage :: "err \<Rightarrow> string"

section \<open>Plan objects\<close>

definition service_Update ::
  "'w outside \<Rightarrow> Pod \<Rightarrow> string \<Rightarrow> (string, string) gomap \<Rightarrow> 'w \<Rightarrow> err option \<times> 'w" where
  "service_Update out pod podset assignments w =
     client_Update (o_plans out) (pod_Namespace pod) podset assignments w"

definition service_UpdateAssignment ::
  "'w outside \<Rightarrow> Pod \<Rightarrow> string \<Rightarrow> string \<Rightarrow> 'w \<Rightarrow> err option \<times> 'w" where
  "service_UpdateAssignment out pod podset nodeName w =
     client_UpdateAssignment (o_plans out) (pod_Namespace pod) podset (pod_Name pod) nodeName w"

definition service_Delete :: "'w outside \<Rightarrow> Pod \<Rightarrow> string \<Rightarrow> string \<Rightarrow> 'w \<Rightarrow> err option \<times> 'w" where
  "service_Delete out pod podset nodeName w =
     (case client_Delete (o_plans out) (pod_Name pod) (pod_Namespace pod) podset w of
        ((_, Some e), w') \<Rightarrow>
          (Some (Wrapped (''error deleting pod '' @ pod_Name pod @ '' from plan spec: '') e), w')
      | ((_, None), w') \<Rightarrow> (None, w'))"

section \<open>Planners\<close>

record Planner =
  pl_Service :: Service
  pl_Namespace :: string
  pl_Podset :: string
  pl_ScheduledPod :: string
  pl_EligibleNodes :: "string list"

definition lookupWithLabelSelector ::
  "'w outside \<Rightarrow> string \<Rightarrow> string \<Rightarrow> string \<Rightarrow> string \<Rightarrow> string list \<Rightarrow> 'w \<Rightarrow> err + Planner list" where
  "lookupWithLabelSelector out labelSelector namespace podset scheduledPod eligibleNodes w =
     (case o_ListServices out labelSelector w of
        Inl e \<Rightarrow> Inl (Wrapped ''error getting service list: '' e)
      | Inr svcs \<Rightarrow>
          if length svcs = 0 then Inl (Sentinel ErrNoPlannersFound)
          else Inr (map (\<lambda>svc. \<lparr>pl_Service = svc, pl_Namespace = namespace, pl_Podset = podset,
                 pl_ScheduledPod = scheduledPod, pl_EligibleNodes = eligibleNodes\<rparr>) svcs))"

definition Lookup ::
  "'w outside \<Rightarrow> string \<Rightarrow> string \<Rightarrow> string \<Rightarrow> string list \<Rightarrow> 'w \<Rightarrow> err + Planner list" where
  "Lookup out namespace podset scheduledPod eligibleNodes w =
     (case lookupWithLabelSelector out (''planner.ciena.io/'' @ podset @ ''=enabled'')
             namespace podset scheduledPod eligibleNodes w of
        Inl _ \<Rightarrow> lookupWithLabelSelector out ''planner.ciena.io/default=enabled''
                   namespace podset scheduledPod eligibleNodes w
      | Inr planners \<Rightarrow> Inr planners)"

definition Planner_BuildSchedulePlan ::
  "'w outside \<Rightarrow> Planner \<Rightarrow> 'w \<Rightarrow> (err + (string, string) gomap) \<times> 'w" where
  "Planner_BuildSchedulePlan out p w =
     (let dns = svc_Name (pl_Service p) @ ''.'' @ svc_Namespace (pl_Service p) @ ''.svc.cluster.local:7309''
      in case o_DialContext out dns w of
           Some e \<Rightarrow> (Inl (Wrapped ''error grpc dial: '' e), w)
         | None \<Rightarrow>
             o_BuildSchedulePlan out dns
               \<lparr>req_Namespace = pl_Namespace p, req_PodSet = pl_Podset p,
                req_ScheduledPod = pl_ScheduledPod p, req_EligibleNodes = pl_EligibleNodes p\<rparr> w)"

record planReward =
  reward :: nat
  assignments :: "(string, string) gomap"

text \<open>\<open>draw\<close> is the result of \<^verbatim>\<open>rand.Intn(100)\<close>; the trigger is not looked at.\<close>

definition computePlanReward :: "nat \<Rightarrow> (string, string) gomap \<Rightarrow> planReward" where
  "computePlanReward draw as = \<lparr>reward = draw + 1, assignments = as\<rparr>"

text \<open>
  The loop of \<^verbatim>\<open>Invoke\<close>; \<open>draws\<close> lists the random numbers of the rewards. A planner that fails
  draws none.
\<close>

fun invoke_loop ::
  "'w outside \<Rightarrow> Planner list \<Rightarrow> nat list \<Rightarrow> 'w \<Rightarrow> planReward list \<Rightarrow> err option \<Rightarrow>
     (planReward list \<times> err option) \<times> 'w" where
  "invoke_loop out [] draws w planRewards lastError = ((planRewards, lastError), w)"
| "invoke_loop out (plan # planners) draws w planRewards lastError =
     (case Planner_BuildSchedulePlan out plan w of
        (Inl e, w') \<Rightarrow>
          invoke_loop out planners draws w' planRewards
            (Some (Wrapped (o_StatusMessage out e @ '':'') (Sentinel ErrBuildingPlan)))
      | (Inr as, w') \<Rightarrow>
          invoke_loop out planners (tl draws) w'
            (planRewards @ [computePlanReward (case draws of [] \<Rightarrow> 0 | d # _ \<Rightarrow> d) as]) lastError)"

definition Invoke ::
  "'w outside \<Rightarrow> Planner list \<Rightarrow> nat list \<Rightarrow> 'w \<Rightarrow> (err + (string, string) gomap) \<times> 'w" where
  "Invoke out planners draws w =
     (case invoke_loop out planners draws w [] None of
        ((planRewards, lastError), w') \<Rightarrow>
          if length planRewards = 0 then
            (case lastError of
               Some e \<Rightarrow> (Inl e, w')
             | None \<Rightarrow> (Inl (Sentinel ErrBuildingPlan), w'))
          else if length planRewards = 1 then (Inr (assignments (planRewards ! 0)), w')
          else (Inr (assignments (sort_key (\<lambda>r. - int (reward r)) planRewards ! 0)), w'))"

section \<open>Properties\<close>

text \<open>The answers of the planners, asked one after the other.\<close>

fun ask_all ::
  "'w outside \<Rightarrow> Planner list \<Rightarrow> 'w \<Rightarrow> (err + (string, string) gomap) list \<times> 'w" where
  "ask_all out [] w = ([], w)"
| "ask_all out (p # ps) w =
     (case Planner_BuildSchedulePlan out p w of
        (r, w') \<Rightarrow> (case ask_all out ps w' of (rs, w'') \<Rightarrow> (r # rs, w'')))"

definition answers :: "(err + 'a) list \<Rightarrow> 'a list" where
  "answers rs = List.map_filter (\<lambda>r. case r of Inl _ \<Rightarrow> None | Inr a \<Rightarrow> Some a) rs"

lemma answers_simps [simp]:
  "answers [] = []" "answers (Inl e # rs) = answers rs" "answers (Inr a # rs) = a # answers rs"
  by (simp_all add: answers_def List.map_filter_simps)

fun rewards_of :: "nat list \<Rightarrow> (string, string) gomap list \<Rightarrow> planReward list" where
  "rewards_of draws [] = []"
| "rewards_of draws (a # as) =
     computePlanReward (case draws of [] \<Rightarrow> 0 | d # _ \<Rightarrow> d) a # rewards_of (tl draws) as"

lemma rewards_assignments: "map assignments (rewards_of draws as) = as"
  by (induction draws as rule: rewards_of.induct) (simp_all add: computePlanReward_def)

lemma invoke_loop_ask:
  "\<exists>e. invoke_loop out ps draws w rs le =
     ((rs @ rewards_of draws (answers (fst (ask_all out ps w))), e), snd (ask_all out ps w)) \<and>
     (e = le \<or> (\<exists>m. e = Some (Wrapped m (Sentinel ErrBuildingPlan))))"
proof (induction ps arbitrary: draws w rs le)
  case (Cons p ps)
  obtain r w' where r: "Planner_BuildSchedulePlan out p w = (r, w')" by fastforce
  obtain rs' w'' where all: "ask_all out ps w' = (rs', w'')" by fastforce
  show ?case
  proof (cases r)
    case (Inl e)
    with r all Cons.IH [of draws w' rs "Some (Wrapped (o_StatusMessage out e @ '':'') (Sentinel ErrBuildingPlan))"]
    show ?thesis by auto
  next
    case (Inr as)
    with r all Cons.IH [of "tl draws" w' "rs @ [computePlanReward (case draws of [] \<Rightarrow> 0 | d # _ \<Rightarrow> d) as]" le]
    show ?thesis by auto
  qed
qed simp

lemma sort_key_hd_min:
  assumes "xs \<noteq> []"
  shows "sort_key f xs ! 0 \<in> set xs" and "\<forall>y \<in> set xs. f (sort_key f xs ! 0) \<le> f y"
proof -
  have ne: "sort_key f xs \<noteq> []" using assms by (metis length_0_conv length_sort)
  then have hd: "sort_key f xs ! 0 = hd (sort_key f xs)" by (simp add: hd_conv_nth)
  with ne show "sort_key f xs ! 0 \<in> set xs" by (metis hd_in_set set_sort)
  have "sorted (map f (sort_key f xs))" by simp
  then show "\<forall>y \<in> set xs. f (sort_key f xs ! 0) \<le> f y"
    using hd ne by (cases "sort_key f xs") (auto simp flip: set_sort [of f xs])
qed

lemma Invoke_answers:
  "snd (Invoke out planners draws w) = snd (ask_all out planners w) \<and>
   (case fst (Invoke out planners draws w) of
      Inl e \<Rightarrow> answers (fst (ask_all out planners w)) = [] \<and> errors_is e ErrBuildingPlan
    | Inr as \<Rightarrow> \<exists>r \<in> set (rewards_of draws (answers (fst (ask_all out planners w)))).
        as = assignments r \<and> as \<in> set (answers (fst (ask_all out planners w))) \<and>
        list_all (\<lambda>r'. reward r' \<le> reward r)
          (rewards_of draws (answers (fst (ask_all out planners w)))))"
proof -
  let ?rs = "rewards_of draws (answers (fst (ask_all out planners w)))"
  obtain e where loop: "invoke_loop out planners draws w [] None = ((?rs, e), snd (ask_all out planners w))"
    and e: "e = None \<or> (\<exists>m. e = Some (Wrapped m (Sentinel ErrBuildingPlan)))"
    using invoke_loop_ask [of out planners draws w "[]" None] by auto
  have mem: "assignments r \<in> set (answers (fst (ask_all out planners w)))" if "r \<in> set ?rs" for r
    using rewards_assignments [of draws "answers (fst (ask_all out planners w))"] that by (metis imageI set_map)
  have nil: "?rs = [] \<longleftrightarrow> answers (fst (ask_all out planners w)) = []"
    by (metis list.map_disc_iff rewards_assignments rewards_of.simps(1))
  consider "?rs = []" | r where "?rs = [r]" | "?rs \<noteq> []" "length ?rs \<noteq> 1"
    by (metis One_nat_def length_0_conv length_Suc_conv)
  then show ?thesis
  proof cases
    case 1
    with loop e nil show ?thesis by (auto simp: Invoke_def)
  next
    case (2 r)
    with loop mem show ?thesis by (auto simp: Invoke_def)
  next
    case 3
    then have "sort_key (\<lambda>r. - int (reward r)) ?rs ! 0 \<in> set ?rs"
      "\<forall>y \<in> set ?rs. reward y \<le> reward (sort_key (\<lambda>r. - int (reward r)) ?rs ! 0)"
      using sort_key_hd_min [of ?rs "\<lambda>r. - int (reward r)"] by auto
    with 3 loop mem show ?thesis by (auto simp: Invoke_def list_all_iff)
  qed
qed

text \<open>
  Asking the planners. Every planner of the list is asked, in order, whether or not others
  failed. If none delivers a plan, the result is the error for a failed build; otherwise
  it is the plan of one that answered, of maximal reward among those that did.
\<close>

theorem Invoke_correct:
  "snd (Invoke out planners draws w) = snd (ask_all out planners w) \<and>
   (case fst (Invoke out planners draws w) of
      Inl e \<Rightarrow> answers (fst (ask_all out planners w)) = [] \<and> errors_is e ErrBuildingPlan
    | Inr as \<Rightarrow> \<exists>r \<in> set (rewards_of draws (answers (fst (ask_all out planners w)))).
        as = assignments r \<and> as \<in> set (answers (fst (ask_all out planners w))) \<and>
        list_all (\<lambda>r'. reward r' \<le> reward r)
          (rewards_of draws (answers (fst (ask_all out planners w)))))"
  by (rule Invoke_answers)

end
