(* ===== verification/TriggerClient.thy ===== *)
theory TriggerClient
  imports Kube
begin

text \<open>
  The client of the custom resource \<^verbatim>\<open>ScheduleTrigger\<close>
  (\<^verbatim>\<open>internal/pkg/client/scheduletrigger_client.go\<close>), with the API server as a parameter:
  the calls on triggers and what its documentation promises of them (\<open>trigger_kube_ok\<close>).
\<close>

section \<open>The API server\<close>

record 's trigger_kube =
  tk_Get :: "NamespacedName \<Rightarrow> 's \<Rightarrow> err + ScheduleTrigger"
  tk_List :: "string \<Rightarrow> labels \<Rightarrow> 's \<Rightarrow> err + ScheduleTrigger list"
  tk_Update :: "ScheduleTrigger \<Rightarrow> 's \<Rightarrow> err option \<times> 's"

type_synonym triggers = "NamespacedName \<rightharpoonup> ScheduleTrigger"

definition trigger_key :: "ScheduleTrigger \<Rightarrow> NamespacedName" where
  "trigger_key t = \<lparr>nn_Namespace = trig_Namespace t, nn_Name = trig_Name t\<rparr>"

text \<open>
  Reading returns the stored object; a listing returns stored objects of the namespace that
  have the labels; an update that succeeds replaces the object of its name, and one that
  fails has this effect or none.
\<close>

definition trigger_kube_ok :: "'s trigger_kube \<Rightarrow> ('s \<Rightarrow> triggers) \<Rightarrow> bool" where
  "trigger_kube_ok tk triggers \<longleftrightarrow>
     (\<forall>k s t. tk_Get tk k s = Inr t \<longrightarrow> triggers s k = Some t \<and> trigger_key t = k) \<and>
     (\<forall>ns ls s ts. tk_List tk ns ls s = Inr ts \<longrightarrow>
        set ts = {t. triggers s (trigger_key t) = Some t \<and> trig_Namespace t = ns \<and>
                     map_of ls \<subseteq>\<^sub>m map_of (trig_Labels t)}) \<and>
     (\<forall>t s s'. tk_Update tk t s = (None, s') \<longrightarrow> triggers s' = (triggers s)(trigger_key t \<mapsto> t)) \<and>
     (\<forall>t s s' e. tk_Update tk t s = (Some e, s') \<longrightarrow>
        triggers s' \<in> {triggers s, (triggers s)(trigger_key t \<mapsto> t)})"

section \<open>The operations\<close>

definition trigger_List :: "'s trigger_kube \<Rightarrow> string \<Rightarrow> labels \<Rightarrow> 's \<Rightarrow> err + ScheduleTrigger list" where
  "trigger_List tk namespace labels s =
     (case tk_List tk namespace labels s of
        Inl e \<Rightarrow> Inl (Wrapped ''error list triggers: '' e)
      | Inr triggerList \<Rightarrow> Inr triggerList)"

definition trigger_Get :: "'s trigger_kube \<Rightarrow> string \<Rightarrow> string \<Rightarrow> 's \<Rightarrow> err + ScheduleTrigger" where
  "trigger_Get tk namespace podset s =
     (case trigger_List tk namespace [(''planner.ciena.io/pod-set'', podset)] s of
        Inl e \<Rightarrow> Inl e
      | Inr [] \<Rightarrow>
          Inl (Wrapped (''no-trigger-found-for-podset-'' @ podset @ '': '') (Sentinel ErrNoTriggersFound))
      | Inr (t # ts) \<Rightarrow> Inr t)"

definition trigger_Update ::
  "'s trigger_kube \<Rightarrow> string \<Rightarrow> string \<Rightarrow> string \<Rightarrow> 's \<Rightarrow> err option \<times> 's" where
  "trigger_Update tk namespace podset state s =
     (case trigger_Get tk namespace podset s of
        Inl e \<Rightarrow> (Some e, s)
      | Inr trigger \<Rightarrow>
          if trig_State trigger = state then (None, s)
          else
            (case tk_Update tk (trigger\<lparr>trig_State := state\<rparr>) s of
               (Some e, s') \<Rightarrow> (Some (Wrapped ''error updating trigger: '' e), s')
             | (None, s') \<Rightarrow> (None, s')))"

section \<open>Properties\<close>

lemma trigger_key_state [simp]: "trigger_key (t\<lparr>trig_State := st\<rparr>) = trigger_key t"
  by (simp add: trigger_key_def)

lemma trigger_List_Inr:
  assumes "trigger_kube_ok tk triggers" and "trigger_List tk ns ls s = Inr ts"
  shows "set ts = {t. triggers s (trigger_key t) = Some t \<and> trig_Namespace t = ns \<and>
                     map_of ls \<subseteq>\<^sub>m map_of (trig_Labels t)}"
  using assms by (simp add: trigger_kube_ok_def trigger_List_def split: sum.splits)

lemma trigger_Get_Inr:
  assumes "trigger_kube_ok tk triggers" and "trigger_Get tk ns podset s = Inr t"
  shows "triggers s (trigger_key t) = Some t" and "trig_Namespace t = ns"
    and "map_of (trig_Labels t) ''planner.ciena.io/pod-set'' = Some podset"
proof -
  obtain ts where ts: "trigger_List tk ns [(''planner.ciena.io/pod-set'', podset)] s = Inr (t # ts)"
    using assms(2) by (auto simp: trigger_Get_def split: sum.splits list.splits)
  have "t \<in> set (t # ts)" by simp
  then show "triggers s (trigger_key t) = Some t" and "trig_Namespace t = ns"
    and "map_of (trig_Labels t) ''planner.ciena.io/pod-set'' = Some podset"
    unfolding trigger_List_Inr [OF assms(1) ts] by (auto simp: map_le_def)
qed

text \<open>
  Looking up the trigger of a pod set returns a stored trigger of that namespace with the
  pod set's label; it fails with the error for missing triggers exactly when the listing
  worked and there is no such trigger.
\<close>

theorem trigger_Get_correct:
  assumes "trigger_kube_ok tk triggers"
  shows "case trigger_Get tk ns podset s of
      Inr t \<Rightarrow> triggers s (trigger_key t) = Some t \<and> trig_Namespace t = ns \<and>
        map_of (trig_Labels t) ''planner.ciena.io/pod-set'' = Some podset
    | Inl e \<Rightarrow> (\<exists>l. tk_List tk ns [(''planner.ciena.io/pod-set'', podset)] s = Inl l) \<or>
        errors_is e ErrNoTriggersFound \<and>
        (\<nexists>t. triggers s (trigger_key t) = Some t \<and> trig_Namespace t = ns \<and>
             map_of (trig_Labels t) ''planner.ciena.io/pod-set'' = Some podset)"
proof (cases "trigger_Get tk ns podset s")
  case (Inr t)
  then show ?thesis using trigger_Get_Inr [OF assms Inr] by simp
next
  case (Inl e)
  let ?ls = "[(''planner.ciena.io/pod-set'', podset)]"
  show ?thesis
  proof (cases "tk_List tk ns ?ls s")
    case (Inr ts)
    then have list: "trigger_List tk ns ?ls s = Inr ts" by (simp add: trigger_List_def)
    with Inl have "ts = []" and "errors_is e ErrNoTriggersFound"
      by (auto simp: trigger_Get_def split: list.splits)
    with trigger_List_Inr [OF assms list] Inl show ?thesis by (auto simp: map_le_def)
  qed (use Inl in simp)
qed

text \<open>An API server on a list of triggers that never fails.\<close>

definition list_trigger_kube :: "ScheduleTrigger list trigger_kube" where
  "list_trigger_kube =
     \<lparr>tk_Get = (\<lambda>k s. case map_of (map (\<lambda>t. (trigger_key t, t)) s) k of
         None \<Rightarrow> Inl (External ''not found'') | Some t \<Rightarrow> Inr t),
      tk_List = (\<lambda>ns ls s. Inr (map snd (filter (\<lambda>(k, t). trig_Namespace t = ns \<and>
          list_all (\<lambda>l. map_of (trig_Labels t) l = map_of ls l) (map fst ls))
        (AList.clearjunk (map (\<lambda>t. (trigger_key t, t)) s))))),
      tk_Update = (\<lambda>t s. (None, t # s))\<rparr>"

definition list_triggers :: "ScheduleTrigger list \<Rightarrow> triggers" where
  "list_triggers s = map_of (map (\<lambda>t. (trigger_key t, t)) s)"

lemma list_triggers_key: "list_triggers s k = Some t \<Longrightarrow> trigger_key t = k"
  by (auto simp: list_triggers_def dest!: map_of_SomeD)

lemma clearjunk_mem: "(k, v) \<in> set (AList.clearjunk xs) \<longleftrightarrow> map_of xs k = Some v"
  by (metis distinct_clearjunk map_of_clearjunk map_of_eq_Some_iff)

lemma list_trigger_kube_ok: "trigger_kube_ok list_trigger_kube list_triggers"
proof -
  have "map_of ls \<subseteq>\<^sub>m m \<longleftrightarrow> list_all (\<lambda>l. m l = map_of ls l) (map fst ls)" for ls m
    by (auto simp: map_le_def list_all_iff dom_map_of_conv_image_fst)
  then show ?thesis
    unfolding trigger_kube_ok_def list_trigger_kube_def
    by (auto simp: list_triggers_def [symmetric] list_triggers_key clearjunk_mem
        split: option.splits)
      (force simp: list_triggers_def clearjunk_mem image_iff)+
qed

definition ex_trigger :: "string \<Rightarrow> ScheduleTrigger" where
  "ex_trigger state = \<lparr>trig_Namespace = ''ns'', trig_Name = ''t'',
     trig_Labels = [(''planner.ciena.io/pod-set'', ''web'')], trig_State = state\<rparr>"


lemma ex_trigger_Get: "trigger_Get list_trigger_kube ''ns'' ''web'' [ex_trigger st] = Inr (ex_trigger st)"
  by (simp add: trigger_Get_def trigger_List_def list_trigger_kube_def ex_trigger_def)

theorem trigger_Get_correct_witness:
  "list_triggers [ex_trigger ''Planning''] (trigger_key (ex_trigger ''Planning'')) =
     Some (ex_trigger ''Planning'') \<and> trig_Namespace (ex_trigger ''Planning'') = ''ns''"
  using trigger_Get_correct [OF list_trigger_kube_ok, of "''ns''" "''web''" "[ex_trigger ''Planning'']"]
  by (simp add: ex_trigger_Get)

text \<open>
  A successful update of a pod set's trigger stores the state in the trigger that is looked
  up for the pod set and changes nothing else, neither of it nor of any other trigger.
\<close>

theorem trigger_Update_correct:
  assumes "trigger_kube_ok tk triggers" and "trigger_Update tk ns podset state s = (None, s')"
  shows "\<exists>t. trigger_Get tk ns podset s = Inr t \<and>
    triggers s' = (triggers s)(trigger_key t \<mapsto> t\<lparr>trig_State := state\<rparr>)"
proof -
  from assms(2) obtain t where t: "trigger_Get tk ns podset s = Inr t"
    by (auto simp: trigger_Update_def split: sum.splits)
  note stored = trigger_Get_Inr(1) [OF assms(1) t]
  have "triggers s' = (triggers s)(trigger_key t \<mapsto> t\<lparr>trig_State := state\<rparr>)"
  proof (cases "trig_State t = state")
    case True
    with assms(2) t stored show ?thesis by (auto simp: trigger_Update_def fun_upd_idem)
  next
    case False
    with assms(2) t have "tk_Update tk (t\<lparr>trig_State := state\<rparr>) s = (None, s')"
      by (auto simp: trigger_Update_def split: prod.splits option.splits)
    with assms(1) show ?thesis by (auto simp: trigger_kube_ok_def)
  qed
  with t show ?thesis by blast
qed

theorem trigger_Update_correct_witness:
  "list_triggers (snd (trigger_Update list_trigger_kube ''ns'' ''web'' ''Schedule'' [ex_trigger ''Planning'']))
     (trigger_key (ex_trigger ''Planning'')) = Some (ex_trigger ''Schedule'')"
proof -
  have "trigger_Update list_trigger_kube ''ns'' ''web'' ''Schedule'' [ex_trigger ''Planning''] =
      (None, snd (trigger_Update list_trigger_kube ''ns'' ''web'' ''Schedule'' [ex_trigger ''Planning'']))"
    by (simp add: trigger_Update_def ex_trigger_Get, simp add: list_trigger_kube_def ex_trigger_def)
  from trigger_Update_correct [OF list_trigger_kube_ok this] show ?thesis
    by (simp add: ex_trigger_Get) (simp add: ex_trigger_def)
qed

section \<open>An API server in a larger world\<close>

definition lift_trigger_kube :: "('w \<Rightarrow> 's) \<Rightarrow> ('s \<Rightarrow> 'w \<Rightarrow> 'w) \<Rightarrow> 's trigger_kube \<Rightarrow> 'w trigger_kube" where
  "lift_trigger_kube get put tk =
     \<lparr>tk_Get = (\<lambda>k w. tk_Get tk k (get w)), tk_List = (\<lambda>ns ls w. tk_List tk ns ls (get w)),
      tk_Update = (\<lambda>t w. case tk_Update tk t (get w) of (r, s) \<Rightarrow> (r, put s w))\<rparr>"

lemma lift_trigger_Get:
  "trigger_Get (lift_trigger_kube get put tk) ns podset w = trigger_Get tk ns podset (get w)"
  by (simp add: trigger_Get_def trigger_List_def lift_trigger_kube_def)

end
