(* ===== verification/Duration.thy ===== *)
theory Duration
  imports Complex_Main Decimal
begin

text \<open>
  \<^verbatim>\<open>time.ParseDuration\<close> of the standard library, by which the quiet time of a trigger, the
  timeouts of the scheduler plugin and the flags of the planner are read. A
  \<^verbatim>\<open>time.Duration\<close> is an \<^verbatim>\<open>int64\<close> of nanoseconds; inside, the function counts in
  \<^verbatim>\<open>uint64\<close>, written here as integers with the wrap-around \<open>u64\<close>.

  A fraction such as that of \<^verbatim>\<open>1.5h\<close> is computed in \<^verbatim>\<open>float64\<close>. A positive \<^verbatim>\<open>float64\<close> is
  the pair of a numerator and a positive denominator; \<open>float64_round\<close> rounds a quotient to
  the nearest number with a significand of 53 bits, ties to even. The exponents that occur
  are far from the limits of the format.
\<close>

section \<open>Numbers\<close>

definition u64 :: "int \<Rightarrow> int" where
  "u64 x = x mod 2 ^ 64"

definition s64 :: "int \<Rightarrow> int" where
  "s64 x = (x + 2 ^ 63) mod 2 ^ 64 - 2 ^ 63"

type_synonym float64 = "int \<times> int"

fun bits :: "int \<Rightarrow> nat" where
  "bits n = (if n \<le> 0 then 0 else Suc (bits (n div 2)))"

declare bits.simps [simp del]

definition float64_shift :: "int \<Rightarrow> int \<Rightarrow> int" where
  "float64_shift n d =
     (let k = 53 + int (bits d) - int (bits n)
      in if 2 ^ 53 * (d * 2 ^ nat (- k)) \<le> n * 2 ^ nat k then k - 1 else k)"

definition round_half_even :: "int \<Rightarrow> int \<Rightarrow> int" where
  "round_half_even n d =
     (let q = n div d; r = n mod d
      in if 2 * r > d \<or> 2 * r = d \<and> odd q then q + 1 else q)"

definition float64_round :: "float64 \<Rightarrow> float64" where
  "float64_round x =
     (case x of (n, d) \<Rightarrow>
        if n = 0 then (0, 1)
        else let k = float64_shift n d
             in (round_half_even (n * 2 ^ nat k) (d * 2 ^ nat (- k)) * 2 ^ nat (- k), 2 ^ nat k))"

definition float64_of :: "int \<Rightarrow> float64" where
  "float64_of x = float64_round (x, 1)"

definition float64_mult :: "float64 \<Rightarrow> float64 \<Rightarrow> float64" where
  "float64_mult x y = float64_round (fst x * fst y, snd x * snd y)"

definition float64_div :: "float64 \<Rightarrow> float64 \<Rightarrow> float64" where
  "float64_div x y = float64_round (fst x * snd y, snd x * fst y)"

definition float64_trunc :: "float64 \<Rightarrow> int" where
  "float64_trunc x = u64 (fst x div snd x)"

section \<open>Parsing\<close>

definition is_digit :: "char \<Rightarrow> bool" where
  "is_digit c \<longleftrightarrow> 48 \<le> (of_char c :: nat) \<and> of_char c \<le> (57 :: nat)"

fun leadingInt :: "int \<Rightarrow> string \<Rightarrow> (int \<times> string) option" where
  "leadingInt x [] = Some (x, [])"
| "leadingInt x (c # s) =
     (if \<not> is_digit c then Some (x, c # s)
      else if x > 2 ^ 63 div 10 then None
      else let x = u64 (x * 10 + int (digit_val c))
           in if x > 2 ^ 63 then None else leadingInt x s)"

fun leadingFraction :: "int \<Rightarrow> float64 \<Rightarrow> bool \<Rightarrow> string \<Rightarrow> int \<times> float64 \<times> string" where
  "leadingFraction x scale overflow [] = (x, scale, [])"
| "leadingFraction x scale overflow (c # s) =
     (if \<not> is_digit c then (x, scale, c # s)
      else if overflow then leadingFraction x scale overflow s
      else if x > (2 ^ 63 - 1) div 10 then leadingFraction x scale True s
      else let y = u64 (x * 10 + int (digit_val c))
           in if y > 2 ^ 63 then leadingFraction x scale True s
              else leadingFraction y (float64_mult scale (10, 1)) overflow s)"

definition unitMap :: "(string \<times> int) list" where
  "unitMap =
     [(''ns'', 1), (''us'', 1000), ([CHR 0xC2, CHR 0xB5, CHR ''s''], 1000),
      ([CHR 0xCE, CHR 0xBC, CHR ''s''], 1000), (''ms'', 1000000), (''s'', 1000000000),
      (''m'', 60000000000), (''h'', 3600000000000)]"

datatype duration_error = InvalidDuration | MissingUnit | UnknownUnit string

text \<open>
  One round of the loop: a number with an optional fraction, and a unit. It gives the value in
  nanoseconds and what is left of the string.
\<close>

definition unit_char :: "char \<Rightarrow> bool" where
  "unit_char c \<longleftrightarrow> \<not> (c = CHR ''.'' \<or> is_digit c)"

definition duration_value :: "int \<Rightarrow> int \<Rightarrow> float64 \<Rightarrow> int \<Rightarrow> duration_error + int" where
  "duration_value v f scale unit =
     (if v > 2 ^ 63 div unit then Inl InvalidDuration
      else let v = u64 (v * unit)
           in if f > 0 then
                let v = u64 (v + float64_trunc (float64_mult (float64_of f) (float64_div (float64_of unit) scale)))
                in if v > 2 ^ 63 then Inl InvalidDuration else Inr v
              else Inr v)"

definition duration_segment :: "string \<Rightarrow> duration_error + int \<times> string" where
  "duration_segment s =
     (if \<not> (s \<noteq> [] \<and> (hd s = CHR ''.'' \<or> is_digit (hd s))) then Inl InvalidDuration
      else case leadingInt 0 s of
        None \<Rightarrow> Inl InvalidDuration
      | Some (v, s1) \<Rightarrow>
          let pre = length s \<noteq> length s1;
              (f, scale, post, s2) =
                (if s1 \<noteq> [] \<and> hd s1 = CHR ''.'' then
                   let (f, scale, r) = leadingFraction 0 (1, 1) False (tl s1)
                   in (f, scale, length (tl s1) \<noteq> length r, r)
                 else (0, (1, 1), False, s1))
          in if \<not> pre \<and> \<not> post then Inl InvalidDuration
             else let u = takeWhile unit_char s2; s3 = dropWhile unit_char s2
                  in if u = [] then Inl MissingUnit
                     else (case map_of unitMap u of
                       None \<Rightarrow> Inl (UnknownUnit u)
                     | Some unit \<Rightarrow>
                         (case duration_value v f scale unit of
                            Inl e \<Rightarrow> Inl e
                          | Inr v \<Rightarrow> Inr (v, s3))))"

lemma leadingInt_shrinks: "leadingInt x s = Some (v, s') \<Longrightarrow> length s' \<le> length s"
  by (induction x s rule: leadingInt.induct)
    (auto simp: Let_def split: if_splits)

lemma leadingFraction_shrinks: "leadingFraction x sc ov s = (f, sc', s') \<Longrightarrow> length s' \<le> length s"
  by (induction x sc ov s rule: leadingFraction.induct) (auto simp: Let_def split: if_splits)

lemma duration_segment_shrinks:
  assumes "duration_segment s = Inr (v, s')"
  shows "length s' < length s"
proof -
  have drop: "length (dropWhile unit_char r) < m" if "takeWhile unit_char r \<noteq> []" "length r \<le> m" for r m
    using that by (cases r) (auto split: if_splits intro: le_less_trans [OF length_dropWhile_le])
  from assms show ?thesis
    by (auto simp: duration_segment_def Let_def split: if_splits option.splits prod.splits sum.splits
        dest!: leadingInt_shrinks leadingFraction_shrinks)
      (erule drop, linarith)+
qed

function duration_loop :: "int \<Rightarrow> string \<Rightarrow> duration_error + int" where
  "duration_loop d s =
     (if s = [] then Inr d
      else case duration_segment s of
        Inl e \<Rightarrow> Inl e
      | Inr (v, s') \<Rightarrow>
          let d = u64 (d + v)
          in if d > 2 ^ 63 then Inl InvalidDuration else duration_loop d s')"
  by pat_completeness auto

termination
  by (relation "measure (\<lambda>(d, s). length s)") (auto dest: duration_segment_shrinks)

declare duration_loop.simps [simp del]

definition ParseDuration :: "string \<Rightarrow> duration_error + int" where
  "ParseDuration s =
     (let (neg, s) = (case s of
            c # r \<Rightarrow> if c = CHR ''-'' \<or> c = CHR ''+'' then (c = CHR ''-'', r) else (False, s)
          | [] \<Rightarrow> (False, s))
      in if s = ''0'' then Inr 0
         else if s = '''' then Inl InvalidDuration
         else case duration_loop 0 s of
           Inl e \<Rightarrow> Inl e
         | Inr d \<Rightarrow>
             if neg then Inr (s64 (- s64 d))
             else if d > 2 ^ 63 - 1 then Inl InvalidDuration
             else Inr (s64 d))"

section \<open>Rounding\<close>

definition float64_val :: "float64 \<Rightarrow> real" where
  "float64_val x = real_of_int (fst x) / real_of_int (snd x)"

lemma bits_bounds: "0 < n \<Longrightarrow> 2 ^ bits n \<le> 2 * n \<and> n < 2 ^ bits n"
proof (induction n rule: bits.induct)
  case (1 n)
  show ?case
  proof (cases "n = 1")
    case True
    then show ?thesis by (simp add: bits.simps)
  next
    case False
    with "1.prems" "1.IH" have "2 ^ bits (n div 2) \<le> 2 * (n div 2)" "n div 2 < 2 ^ bits (n div 2)"
      by auto
    moreover define m :: int where "m = 2 ^ bits (n div 2)"
    moreover have "2 ^ bits n = 2 * m" using "1.prems" by (simp add: bits.simps [of n] m_def)
    ultimately show ?thesis by auto
  qed
qed

lemma bits_log:
  assumes "0 < n"
  shows "(2::real) powi (int (bits n) - 1) \<le> of_int n" and "of_int n < (2::real) powi int (bits n)"
proof -
  have "real_of_int (2 ^ bits n) \<le> of_int (2 * n)" "real_of_int n < of_int (2 ^ bits n)"
    using bits_bounds [OF assms] by (simp_all only: of_int_le_iff of_int_less_iff)
  then show "(2::real) powi (int (bits n) - 1) \<le> of_int n" "of_int n < (2::real) powi int (bits n)"
    by (simp_all add: power_int_diff)
qed

lemma powi_split: "(2::real) powi (a + b) = 2 powi a * 2 powi b" "(2::real) powi (a - b) = 2 powi a / 2 powi b"
  by (simp_all add: power_int_add power_int_diff)

lemma scale_powi: "real_of_int (n * 2 ^ nat k) / of_int (d * 2 ^ nat (- k)) = of_int n / of_int d * 2 powi k"
proof (cases "0 \<le> k")
  case True
  then obtain m where "k = int m" using nonneg_int_cases by blast
  then show ?thesis by simp
next
  case False
  then obtain m where "k = - int m" by (metis int_cases2 of_nat_0_le_iff)
  then show ?thesis by (simp add: power_int_minus field_simps)
qed

lemma float64_shift_range:
  assumes "0 < n" "0 < d"
  shows "2 ^ 52 \<le> (of_int n / of_int d :: real) * 2 powi float64_shift n d"
    and "(of_int n / of_int d :: real) * 2 powi float64_shift n d < 2 ^ 53"
proof -
  define bn bd where b: "bn = int (bits n)" "bd = int (bits d)"
  define k where k: "k = 53 + bd - bn"
  let ?x = "of_int n / of_int d :: real"
  have d0: "0 < real_of_int d" using assms by simp
  have half: "?x * 2 powi (k - 1) = ?x * 2 powi k / 2" by (simp add: powi_split(2))
  have cond: "2 ^ 53 * (d * 2 ^ nat (- k)) \<le> n * 2 ^ nat k \<longleftrightarrow> 2 ^ 53 \<le> ?x * 2 powi k"
  proof -
    have "2 ^ 53 * (d * 2 ^ nat (- k)) \<le> n * 2 ^ nat k \<longleftrightarrow>
        2 ^ 53 * real_of_int (d * 2 ^ nat (- k)) \<le> of_int (n * 2 ^ nat k)"
      by (metis (mono_tags) of_int_le_iff of_int_mult of_int_numeral of_int_power)
    also have "\<dots> \<longleftrightarrow> 2 ^ 53 \<le> real_of_int (n * 2 ^ nat k) / of_int (d * 2 ^ nat (- k))"
      using assms by (subst pos_le_divide_eq) auto
    finally show ?thesis by (simp only: scale_powi)
  qed
  have e: "bn - 1 + k = 52 + bd" "bn + k = 54 + (bd - 1)" by (simp_all add: k)
  have "2 powi (bn - 1) * 2 powi k = (2::real) powi 52 * 2 powi bd"
    by (simp only: powi_split(1) [symmetric] e)
  moreover have "2 powi 52 * real_of_int d \<le> 2 powi 52 * 2 powi bd"
    using bits_log(2) [OF assms(2)] unfolding b by (intro mult_left_mono) auto
  moreover have "2 powi (bn - 1) * 2 powi k \<le> of_int n * (2::real) powi k"
    using bits_log(1) [OF assms(1)] unfolding b by (intro mult_right_mono) auto
  ultimately have "2 powi 52 * real_of_int d \<le> of_int n * 2 powi k" by linarith
  then have lo: "2 powi 52 \<le> ?x * 2 powi k" using d0 by (simp add: field_simps)
  have "2 powi bn * 2 powi k = (2::real) powi 54 * 2 powi (bd - 1)"
    by (simp only: powi_split(1) [symmetric] e)
  moreover have "of_int n * 2 powi k < 2 powi bn * (2::real) powi k"
    using bits_log(2) [OF assms(1)] unfolding b by (intro mult_strict_right_mono) auto
  moreover have "2 powi 54 * 2 powi (bd - 1) \<le> 2 powi 54 * real_of_int d"
    using bits_log(1) [OF assms(2)] unfolding b by (intro mult_left_mono) auto
  ultimately have "of_int n * 2 powi k < 2 powi 54 * real_of_int d" by linarith
  then have hi: "?x * 2 powi k < 2 powi 54" using d0 by (simp add: field_simps)
  have p: "(2::real) powi 52 = 2 ^ 52" "(2::real) powi 54 = 2 * 2 ^ 53" by simp_all
  have "float64_shift n d = (if 2 ^ 53 \<le> ?x * 2 powi k then k - 1 else k)"
    unfolding float64_shift_def Let_def b [symmetric] k [symmetric] cond ..
  with half have "?x * 2 powi float64_shift n d =
      (if 2 ^ 53 \<le> ?x * 2 powi k then ?x * 2 powi k / 2 else ?x * 2 powi k)" by (simp only: if_distrib) simp
  moreover have "2 ^ 52 \<le> z \<and> z < 2 ^ 53"
    if "2 ^ 52 \<le> y" "y < 2 * 2 ^ 53" "z = (if 2 ^ 53 \<le> y then y / 2 else y)" for y z :: real
    using that by (auto split: if_splits)
  ultimately show "2 ^ 52 \<le> ?x * 2 powi float64_shift n d" "?x * 2 powi float64_shift n d < 2 ^ 53"
    using lo hi unfolding p by blast+
qed

lemma round_half_even_near:
  assumes "0 < d"
  shows "\<bar>real_of_int (round_half_even n d) - of_int n / of_int d\<bar> \<le> 1 / 2"
proof -
  define q r where qr: "q = n div d" "r = n mod d"
  have n: "n = q * d + r" "0 \<le> r" "r < d" using assms by (simp_all add: qr)
  have "of_int n / of_int d = real_of_int q + of_int r / of_int d"
    using assms unfolding n(1) by (simp add: field_simps)
  moreover have "0 \<le> real_of_int r / of_int d" using n assms by simp
  moreover have "real_of_int r / of_int d \<le> 1 / 2" if "2 * r \<le> d"
  proof -
    from that have "2 * real_of_int r \<le> of_int d" by linarith
    then show ?thesis using assms by (simp add: field_simps)
  qed
  moreover have "1 / 2 \<le> real_of_int r / of_int d \<and> real_of_int r / of_int d \<le> 1" if "d \<le> 2 * r"
  proof -
    from that n have "real_of_int d \<le> 2 * of_int r" "real_of_int r \<le> of_int d" by linarith+
    then show ?thesis using assms by (simp add: field_simps)
  qed
  ultimately show ?thesis
    by (cases "2 * r < d"; cases "2 * r = d") (auto simp: round_half_even_def Let_def qr [symmetric])
qed

lemma round_half_even_exact: "0 < d \<Longrightarrow> d dvd n \<Longrightarrow> round_half_even n d = n div d"
  by (auto simp: round_half_even_def Let_def)

text \<open>The scaled quotient of \<open>float64_round\<close>, and the value of its result.\<close>

lemma float64_round_val:
  assumes "0 < n" "0 < d" and "k = float64_shift n d"
  shows "float64_val (float64_round (n, d)) =
      of_int (round_half_even (n * 2 ^ nat k) (d * 2 ^ nat (- k))) * 2 powi (- k)"
    and "0 < snd (float64_round (n, d))"
proof -
  have "real_of_int (m * 2 ^ nat (- k)) / of_int (2 ^ nat k) = of_int m * 2 powi (- k)" for m
    using scale_powi [of m "- k" 1] by simp
  then show "float64_val (float64_round (n, d)) =
      of_int (round_half_even (n * 2 ^ nat k) (d * 2 ^ nat (- k))) * 2 powi (- k)"
    using assms by (simp add: float64_round_def float64_val_def Let_def)
  show "0 < snd (float64_round (n, d))" using assms by (simp add: float64_round_def Let_def)
qed

lemma float64_round_error:
  assumes "0 < n" "0 < d"
  shows "\<bar>float64_val (float64_round (n, d)) - float64_val (n, d)\<bar> \<le> float64_val (n, d) / 2 ^ 53"
proof -
  define k where k: "k = float64_shift n d"
  let ?x = "float64_val (n, d)"
  define m where "m = real_of_int (round_half_even (n * 2 ^ nat k) (d * 2 ^ nat (- k)))"
  have x: "?x = of_int n / of_int d" by (simp add: float64_val_def)
  have p: "0 < (2::real) powi (- k)" "2 powi k * (2::real) powi (- k) = 1"
    by (simp_all add: powi_split(1) [symmetric])
  have "\<bar>m - ?x * 2 powi k\<bar> \<le> 1 / 2"
    using round_half_even_near [of "d * 2 ^ nat (- k)" "n * 2 ^ nat k"] assms
    unfolding m_def x by (simp only: scale_powi) simp
  moreover have "1 / 2 \<le> z / 2 ^ 53" if "2 ^ 52 \<le> z" for z :: real
    using that by simp
  then have "1 / 2 \<le> ?x * 2 powi k / 2 ^ 53"
    using float64_shift_range(1) [OF assms] unfolding x k by blast
  ultimately have "\<bar>m - ?x * 2 powi k\<bar> * 2 powi (- k) \<le> ?x * 2 powi k / 2 ^ 53 * 2 powi (- k)"
    using p(1) by (intro mult_right_mono) auto
  moreover have "?x * 2 powi k / 2 ^ 53 * 2 powi (- k) = ?x / 2 ^ 53"
    using p(2) by (simp add: mult.assoc)
  moreover have "\<bar>m - ?x * 2 powi k\<bar> * 2 powi (- k) = \<bar>m * 2 powi (- k) - ?x\<bar>"
  proof -
    have "\<bar>m - ?x * 2 powi k\<bar> * 2 powi (- k) = \<bar>(m - ?x * 2 powi k) * 2 powi (- k)\<bar>"
      using p(1) by (simp add: abs_mult)
    also have "(m - ?x * 2 powi k) * 2 powi (- k) = m * 2 powi (- k) - ?x"
      using p(2) by (simp add: left_diff_distrib mult.assoc)
    finally show ?thesis .
  qed
  ultimately have "\<bar>m * 2 powi (- k) - ?x\<bar> \<le> ?x / 2 ^ 53" by (simp only:)
  then show ?thesis
    using float64_round_val(1) [OF assms k] unfolding m_def by (simp only:)
qed

lemma float64_round_exact:
  assumes "0 < n" "0 < d" and x: "float64_val (n, d) = of_int m * 2 powi e" and "m < 2 ^ 53"
  shows "float64_val (float64_round (n, d)) = float64_val (n, d)"
proof -
  define k where k: "k = float64_shift n d"
  let ?N = "n * 2 ^ nat k" and ?D = "d * 2 ^ nat (- k)"
  have D: "0 < ?D" using assms by simp
  have scaled: "real_of_int ?N / of_int ?D = of_int m * 2 powi (e + k)"
    using x by (simp only: scale_powi float64_val_def fst_conv snd_conv powi_split(1) mult.assoc)
  have "2 ^ 52 \<le> real_of_int m * 2 powi (e + k)"
    using float64_shift_range(1) [OF assms(1,2)] unfolding k [symmetric] scale_powi [symmetric] scaled .
  moreover have "real_of_int m * 2 powi (e + k) < 2 ^ 52" if "e + k < 0"
  proof -
    have "(2::real) powi (e + k) \<le> 2 powi (- 1)" using that by (intro power_int_increasing) auto
    moreover have "real_of_int m < 2 ^ 53" using \<open>m < 2 ^ 53\<close> by simp
    moreover have "0 < (2::real) powi (e + k)" by simp
    ultimately have "real_of_int m * 2 powi (e + k) < 2 ^ 53 * 2 powi (- 1)"
      by (meson mult_less_le_imp_less less_imp_le mult_strict_right_mono mult_left_mono less_le_trans zero_le_power zero_le_numeral)
    then show ?thesis by simp
  qed
  ultimately obtain j where j: "e + k = int j" by (metis linorder_not_less nonneg_int_cases)
  have "real_of_int ?N = of_int m * 2 powi (e + k) * of_int ?D"
    using scaled D by (metis less_irrefl nonzero_divide_eq_eq of_int_0_eq_iff)
  then have "real_of_int ?N = of_int (?D * (m * 2 ^ j))"
    unfolding j by simp
  then have N: "?N = ?D * (m * 2 ^ j)" by (simp only: of_int_eq_iff)
  then have "round_half_even ?N ?D = m * 2 ^ j" using D by (metis dvd_triv_left nonzero_mult_div_cancel_left round_half_even_exact less_irrefl)
  then have "float64_val (float64_round (n, d)) = of_int (m * 2 ^ j) * 2 powi (- k)"
    using float64_round_val(1) [OF assms(1,2) k] by simp
  also have "\<dots> = of_int m * 2 powi (int j - k)" by (simp add: powi_split(2) power_int_minus field_simps)
  finally show ?thesis using x j by (metis add_diff_cancel_right')
qed

lemma float64_val_pos:
  assumes "0 < n" "0 < d"
  shows "0 < fst (float64_round (n, d))" "0 < snd (float64_round (n, d))"
proof -
  have "0 < float64_val (n, d)" using assms by (simp add: float64_val_def)
  moreover from this have "float64_val (n, d) / 2 ^ 53 \<le> float64_val (n, d) / 2" by simp
  ultimately have "0 < float64_val (float64_round (n, d))"
    using float64_round_error [OF assms] by linarith
  moreover show "0 < snd (float64_round (n, d))" using float64_round_val(2) [OF assms refl] .
  ultimately show "0 < fst (float64_round (n, d))" by (simp add: float64_val_def zero_less_divide_iff)
qed

section \<open>Reading digits\<close>

lemma is_digit_digits: "is_digit c \<longleftrightarrow> c \<in> digits"
proof
  assume c: "is_digit c"
  then have "c = digit_char (of_char c - 48)"
    by (simp add: is_digit_def digit_char_def)
  moreover have "(of_char c :: nat) - 48 < 10" using c by (auto simp: is_digit_def)
  ultimately show "c \<in> digits" unfolding digits_def by blast
next
  assume "c \<in> digits"
  then show "is_digit c" by (auto simp: digits_def is_digit_def of_char_digit)
qed

lemma digit_val_less: "is_digit c \<Longrightarrow> digit_val c < 10"
  by (auto simp: is_digit_def digit_val_def)

definition read_digits :: "int \<Rightarrow> string \<Rightarrow> int" where
  "read_digits x s = foldl (\<lambda>n c. n * 10 + int (digit_val c)) x s"

lemma read_digits_simps [simp]:
  "read_digits x [] = x" "read_digits x (c # s) = read_digits (x * 10 + int (digit_val c)) s"
  by (simp_all add: read_digits_def)

lemma read_digits_ge: "0 \<le> x \<Longrightarrow> x \<le> read_digits x s"
proof (induction s arbitrary: x)
  case (Cons c s)
  from Cons.IH [of "x * 10 + int (digit_val c)"] Cons.prems show ?case by simp
qed simp

lemma read_digits_less:
  "0 \<le> x \<Longrightarrow> x < 10 ^ j \<Longrightarrow> \<forall>c \<in> set s. is_digit c \<Longrightarrow> read_digits x s < 10 ^ (j + length s)"
proof (induction s arbitrary: x j)
  case (Cons c s)
  have "x * 10 + int (digit_val c) < 10 ^ Suc j"
    using Cons.prems digit_val_less [of c] by simp
  from Cons.IH [OF _ this] Cons.prems show ?case by simp
qed simp

lemma read_digits_sprint: "read_digits 0 (sprint_nat n) = int n"
proof -
  have "foldl (\<lambda>n c. n * 10 + int (digit_val c)) (int x) s = int (foldl (\<lambda>n c. 10 * n + digit_val c) x s)"
    for x s
  proof (induction s arbitrary: x)
    case (Cons c s)
    from Cons.IH [of "10 * x + digit_val c"] show ?case by (simp add: mult.commute)
  qed simp
  from this [of 0 "sprint_nat n"] show ?thesis
    by (simp add: read_digits_def flip: undecimal_def) (simp add: undecimal_sprint)
qed

lemma sprint_is_digit: "c \<in> set (sprint_nat n) \<Longrightarrow> is_digit c"
  using sprint_digits [of n] by (auto simp: is_digit_digits)

text \<open>What follows the digits is not a digit.\<close>

definition digits_end :: "string \<Rightarrow> bool" where
  "digits_end r \<longleftrightarrow> r = [] \<or> \<not> is_digit (hd r)"

lemma leadingInt_digits:
  assumes "\<forall>c \<in> set ds. is_digit c" "digits_end r" "0 \<le> x" "x \<le> 2 ^ 63"
  shows "leadingInt x (ds @ r) =
    (if read_digits x ds \<le> 2 ^ 63 then Some (read_digits x ds, r) else None)"
  using assms
proof (induction ds arbitrary: x)
  case Nil
  then show ?case by (cases r) (auto simp: digits_end_def)
next
  case (Cons c ds)
  have v: "digit_val c < 10" using Cons.prems by (simp add: digit_val_less)
  let ?y = "x * 10 + int (digit_val c)"
  have ge: "?y \<le> read_digits x (c # ds)" using read_digits_ge [of ?y ds] Cons.prems by simp
  show ?case
  proof (cases "?y \<le> 2 ^ 63")
    case True
    then have "u64 ?y = ?y" and "x \<le> 2 ^ 63 div 10" using Cons.prems v by (auto simp: u64_def)
    with True Cons show ?thesis by simp
  next
    case False
    have "u64 ?y = ?y" if "\<not> x > 2 ^ 63 div 10" using that Cons.prems v by (simp add: u64_def)
    with False ge Cons.prems show ?thesis by (auto simp: Let_def)
  qed
qed

lemma float64_mult_ten:
  assumes "float64_val x = 10 ^ j" "j < 22" "0 < fst x" "0 < snd x"
  shows "float64_val (float64_mult x (10, 1)) = 10 ^ Suc j"
    and "0 < fst (float64_mult x (10, 1))" "0 < snd (float64_mult x (10, 1))"
proof -
  have "float64_val (fst x * 10, snd x) = 10 * float64_val x" by (simp add: float64_val_def)
  then have val: "float64_val (fst x * 10, snd x) = 10 ^ Suc j" using assms(1) by simp
  have "(10::real) ^ Suc j = (5 * 2) ^ Suc j" by simp
  also have "\<dots> = real_of_int (5 ^ Suc j) * 2 powi int (Suc j)" 
    by (simp only: power_mult_distrib power_int_of_nat of_int_power of_int_numeral)
  finally have "float64_val (fst x * 10, snd x) = real_of_int (5 ^ Suc j) * 2 powi int (Suc j)"
    by (simp only: val)
  moreover have "(5::int) ^ Suc j \<le> 5 ^ 22" using assms(2) by (intro power_increasing) auto
  then have "(5::int) ^ Suc j < 2 ^ 53" by simp
  ultimately have "float64_val (float64_round (fst x * 10, snd x)) = 10 ^ Suc j"
    using float64_round_exact [of "fst x * 10" "snd x" "5 ^ Suc j" "int (Suc j)"] assms val
    by (simp only: mult_pos_pos zero_less_numeral)
  then show "float64_val (float64_mult x (10, 1)) = 10 ^ Suc j" by (simp add: float64_mult_def)
  show "0 < fst (float64_mult x (10, 1))" "0 < snd (float64_mult x (10, 1))"
    using float64_val_pos [of "fst x * 10" "snd x"] assms by (simp_all add: float64_mult_def)
qed

text \<open>Up to eighteen digits of a fraction are read without loss.\<close>

lemma leadingFraction_digits:
  assumes "\<forall>c \<in> set ds. is_digit c" "digits_end r" "0 \<le> x" "x < 10 ^ j" "j + length ds \<le> 18"
    and "float64_val sc = 10 ^ j" "0 < fst sc" "0 < snd sc"
  shows "\<exists>sc'. leadingFraction x sc False (ds @ r) = (read_digits x ds, sc', r) \<and>
    float64_val sc' = 10 ^ (j + length ds) \<and> 0 < fst sc' \<and> 0 < snd sc'"
  using assms
proof (induction ds arbitrary: x j sc)
  case Nil
  then show ?case by (cases r) (auto simp: digits_end_def)
next
  case (Cons c ds)
  let ?y = "x * 10 + int (digit_val c)"
  have v: "digit_val c < 10" using Cons.prems by (simp add: digit_val_less)
  have j: "10 ^ Suc j \<le> (10::int) ^ 18" using Cons.prems by (intro power_increasing) auto
  have y: "0 \<le> ?y" "?y < 10 ^ Suc j" using Cons.prems v by simp_all
  then have small: "?y < 10 ^ 18" "u64 ?y = ?y" using j by (simp_all add: u64_def)
  then have le: "\<not> x > (2 ^ 63 - 1) div 10" "\<not> u64 ?y > 2 ^ 63" using Cons.prems by simp_all
  have ten: "float64_val (float64_mult sc (10, 1)) = 10 ^ Suc j" "0 < fst (float64_mult sc (10, 1))"
    "0 < snd (float64_mult sc (10, 1))"
    using float64_mult_ten [of sc j] Cons.prems by auto
  obtain sc' where "leadingFraction ?y (float64_mult sc (10, 1)) False (ds @ r) = (read_digits ?y ds, sc', r) \<and>
      float64_val sc' = 10 ^ (Suc j + length ds) \<and> 0 < fst sc' \<and> 0 < snd sc'"
    using Cons.IH [OF _ _ y _ ten] Cons.prems by auto
  with Cons.prems le small(2) show ?case by (auto simp: Let_def)
qed

text \<open>
  Three roundings: a product of three factors, each off by one unit in \<open>2 ^ 53\<close>, is off by at
  most four.
\<close>

lemma three_roundings:
  fixes f w a b c :: real
  assumes "0 \<le> f" "0 \<le> w" and "\<bar>a - f\<bar> \<le> f / 2 ^ 53" "\<bar>b - w\<bar> \<le> w / 2 ^ 53" "\<bar>c - a * b\<bar> \<le> a * b / 2 ^ 53"
  shows "\<bar>c - f * w\<bar> \<le> 4 * (f * w) / 2 ^ 53"
proof -
  define e :: real where "e = 1 / 2 ^ 53"
  have e: "0 < e" "e < 1 / 8" by (simp_all add: e_def)
  have near: "z * (1 - e) \<le> x \<and> x \<le> z * (1 + e)" if "\<bar>x - z\<bar> \<le> z / 2 ^ 53" for x z :: real
  proof -
    have "\<bar>x - z\<bar> \<le> z * e" using that by (simp only: e_def times_divide_eq_right mult_1_right)
    then show ?thesis unfolding right_diff_distrib distrib_left by linarith
  qed
  have ab: "f * (1 - e) \<le> a" "a \<le> f * (1 + e)" "w * (1 - e) \<le> b" "b \<le> w * (1 + e)"
    and c: "a * b * (1 - e) \<le> c" "c \<le> a * b * (1 + e)"
    using near [OF assms(3)] near [OF assms(4)] near [OF assms(5)] by auto
  have pos: "0 \<le> f * (1 - e)" "0 \<le> w * (1 - e)" using assms e by auto
  have lo: "f * (1 - e) * (w * (1 - e)) \<le> a * b" using ab pos by (intro mult_mono) auto
  have hi: "a * b \<le> f * (1 + e) * (w * (1 + e))" 
    using ab pos assms(1,2) e order_trans [OF pos(2) ab(3)] by (intro mult_mono) auto
  have low: "f * (1 - e) * (w * (1 - e)) * (1 - e) \<le> c"
    using mult_right_mono [OF lo, of "1 - e"] c e by linarith
  have high: "c \<le> f * (1 + e) * (w * (1 + e)) * (1 + e)"
    using mult_right_mono [OF hi, of "1 + e"] c e by linarith
  have sq: "0 \<le> e * e" "e * e \<le> e / 8" using e mult_left_mono [of e "1 / 8" e] by auto
  have "e * (e * e) \<le> e * (e / 8)" using e sq by (intro mult_left_mono) auto
  then have cb: "e * (e * e) \<le> e / 64" "0 \<le> e * (e * e)" using sq e by (linarith, simp)
  have dn: "(1 - e) * (1 - e) * (1 - e) = 1 - 3 * e + 3 * (e * e) - e * (e * e)"
    and up: "(1 + e) * (1 + e) * (1 + e) = 1 + 3 * e + 3 * (e * e) + e * (e * e)" by (simp_all add: algebra_simps)
  have "1 - 4 * e \<le> (1 - e) * (1 - e) * (1 - e)" unfolding dn using sq cb e by argo
  moreover have "(1 + e) * (1 + e) * (1 + e) \<le> 1 + 4 * e" unfolding up using sq cb e by argo
  ultimately
  have "f * w * (1 - 4 * e) \<le> f * w * ((1 - e) * (1 - e) * (1 - e))"
    "f * w * ((1 + e) * (1 + e) * (1 + e)) \<le> f * w * (1 + 4 * e)"
    using assms(1,2) by (auto intro: mult_left_mono)
  moreover have "f * (1 - e) * (w * (1 - e)) * (1 - e) = f * w * ((1 - e) * (1 - e) * (1 - e))"
    "f * (1 + e) * (w * (1 + e)) * (1 + e) = f * w * ((1 + e) * (1 + e) * (1 + e))" by (simp_all only: ac_simps)
  ultimately have "f * w * (1 - 4 * e) \<le> c" "c \<le> f * w * (1 + 4 * e)"
    using low high by linarith+
  moreover have "4 * (f * w) / 2 ^ 53 = f * w * (4 * e)" by (simp add: e_def)
  ultimately show ?thesis unfolding right_diff_distrib distrib_left by linarith
qed

lemma float64_val_mult: "float64_val (fst x * fst y, snd x * snd y) = float64_val x * float64_val y"
  and float64_val_div: "float64_val (fst x * snd y, snd x * fst y) = float64_val x / float64_val y"
  by (simp_all add: float64_val_def)

lemma unitMap_bounds: "(u, unit) \<in> set unitMap \<Longrightarrow> 0 < unit \<and> unit \<le> 3600000000000"
  by (auto simp: unitMap_def)

lemma fraction_near:
  assumes "0 < f" "f < 10 ^ j" "(u, unit) \<in> set unitMap"
    and sc: "float64_val sc = 10 ^ j" "0 < fst sc" "0 < snd sc"
  defines "t \<equiv> float64_trunc (float64_mult (float64_of f) (float64_div (float64_of unit) sc))"
    and "y \<equiv> real_of_int f * of_int unit / 10 ^ j"
  shows "y - 1 - 1 / 500 \<le> of_int t \<and> of_int t \<le> y + 1 / 500"
    and "0 \<le> t" "t \<le> unit"
proof -
  have unit: "0 < unit" "unit \<le> 3600000000000" using unitMap_bounds [OF assms(3)] by auto
  let ?F = "float64_of f" and ?U = "float64_of unit"
  let ?W = "float64_div ?U sc"
  let ?C = "float64_mult ?F ?W"
  have F: "\<bar>float64_val ?F - of_int f\<bar> \<le> of_int f / 2 ^ 53" "0 < fst ?F" "0 < snd ?F"
    using float64_round_error [of f 1] float64_val_pos [of f 1] assms(1)
    by (simp_all add: float64_of_def float64_val_def)
  have U: "float64_val ?U = of_int unit" "0 < fst ?U" "0 < snd ?U"
    using float64_round_exact [of unit 1 unit 0] float64_val_pos [of unit 1] unit
    by (simp_all add: float64_of_def float64_val_def)
  have w: "float64_val (fst ?U * snd sc, snd ?U * fst sc) = of_int unit / 10 ^ j"
    by (simp only: float64_val_div U sc)
  have W: "\<bar>float64_val ?W - of_int unit / 10 ^ j\<bar> \<le> of_int unit / 10 ^ j / 2 ^ 53" "0 < fst ?W" "0 < snd ?W"
    using float64_round_error [of "fst ?U * snd sc" "snd ?U * fst sc"]
      float64_val_pos [of "fst ?U * snd sc" "snd ?U * fst sc"] U sc
    unfolding w by (simp_all add: float64_div_def)
  have C: "\<bar>float64_val ?C - float64_val ?F * float64_val ?W\<bar> \<le> float64_val ?F * float64_val ?W / 2 ^ 53"
    "0 < fst ?C" "0 < snd ?C"
    using float64_round_error [of "fst ?F * fst ?W" "snd ?F * snd ?W"]
      float64_val_pos [of "fst ?F * fst ?W" "snd ?F * snd ?W"] F W
    unfolding float64_val_mult by (simp_all add: float64_mult_def)
  have "\<bar>float64_val ?C - of_int f * (of_int unit / 10 ^ j)\<bar> \<le> 4 * (of_int f * (of_int unit / 10 ^ j)) / 2 ^ 53"
    using assms(1) unit by (intro three_roundings [OF _ _ F(1) W(1) C(1)]) auto
  then have near: "\<bar>float64_val ?C - y\<bar> \<le> 4 * y / 2 ^ 53" by (simp add: y_def)
  have "real_of_int f \<le> 10 ^ j" using assms(2) by (metis less_imp_le of_int_le_iff of_int_numeral of_int_power)
  then have "y \<le> of_int unit" using unit by (simp add: y_def field_simps mult_left_mono)
  moreover have y0: "0 \<le> y" using assms(1) unit by (simp add: y_def)
  ultimately have "4 * y / 2 ^ 53 \<le> 1 / 500" using unit by simp
  with near have near': "\<bar>float64_val ?C - y\<bar> \<le> 1 / 500" by linarith
  have C0: "0 \<le> float64_val ?C" using C by (simp add: float64_val_def)
  have fl: "fst ?C div snd ?C = \<lfloor>float64_val ?C\<rfloor>" by (simp add: float64_val_def floor_divide_of_int_eq)
  have bound: "float64_val ?C < of_int unit + 1" using near' \<open>y \<le> of_int unit\<close> by linarith
  then have range: "0 \<le> \<lfloor>float64_val ?C\<rfloor>" "\<lfloor>float64_val ?C\<rfloor> \<le> unit" using C0 by linarith+
  moreover have "u64 m = m" if "0 \<le> m" "m \<le> unit" for m using that unit by (simp add: u64_def)
  ultimately have t: "t = \<lfloor>float64_val ?C\<rfloor>" by (simp only: t_def float64_trunc_def fl)
  show "y - 1 - 1 / 500 \<le> of_int t \<and> of_int t \<le> y + 1 / 500" using near' unfolding t by linarith
  show "0 \<le> t" "t \<le> unit" using range t by simp_all
qed

section \<open>Whole durations\<close>

lemma unitMap_lookup: "(u, unit) \<in> set unitMap \<Longrightarrow> map_of unitMap u = Some unit"
  by (rule map_of_is_SomeI) (simp_all add: unitMap_def)

lemma unitMap_chars: "(u, unit) \<in> set unitMap \<Longrightarrow> u \<noteq> [] \<and> (\<forall>c \<in> set u. unit_char c)"
  by (auto simp: unitMap_def unit_char_def is_digit_def)

lemma u64_id: "0 \<le> x \<Longrightarrow> x < 2 ^ 64 \<Longrightarrow> u64 x = x"
  by (simp add: u64_def)

text \<open>A string after a unit: the next number, or nothing.\<close>

definition unit_end :: "string \<Rightarrow> bool" where
  "unit_end r \<longleftrightarrow> r = [] \<or> \<not> unit_char (hd r)"

lemma take_unit:
  assumes "(u, unit) \<in> set unitMap" "unit_end r"
  shows "takeWhile unit_char (u @ r) = u" "dropWhile unit_char (u @ r) = r"
proof -
  have "\<forall>c \<in> set u. unit_char c" using unitMap_chars [OF assms(1)] by simp
  moreover have "takeWhile unit_char r = []" "dropWhile unit_char r = r"
    using assms(2) by (cases r; simp add: unit_end_def)+
  ultimately show "takeWhile unit_char (u @ r) = u" "dropWhile unit_char (u @ r) = r"
    by (simp_all add: takeWhile_append2 dropWhile_append2)
qed

lemma unit_start:
  assumes "(u, unit) \<in> set unitMap"
  shows "digits_end (u @ r)" "hd (u @ r) \<noteq> CHR ''.''"
  using unitMap_chars [OF assms] by (cases u; auto simp: digits_end_def unit_char_def)+

lemma duration_value_whole:
  assumes "0 \<le> v" "v \<le> 2 ^ 63" "0 < unit"
  shows "duration_value v 0 sc unit = (if v * unit \<le> 2 ^ 63 then Inr (v * unit) else Inl InvalidDuration)"
proof -
  have "v \<le> A div unit \<longleftrightarrow> v * unit \<le> A" for A
  proof
    assume "v \<le> A div unit"
    then have "v * unit \<le> A div unit * unit" using assms(3) by (simp add: mult_right_mono)
    also have "\<dots> \<le> A" using assms(3) by (metis div_mult_mod_eq le_add_same_cancel1 pos_mod_sign)
    finally show "v * unit \<le> A" .
  next
    assume "v * unit \<le> A"
    then have "v * unit div unit \<le> A div unit" using assms(3) by (rule zdiv_mono1)
    then show "v \<le> A div unit" using assms(3) by simp
  qed
  then have "v > 2 ^ 63 div unit \<longleftrightarrow> \<not> v * unit \<le> 2 ^ 63" by (metis linorder_not_le)
  with assms show ?thesis by (auto simp: duration_value_def u64_def)
qed

text \<open>A whole number and a unit, as they are printed.\<close>

definition segment_text :: "nat \<times> string \<Rightarrow> string" where
  "segment_text p = sprint_nat (fst p) @ snd p"

definition segment_val :: "nat \<times> string \<Rightarrow> int" where
  "segment_val p = (case map_of unitMap (snd p) of None \<Rightarrow> 0 | Some unit \<Rightarrow> int (fst p) * unit)"

definition segments_ok :: "(nat \<times> string) list \<Rightarrow> bool" where
  "segments_ok ps \<longleftrightarrow> list_all (\<lambda>p. snd p \<in> fst ` set unitMap) ps"

lemma hd_digit: "ds \<noteq> [] \<Longrightarrow> \<forall>c \<in> set ds. is_digit c \<Longrightarrow> is_digit (hd (ds @ r))"
  by (cases ds) auto

lemma duration_segment_whole:
  assumes "(u, unit) \<in> set unitMap" "unit_end r"
  shows "duration_segment (sprint_nat n @ u @ r) =
    (if int n * unit \<le> 2 ^ 63 then Inr (int n * unit, r) else Inl InvalidDuration)"
proof -
  have unit: "0 < unit" using unitMap_bounds [OF assms(1)] by simp
  have lead: "leadingInt 0 (sprint_nat n @ u @ r) = (if int n \<le> 2 ^ 63 then Some (int n, u @ r) else None)"
    using leadingInt_digits [of "sprint_nat n" "u @ r" 0] sprint_is_digit unit_start(1) [OF assms(1)]
    by (simp add: read_digits_sprint)
  have start: "is_digit (hd (sprint_nat n @ u @ r))" by (rule hd_digit) (auto dest: sprint_is_digit)
  have "int n \<le> int n * unit" using unit by (simp add: mult_le_cancel_left1)
  then show ?thesis
    using lead start unit_start(2) [OF assms(1)] take_unit [OF assms] unitMap_lookup [OF assms(1)]
      unitMap_chars [OF assms(1)] unit
    by (auto simp: duration_segment_def Let_def duration_value_whole)
qed

definition segments_text :: "(nat \<times> string) list \<Rightarrow> string" where
  "segments_text ps = concat (map segment_text ps)"

lemma unit_end_text: "unit_end (segments_text ps)"
proof (cases ps)
  case (Cons p ps')
  have "is_digit (hd (sprint_nat (fst p) @ r))" for r by (rule hd_digit) (auto dest: sprint_is_digit)
  then show ?thesis by (simp add: Cons segments_text_def segment_text_def unit_end_def unit_char_def)
qed (simp add: unit_end_def segments_text_def)

lemma segment_val_nonneg: "0 \<le> segment_val p"
  by (auto simp: segment_val_def split: option.split dest!: map_of_SomeD unitMap_bounds intro: mult_nonneg_nonneg)

lemma segments_val_nonneg: "0 \<le> (\<Sum>p \<leftarrow> ps. segment_val p)"
  by (induction ps) (auto intro: add_nonneg_nonneg segment_val_nonneg)

lemma duration_loop_whole:
  assumes "segments_ok ps" "0 \<le> d" "d \<le> 2 ^ 63" "d + (\<Sum>p \<leftarrow> ps. segment_val p) < 2 ^ 64"
  shows "duration_loop d (segments_text ps) =
    (if d + (\<Sum>p \<leftarrow> ps. segment_val p) \<le> 2 ^ 63 then Inr (d + (\<Sum>p \<leftarrow> ps. segment_val p))
     else Inl InvalidDuration)"
  using assms
proof (induction ps arbitrary: d)
  case Nil
  then show ?case by (simp add: segments_text_def duration_loop.simps [of d])
next
  case (Cons p ps)
  let ?rest = "\<Sum>p \<leftarrow> ps. segment_val p" and ?v = "segment_val p"
  obtain unit where unit: "(snd p, unit) \<in> set unitMap" using Cons.prems(1) by (auto simp: segments_ok_def)
  have v: "?v = int (fst p) * unit" by (simp add: segment_val_def unitMap_lookup [OF unit])
  have str: "segments_text (p # ps) = sprint_nat (fst p) @ snd p @ segments_text ps"
    by (simp add: segments_text_def segment_text_def)
  have "duration_segment (segments_text (p # ps)) =
      (if ?v \<le> 2 ^ 63 then Inr (?v, segments_text ps) else Inl InvalidDuration)"
    unfolding str v by (rule duration_segment_whole [OF unit unit_end_text])
  moreover have "0 \<le> ?v" "0 \<le> ?rest" by (rule segment_val_nonneg segments_val_nonneg)+
  moreover from this Cons.prems have "u64 (d + ?v) = d + ?v" by (intro u64_id) auto
  moreover have "segments_text (p # ps) \<noteq> []" by (simp add: str)
  ultimately show ?case
    using Cons.prems Cons.IH [of "d + ?v"]
    by (auto simp: duration_loop.simps [of d] segments_ok_def Let_def add.assoc)
qed

lemma s64_id: "- (2 ^ 63) \<le> x \<Longrightarrow> x < 2 ^ 63 \<Longrightarrow> s64 x = x"
  by (simp add: s64_def)

lemma ParseDuration_digit:
  assumes "s \<noteq> []" "is_digit (hd s)"
  shows "ParseDuration s =
    (if s = ''0'' then Inr 0
     else case duration_loop 0 s of
       Inl e \<Rightarrow> Inl e
     | Inr d \<Rightarrow> if d > 2 ^ 63 - 1 then Inl InvalidDuration else Inr (s64 d))"
    and "ParseDuration (CHR ''-'' # s) =
    (if s = ''0'' then Inr 0
     else case duration_loop 0 s of
       Inl e \<Rightarrow> Inl e
     | Inr d \<Rightarrow> Inr (s64 (- s64 d)))"
proof -
  obtain c r where s: "s = c # r" using assms(1) by (cases s) auto
  have "\<not> is_digit CHR ''-''" "\<not> is_digit CHR ''+''" by (simp_all add: is_digit_def)
  then have c: "c \<noteq> CHR ''-''" "c \<noteq> CHR ''+''" using assms(2) by (auto simp: s)
  show "ParseDuration s = (if s = ''0'' then Inr 0 else case duration_loop 0 s of Inl e \<Rightarrow> Inl e
      | Inr d \<Rightarrow> if d > 2 ^ 63 - 1 then Inl InvalidDuration else Inr (s64 d))"
    unfolding ParseDuration_def s using c by (simp split: sum.split)
  show "ParseDuration (CHR ''-'' # s) = (if s = ''0'' then Inr 0 else case duration_loop 0 s of Inl e \<Rightarrow> Inl e
      | Inr d \<Rightarrow> Inr (s64 (- s64 d)))"
    unfolding ParseDuration_def s by (simp split: sum.split)
qed

lemma segments_text_start:
  assumes "ps \<noteq> []" "segments_ok ps"
  shows "segments_text ps \<noteq> []" "is_digit (hd (segments_text ps))" "segments_text ps \<noteq> ''0''"
proof -
  obtain p ps' where ps: "ps = p # ps'" using assms(1) by (cases ps) auto
  have "is_digit (hd (sprint_nat (fst p) @ r))" for r by (rule hd_digit) (auto dest: sprint_is_digit)
  then show "segments_text ps \<noteq> []" "is_digit (hd (segments_text ps))"
    by (simp_all add: ps segments_text_def segment_text_def)
  have "snd p \<noteq> []" using assms(2) by (auto simp: ps segments_ok_def dest: unitMap_chars)
  then have "length (segments_text ps) \<noteq> 1"
    using sprint_nonempty [of "fst p"]
    by (cases "sprint_nat (fst p)"; cases "snd p") (simp_all add: ps segments_text_def segment_text_def)
  then show "segments_text ps \<noteq> ''0''" by auto
qed

text \<open>
  Printed durations are read back: the sum of the segments, when it fits an \<^verbatim>\<open>int64\<close>, with its
  sign, and an error when it does not.
\<close>

lemma ParseDuration_whole:
  assumes "ps \<noteq> []" "segments_ok ps" "(\<Sum>p \<leftarrow> ps. segment_val p) < 2 ^ 64"
  shows "ParseDuration (segments_text ps) =
      (if (\<Sum>p \<leftarrow> ps. segment_val p) < 2 ^ 63 then Inr (\<Sum>p \<leftarrow> ps. segment_val p) else Inl InvalidDuration)"
    and "ParseDuration (CHR ''-'' # segments_text ps) =
      (if (\<Sum>p \<leftarrow> ps. segment_val p) \<le> 2 ^ 63 then Inr (- (\<Sum>p \<leftarrow> ps. segment_val p)) else Inl InvalidDuration)"
proof -
  let ?t = "\<Sum>p \<leftarrow> ps. segment_val p"
  have loop: "duration_loop 0 (segments_text ps) = (if ?t \<le> 2 ^ 63 then Inr ?t else Inl InvalidDuration)"
    using duration_loop_whole [of ps 0] assms by simp
  have neg: "s64 (- s64 ?t) = - ?t" if "?t \<le> 2 ^ 63"
  proof (cases "?t = 2 ^ 63")
    case False
    with that segments_val_nonneg [of ps] show ?thesis by (simp add: s64_id)
  qed (simp add: s64_def)
  show "ParseDuration (segments_text ps) = (if ?t < 2 ^ 63 then Inr ?t else Inl InvalidDuration)"
    using ParseDuration_digit(1) [OF segments_text_start(1,2) [OF assms(1,2)]]
      segments_text_start(3) [OF assms(1,2)] segments_val_nonneg [of ps]
    by (auto simp: loop s64_id)
  show "ParseDuration (CHR ''-'' # segments_text ps) = (if ?t \<le> 2 ^ 63 then Inr (- ?t) else Inl InvalidDuration)"
    using ParseDuration_digit(2) [OF segments_text_start(1,2) [OF assms(1,2)]]
      segments_text_start(3) [OF assms(1,2)] neg
    by (auto simp: loop)
qed

lemma duration_segment_fraction:
  assumes u: "(u, unit) \<in> set unitMap" "unit_end r" and ds: "\<forall>c \<in> set ds. is_digit c" "length ds \<le> 18" "ds \<noteq> []"
    and fits: "(int n + 1) * unit \<le> 2 ^ 63"
  defines "y \<equiv> (real n + real_of_int (read_digits 0 ds) / 10 ^ length ds) * of_int unit"
  shows "\<exists>v. duration_segment (sprint_nat n @ CHR ''.'' # ds @ u @ r) = Inr (v, r) \<and> 0 \<le> v \<and> v \<le> (int n + 1) * unit \<and>
    y - 1 - 1 / 500 \<le> of_int v \<and> of_int v \<le> y + 1 / 500"
proof -
  let ?s = "sprint_nat n @ CHR ''.'' # ds @ u @ r" and ?f = "read_digits 0 ds"
  have unit: "0 < unit" using unitMap_bounds [OF u(1)] by simp
  have f0: "0 \<le> ?f" using read_digits_ge [of 0 ds] by simp
  have f1: "?f < 10 ^ length ds" using read_digits_less [of 0 0 ds] ds by simp
  have dot: "digits_end (CHR ''.'' # ds @ u @ r)" by (simp add: digits_end_def is_digit_def)
  have nu: "int n \<le> int n * unit" "int n * unit \<le> 2 ^ 63" using unit fits by (simp_all add: mult_le_cancel_left1 distrib_right)
  then have lead: "leadingInt 0 ?s = Some (int n, CHR ''.'' # ds @ u @ r)"
    using leadingInt_digits [OF _ dot, of "sprint_nat n" 0] sprint_is_digit by (simp add: read_digits_sprint)
  have start: "is_digit (hd ?s)" by (rule hd_digit) (auto dest: sprint_is_digit)
  obtain sc where sc: "leadingFraction 0 (1, 1) False (ds @ u @ r) = (?f, sc, u @ r)"
      "float64_val sc = 10 ^ length ds" "0 < fst sc" "0 < snd sc"
    using leadingFraction_digits [of ds "u @ r" 0 0 "(1, 1)"] ds unit_start(1) [OF u(1)]
    by (auto simp: float64_val_def)
  have seg: "duration_segment ?s = (case duration_value (int n) ?f sc unit of Inl e \<Rightarrow> Inl e | Inr v \<Rightarrow> Inr (v, r))"
    using lead start sc(1) unitMap_lookup [OF u(1)] unitMap_chars [OF u(1)] ds(3)
    by (simp add: duration_segment_def Let_def take_unit [OF u] split: sum.split)
  show ?thesis
  proof (cases "?f = 0")
    case True
    with nu unit show ?thesis
      unfolding seg y_def by (simp add: duration_value_whole distrib_right mult_nonneg_nonneg)
  next
    case False
    define t where "t = float64_trunc (float64_mult (float64_of ?f) (float64_div (float64_of unit) sc))"
    have near: "real_of_int ?f * of_int unit / 10 ^ length ds - 1 - 1 / 500 \<le> of_int t"
        "of_int t \<le> real_of_int ?f * of_int unit / 10 ^ length ds + 1 / 500" "0 \<le> t" "t \<le> unit"
      using fraction_near [OF _ f1 u(1) sc(2-4)] False f0 unfolding t_def by auto
    have "duration_value (int n) 0 sc unit = Inr (int n * unit)" using nu unit by (simp add: duration_value_whole)
    then have "\<not> int n > 2 ^ 63 div unit" "u64 (int n * unit) = int n * unit"
      by (auto simp: duration_value_def Let_def split: if_splits)
    moreover have "u64 (int n * unit + t) = int n * unit + t" "int n * unit + t \<le> (int n + 1) * unit"
      using nu near unit fits by (auto intro!: u64_id simp: distrib_right)
    ultimately have "duration_value (int n) ?f sc unit = Inr (int n * unit + t)"
      using False f0 fits near unit nu by (simp add: duration_value_def Let_def flip: t_def)
    moreover have "y = of_int (int n * unit) + real_of_int ?f * of_int unit / 10 ^ length ds"
      by (simp add: y_def distrib_right)
    ultimately show ?thesis
      using near nu \<open>int n * unit + t \<le> (int n + 1) * unit\<close> unit unfolding seg by auto
  qed
qed

lemma ParseDuration_fraction:
  assumes u: "(u, unit) \<in> set unitMap" and ds: "\<forall>c \<in> set ds. is_digit c" "length ds \<le> 18" "ds \<noteq> []"
    and fits: "(int n + 1) * unit < 2 ^ 63"
  defines "y \<equiv> (real n + real_of_int (read_digits 0 ds) / 10 ^ length ds) * of_int unit"
  shows "\<exists>d. ParseDuration (sprint_nat n @ CHR ''.'' # ds @ u) = Inr d \<and>
    y - 1 - 1 / 500 \<le> of_int d \<and> of_int d \<le> y + 1 / 500"
proof -
  let ?s = "sprint_nat n @ CHR ''.'' # ds @ u"
  have "unit_end []" by (simp add: unit_end_def)
  from duration_segment_fraction [OF u this ds, of n] fits
  obtain v where v: "duration_segment ?s = Inr (v, [])" "0 \<le> v" "v \<le> (int n + 1) * unit"
      "y - 1 - 1 / 500 \<le> of_int v" "of_int v \<le> y + 1 / 500"
    unfolding y_def by auto
  then have loop: "duration_loop 0 ?s = Inr v"
    using fits by (simp add: duration_loop.simps [of 0 ?s] duration_loop.simps [of v "[]"] u64_id Let_def)
  have "is_digit (hd ?s)" by (rule hd_digit) (auto dest: sprint_is_digit)
  then have "ParseDuration ?s = Inr v"
    using ParseDuration_digit(1) [of ?s] loop v(2,3) fits by (auto simp: s64_id append_eq_Cons_conv)
  with v show ?thesis by blast
qed

end
