(* ===== verification/Plugin.thy ===== *)
theory Plugin
  imports PlannerService TriggerClient Duration
begin

text \<open>
  The scheduling plugin (\<^verbatim>\<open>internal/pkg/scheduler/plugin.go\<close> and \<^verbatim>\<open>config.go\<close>). The scheduling
  framework calls it at its extension points for one pod after the other; between the points
  of one cycle the plugin keeps the node it has chosen in the framework's cycle state.

  Each extension point is a function of the cycle state and the outside world; timeouts of
  contexts show up as errors of the calls they bound.
\<close>

section \<open>Configuration\<close>

record PodSetPlannerOptions =
  opt_Debug :: bool
  opt_CallTimeout :: int
  opt_UpdatePeriod :: int

definition DefaultPodSetPlannerConfig :: PodSetPlannerOptions where
  "DefaultPodSetPlannerConfig =
     \<lparr>opt_Debug = True, opt_CallTimeout = 15000000000, opt_UpdatePeriod = 5000000000\<rparr>"

text \<open>One round of the loop over the durations: what ends up in the referenced field.\<close>

definition parse_duration_ref :: "string \<Rightarrow> int \<Rightarrow> int" where
  "parse_duration_ref duration ref =
     (if duration = '''' then ref
      else (case ParseDuration duration of
              Inr d \<Rightarrow> if d > 0 then d else ref
            | Inl _ \<Rightarrow> ref))"

definition parsePluginConfig ::
  "PodSetPlannerArgs \<Rightarrow> PodSetPlannerOptions \<Rightarrow> PodSetPlannerOptions" where
  "parsePluginConfig pluginConfig defaultConfig =
     (let config = defaultConfig\<lparr>opt_Debug := arg_Debug pluginConfig\<rparr>;
          config = config\<lparr>opt_CallTimeout :=
            parse_duration_ref (arg_CallTimeout pluginConfig) (opt_CallTimeout config)\<rparr>
      in config\<lparr>opt_UpdatePeriod :=
           parse_duration_ref (arg_UpdatePeriod pluginConfig) (opt_UpdatePeriod config)\<rparr>)"

definition plugin_options ::
  "PodSetPlannerArgs option \<Rightarrow> PodSetPlannerOptions" where
  "plugin_options obj =
     (case obj of
        Some pluginConfig \<Rightarrow> parsePluginConfig pluginConfig DefaultPodSetPlannerConfig
      | None \<Rightarrow> DefaultPodSetPlannerConfig)"

section \<open>The cycle state\<close>

text \<open>
  The framework's cycle state maps keys to data of any plugin: the plugin's own
  \<^verbatim>\<open>plannerAssignmentState\<close>, a nil interface, or data of another type, of which the plugin
  only prints its \<^verbatim>\<open>%+v\<close> form.
\<close>

datatype StateData = NilData | AssignmentData string | OtherData string

type_synonym CycleState = "string \<rightharpoonup> StateData"

definition plannerAssignmentStateKey :: string where
  "plannerAssignmentStateKey = ''PodSetPlannerAssignmentState''"

definition getAssignmentState :: "CycleState \<Rightarrow> err + string" where
  "getAssignmentState cycleState =
     (case cycleState plannerAssignmentStateKey of
        None \<Rightarrow> Inl (Wrapped ''unable to read cycle state: '' (Sentinel FrameworkErrNotFound))
      | Some NilData \<Rightarrow> Inl (Sentinel ErrNilAssignmentState)
      | Some (OtherData v) \<Rightarrow>
          Inl (Wrapped (v @ '' convert to node assignment state error: '') (Sentinel ErrInvalidAssignmentState))
      | Some (AssignmentData node) \<Rightarrow> Inr node)"

section \<open>Finding a node for a pod\<close>

definition getPodSet :: "Pod \<Rightarrow> string" where
  "getPodSet pod = label_of ''planner.ciena.io/pod-set'' (pod_Labels pod)"

definition plugin_findFit ::
  "'w outside \<Rightarrow> 'w trigger_kube \<Rightarrow> nat list \<Rightarrow> Pod \<Rightarrow> string list \<Rightarrow> 'w \<Rightarrow> (err + string) \<times> 'w" where
  "plugin_findFit out tk draws pod eligibleNodes w =
     (let podset = getPodSet pod
      in if podset = '''' then (Inl (Sentinel ErrNoPodSetFound), w)
         else
           case trigger_Get tk (pod_Namespace pod) podset w of
             Inl e \<Rightarrow> (Inl e, w)
           | Inr trigger \<Rightarrow>
               if trig_State trigger \<noteq> ''Schedule'' then (Inl (Sentinel ErrPodNotAssignable), w)
               else
                 let present = client_CheckIfPodPresent (o_plans out) (pod_Namespace pod) podset
                       (pod_Name pod) w;
                     planned_node = (case present of
                         Inr (Some planSpec) \<Rightarrow>
                           if list_ex (\<lambda>node. node = ps_Node planSpec) eligibleNodes
                           then Some (ps_Node planSpec) else None
                       | _ \<Rightarrow> None)
                 in case planned_node of
                      Some node \<Rightarrow> (Inr node, w)
                    | None \<Rightarrow>
                        (case Lookup out (pod_Namespace pod) podset (pod_Name pod) eligibleNodes w of
                           Inl e \<Rightarrow> (Inl e, w)
                         | Inr planners \<Rightarrow>
                             (case Invoke out planners draws w of
                                (Inl e, w') \<Rightarrow> (Inl e, w')
                              | (Inr as, w') \<Rightarrow>
                                  (case map_of as (pod_Name pod) of
                                     None \<Rightarrow> (Inl (Sentinel SchedulerErrNotFound), w')
                                   | Some selectedNode \<Rightarrow>
                                       (case service_Update out pod podset as w' of
                                          (Some e, w'') \<Rightarrow> (Inl e, w'')
                                        | (None, w'') \<Rightarrow> (Inr selectedNode, w''))))))"

definition createAssignmentState ::
  "'w outside \<Rightarrow> 'w trigger_kube \<Rightarrow> nat list \<Rightarrow> Pod \<Rightarrow> Node list \<Rightarrow> 'w \<Rightarrow> (string option \<times> Status) \<times> 'w" where
  "createAssignmentState out tk draws pod eligibleNodes w =
     (if length eligibleNodes = 0 then ((None, NewStatus Unschedulable []), w)
      else
        case plugin_findFit out tk draws pod (map node_Name eligibleNodes) w of
          (Inl e, w') \<Rightarrow> ((None, AsStatus e), w')
        | (Inr selectedNode, w') \<Rightarrow> ((Some selectedNode, NewStatus Success []), w'))"

section \<open>The extension points\<close>

text \<open>The timeout of the context of \<^verbatim>\<open>PreScore\<close>, \<^verbatim>\<open>CallTimeout*2\<close> on 64 bits.\<close>

definition double_timeout :: "int \<Rightarrow> int" where
  "double_timeout T = sint (word_of_int T * 2 :: int64)"

lemma double_timeout_exact:
  assumes "0 < T" "T < 2 ^ 62"
  shows "double_timeout T = 2 * T"
proof -
  have "double_timeout T = sint (word_of_int (T * 2) :: int64)" by (simp add: double_timeout_def)
  also have "\<dots> = T * 2" using assms by (simp only: sint_sbintrunc') (rule signed_take_bit_int_eq_self; simp)
  finally show ?thesis by simp
qed

lemma double_timeout_le:
  assumes "0 < T"
  shows "double_timeout T \<le> 2 * T"
proof (cases "T < 2 ^ 62")
  case False
  have "double_timeout T < 2 ^ 63" using sint_lt [of "word_of_int T * 2 :: int64"] by (simp add: double_timeout_def)
  with False show ?thesis by simp
qed (simp add: double_timeout_exact assms)

definition PreFilter :: "CycleState \<Rightarrow> Pod \<Rightarrow> Status" where
  "PreFilter state pod = NewStatus Success []"

definition PreScore ::
  "'w outside \<Rightarrow> 'w trigger_kube \<Rightarrow> nat list \<Rightarrow> Pod \<Rightarrow> Node list \<Rightarrow> CycleState \<times> 'w \<Rightarrow>
     Status \<times> CycleState \<times> 'w" where
  "PreScore out tk draws pod nodes cw =
     (case cw of (state, w) \<Rightarrow>
        (case createAssignmentState out tk draws pod nodes w of
           ((assignmentState, status), w') \<Rightarrow>
             if \<not> IsSuccess status then
               if StatusEqualErr status ErrNoPodSetFound \<or> StatusEqualErr status ErrNoPlannersFound
               then (NewStatus Success [], state, w')
               else (NewStatus Unschedulable [], state, w')
             else
               (status,
                (case assignmentState of
                   None \<Rightarrow> state
                 | Some node \<Rightarrow> state(plannerAssignmentStateKey \<mapsto> AssignmentData node)), w')))"

definition MinNodeScore :: int64 where
  "MinNodeScore = 0"

definition MaxNodeScore :: int64 where
  "MaxNodeScore = 100"

definition Score :: "CycleState \<Rightarrow> Pod \<Rightarrow> string \<Rightarrow> int64 \<times> Status" where
  "Score state pod nodeName =
     (case getAssignmentState state of
        Inl _ \<Rightarrow> (MinNodeScore, NewStatus Success [])
      | Inr node \<Rightarrow>
          if node \<noteq> nodeName then (1, NewStatus Success [])
          else (MaxNodeScore, NewStatus Success []))"

definition PostFilter :: "CycleState \<Rightarrow> Pod \<Rightarrow> string option \<times> Status" where
  "PostFilter state pod =
     (case getAssignmentState state of
        Inl e \<Rightarrow> (None, AsStatus e)
      | Inr node \<Rightarrow> (Some node, NewStatus Success []))"

definition Reserve ::
  "'w outside \<Rightarrow> Pod \<Rightarrow> string \<Rightarrow> CycleState \<times> 'w \<Rightarrow> Status \<times> CycleState \<times> 'w" where
  "Reserve out pod nodeName cw =
     (case cw of (state, w) \<Rightarrow>
        (case getAssignmentState state of
           Inl _ \<Rightarrow> (NewStatus Success [], state, w)
         | Inr node \<Rightarrow>
             let podset = getPodSet pod
             in if podset = '''' then (AsStatus (Sentinel ErrNoPodSetFound), state, w)
                else if node \<noteq> nodeName then
                  (case service_UpdateAssignment out pod podset nodeName w of
                     (Some e, w') \<Rightarrow> (AsStatus e, state, w')
                   | (None, w') \<Rightarrow>
                       (NewStatus Success [],
                        state(plannerAssignmentStateKey \<mapsto> AssignmentData nodeName), w'))
                else (NewStatus Success [], state, w)))"

definition Unreserve ::
  "'w outside \<Rightarrow> Pod \<Rightarrow> string \<Rightarrow> CycleState \<times> 'w \<Rightarrow> CycleState \<times> 'w" where
  "Unreserve out pod nodeName cw =
     (case cw of (state, w) \<Rightarrow>
        (case getAssignmentState state of
           Inl _ \<Rightarrow> (state, w)
         | Inr _ \<Rightarrow>
             let podset = getPodSet pod
             in if podset = '''' then (state, w)
                else
                  (case service_Delete out pod podset nodeName w of
                     (Some e, w') \<Rightarrow> (state, w')
                   | (None, w') \<Rightarrow> (state(plannerAssignmentStateKey := None), w'))))"

section \<open>The planners keep the plan objects well-formed\<close>

text \<open>
  What the plugin relies on from a planner that it calls: the plan objects stay well-formed
  under the call, and an answer is a Go map, whose keys are distinct.
\<close>

definition rpc_ok :: "'w outside \<Rightarrow> ('w \<Rightarrow> plans) \<Rightarrow> bool" where
  "rpc_ok out plans \<longleftrightarrow>
     (\<forall>dns req w r w'. o_BuildSchedulePlan out dns req w = (r, w') \<longrightarrow> plans_wf (plans w) \<longrightarrow>
        plans_wf (plans w') \<and> (case r of Inl _ \<Rightarrow> True | Inr as \<Rightarrow> distinct (map fst as)))"

lemma ask_all_ok:
  assumes "rpc_ok out plans" and "plans_wf (plans w)" and "ask_all out ps w = (rs, w')"
  shows "plans_wf (plans w') \<and> (\<forall>as \<in> set (answers rs). distinct (map fst as))"
  using assms(2,3)
proof (induction ps arbitrary: w rs w')
  case (Cons p ps)
  obtain r w1 where r: "Planner_BuildSchedulePlan out p w = (r, w1)" by fastforce
  obtain rs' w2 where all: "ask_all out ps w1 = (rs', w2)" by fastforce
  have one: "plans_wf (plans w1) \<and> (case r of Inl _ \<Rightarrow> True | Inr as \<Rightarrow> distinct (map fst as))"
    using r assms(1) Cons.prems(1)
    by (auto simp: Planner_BuildSchedulePlan_def Let_def rpc_ok_def split: option.splits sum.splits)
  have rs: "rs = r # rs'" "w' = w2" using Cons.prems(2) r all by auto
  have "plans_wf (plans w2) \<and> (\<forall>as \<in> set (answers rs'). distinct (map fst as))"
    using Cons.IH all one by blast
  then show ?case using one by (cases r) (auto simp: rs)
qed simp

lemma Invoke_ok:
  assumes "rpc_ok out plans" and "plans_wf (plans w)" and "Invoke out ps draws w = (Inr as, w')"
  shows "plans_wf (plans w')" and "distinct (map fst as)"
proof -
  obtain rs w1 where all: "ask_all out ps w = (rs, w1)" by fastforce
  have "w' = w1" and "as \<in> set (answers rs)"
    using Invoke_answers [of out ps draws w] assms(3) all by auto
  with ask_all_ok [OF assms(1,2) all] show "plans_wf (plans w')" and "distinct (map fst as)" by auto
qed

section \<open>A world\<close>

text \<open>
  A world that has the plans, the triggers and the assignments that a planner remembers side by
  side, and, for the examples, an outside on it with one planner that puts every pod on one
  node.
\<close>

record ('p, 't) world =
  w_plans :: 'p
  w_triggers :: 't
  w_assigned :: assignments

abbreviation world_plans :: "'p kube \<Rightarrow> ('p, 't) world kube" where
  "world_plans \<equiv> lift_kube w_plans (\<lambda>s w. w\<lparr>w_plans := s\<rparr>)"

abbreviation world_triggers :: "'t trigger_kube \<Rightarrow> ('p, 't) world trigger_kube" where
  "world_triggers \<equiv> lift_trigger_kube w_triggers (\<lambda>s w. w\<lparr>w_triggers := s\<rparr>)"

lemma world_plans_ok: "kube_ok kc plans \<Longrightarrow> kube_ok (world_plans kc) (\<lambda>w. plans (w_plans w))"
  by (rule lift_kube_ok) simp_all

type_synonym ex_world = "((NamespacedName, SchedulePlan) gomap, ScheduleTrigger list) world"

definition ex_out :: "ex_world outside" where
  "ex_out = \<lparr>o_plans = world_plans map_kube,
     o_ListServices = (\<lambda>_ _. Inr [\<lparr>svc_Name = ''planner'', svc_Namespace = ''kube-system''\<rparr>]),
     o_DialContext = (\<lambda>_ _. None),
     o_BuildSchedulePlan = (\<lambda>_ req w. (Inr [(req_ScheduledPod req, ''n7'')], w)),
     o_StatusMessage = err_Error\<rparr>"

definition ex_triggers :: "ex_world trigger_kube" where
  "ex_triggers = world_triggers list_trigger_kube"

definition ex_w :: "string \<Rightarrow> ex_world" where
  "ex_w st = \<lparr>w_plans = ex_store, w_triggers = [ex_trigger st], w_assigned = Map.empty\<rparr>"

definition ex_member :: Pod where
  "ex_member = blank_pod\<lparr>pod_Name := ''a'', pod_Namespace := ''ns'',
     pod_Labels := [(''planner.ciena.io/pod-set'', ''web'')]\<rparr>"

lemma ex_member_simps [simp]:
  "getPodSet ex_member = ''web''" "pod_Namespace ex_member = ''ns''" "pod_Name ex_member = ''a''"
  by (simp_all add: ex_member_def getPodSet_def label_of_def)

lemma ex_world_trigger: "trigger_Get ex_triggers ''ns'' ''web'' (ex_w st) = Inr (ex_trigger st)"
  by (simp add: ex_triggers_def lift_trigger_Get ex_w_def ex_trigger_Get)

lemma ex_out_ok:
  "kube_ok (o_plans ex_out) (\<lambda>w. map_of (w_plans w))" "rpc_ok ex_out (\<lambda>w. map_of (w_plans w))"
  "plans_wf (map_of (w_plans (ex_w st)))"
  using map_kube_ok ex_store_wf by (simp_all add: ex_out_def world_plans_ok rpc_ok_def ex_w_def)

section \<open>Properties\<close>

text \<open>
  A timeout that the configuration does not give, or gives in a form that does not parse or is
  not positive, keeps its default; so the plugin's timeouts are always positive.
\<close>

lemma options_positive:
  "0 < opt_CallTimeout (plugin_options obj) \<and>
   0 < opt_UpdatePeriod (plugin_options obj)"
  by (auto simp: plugin_options_def parsePluginConfig_def parse_duration_ref_def
      DefaultPodSetPlannerConfig_def Let_def split: option.splits sum.splits)

lemma findFit_unplanned:
  assumes "kube_ok (o_plans out) plans" and "plans_wf (plans w)"
    and "client_CheckIfPodPresent (o_plans out) ns podset pod w = Inr (Some e)"
  shows "planned (plans w) ns podset pod = Some (ps_Node e)"
  using client_CheckIfPodPresent_planned [OF assms(1,3)] by simp

lemma findFit_planned:
  assumes kube: "kube_ok (o_plans out) plans" and rpc: "rpc_ok out plans" and wf: "plans_wf (plans w)"
    and run: "plugin_findFit out tk draws pod el w = (Inr node, w')"
  shows "planned (plans w') (pod_Namespace pod) (getPodSet pod) (pod_Name pod) = Some node"
    and "plans_wf (plans w')" and "getPodSet pod \<noteq> ''''"
    and "\<exists>t. trigger_Get tk (pod_Namespace pod) (getPodSet pod) w = Inr t \<and> trig_State t = ''Schedule''"
proof -
  let ?ns = "pod_Namespace pod" and ?ps = "getPodSet pod"
  show "?ps \<noteq> ''''" using run by (auto simp: plugin_findFit_def)
  then obtain t where t: "trigger_Get tk ?ns ?ps w = Inr t" "trig_State t = ''Schedule''"
    using run by (auto simp: plugin_findFit_def Let_def split: sum.splits if_splits)
  then show "\<exists>t. trigger_Get tk ?ns ?ps w = Inr t \<and> trig_State t = ''Schedule''" by blast
  consider (kept) e where "client_CheckIfPodPresent (o_plans out) ?ns ?ps (pod_Name pod) w = Inr (Some e)"
      "node = ps_Node e" "w' = w"
    | (asked) planners as w1 where "Invoke out planners draws w = (Inr as, w1)"
      "map_of as (pod_Name pod) = Some node" "service_Update out pod ?ps as w1 = (None, w')"
    using run t \<open>?ps \<noteq> ''''\<close>
    by (auto simp: plugin_findFit_def Let_def split: sum.splits option.splits if_splits prod.splits)
  then show "planned (plans w') ?ns ?ps (pod_Name pod) = Some node" and "plans_wf (plans w')"
  proof (atomize (full), cases)
    case kept
    then show "planned (plans w') ?ns ?ps (pod_Name pod) = Some node \<and> plans_wf (plans w')"
      using findFit_unplanned [OF kube wf] wf by simp
  next
    case asked
    note inv = Invoke_ok [OF rpc wf asked(1)]
    have upd: "client_Update (o_plans out) ?ns ?ps as w1 = (None, w')"
      using asked(3) by (simp add: service_Update_def)
    have "map_of as \<subseteq>\<^sub>m planned (plans w') ?ns ?ps"
      using Update_effect [OF kube inv upd] by blast
    moreover have "plans_wf (plans w')"
      using run_client_op_wf [OF kube inv(1), of "OpUpdate ?ns ?ps as"] inv(2) upd by simp
    ultimately show "planned (plans w') ?ns ?ps (pod_Name pod) = Some node \<and> plans_wf (plans w')"
      using asked(2) by (auto simp: map_le_def dom_def)
  qed
qed

text \<open>
  The trigger gates the pod set. As long as the trigger of a pod's set is not in the state
  \<open>Schedule\<close>, the pod is unschedulable, and neither the cycle state nor anything outside
  the scheduler is changed.
\<close>

theorem PreScore_waits_for_trigger:
  assumes "getPodSet pod \<noteq> ''''"
    and "trigger_Get tk (pod_Namespace pod) (getPodSet pod) w = Inr t"
    and "trig_State t \<noteq> ''Schedule''"
  shows "PreScore out tk draws pod nodes (state, w) = (NewStatus Unschedulable [], state, w)"
  using assms by (simp add: PreScore_def createAssignmentState_def plugin_findFit_def Let_def)

theorem PreScore_waits_for_trigger_witness:
  "PreScore ex_out ex_triggers [] ex_member [blank_node] (Map.empty, ex_w ''Planning'') =
     (NewStatus Unschedulable [], Map.empty, ex_w ''Planning'')"
  by (rule PreScore_waits_for_trigger [where t = "ex_trigger ''Planning''"])
    (simp_all add: ex_world_trigger, simp add: ex_trigger_def)

text \<open>
  A pod outside every pod set is left to the default scheduler: the plugin reports success,
  changes nothing and scores every node alike.
\<close>

theorem PreScore_ignores_other_pods:
  assumes "getPodSet pod = ''''" and "nodes \<noteq> []"
    and "state plannerAssignmentStateKey = None"
  shows "PreScore out tk draws pod nodes (state, w) = (NewStatus Success [], state, w) \<and>
    Score state pod nodeName = (MinNodeScore, NewStatus Success []) \<and>
    Reserve out pod nodeName (state, w) = (NewStatus Success [], state, w)"
  using assms
  by (simp add: PreScore_def createAssignmentState_def plugin_findFit_def Score_def Reserve_def
      getAssignmentState_def)

theorem PreScore_ignores_other_pods_witness:
  "PreScore ex_out ex_triggers [] blank_pod [blank_node] (Map.empty, ex_w ''Planning'') =
     (NewStatus Success [], Map.empty, ex_w ''Planning'')"
  by (rule conjunct1 [OF PreScore_ignores_other_pods])
    (simp_all add: getPodSet_def blank_pod_def label_of_def)

text \<open>
  A pod that is planned on a node which passed the scheduler's filters stays there: the plugin
  takes the planned node without asking a planner and without writing anything.
\<close>

theorem PreScore_keeps_planned_node:
  assumes "client_CheckIfPodPresent (o_plans out) (pod_Namespace pod) (getPodSet pod) (pod_Name pod) w =
      Inr (Some e)"
    and "ps_Node e \<in> node_Name ` set nodes" and "getPodSet pod \<noteq> ''''"
    and "trigger_Get tk (pod_Namespace pod) (getPodSet pod) w = Inr t" and "trig_State t = ''Schedule''"
  shows "PreScore out tk draws pod nodes (state, w) =
    (NewStatus Success [], state(plannerAssignmentStateKey \<mapsto> AssignmentData (ps_Node e)), w)"
proof -
  have "list_ex (\<lambda>node. node = ps_Node e) (map node_Name nodes)" "nodes \<noteq> []"
    using assms(2) by (auto simp: list_ex_iff)
  then show ?thesis
    using assms by (simp add: PreScore_def createAssignmentState_def plugin_findFit_def Let_def)
qed

theorem PreScore_keeps_planned_node_witness:
  "PreScore ex_out ex_triggers [] ex_member [ex_node ''n1'', ex_node ''n2''] (Map.empty, ex_w ''Schedule'') =
     (NewStatus Success [], [plannerAssignmentStateKey \<mapsto> AssignmentData ''n1''], ex_w ''Schedule'')"
  using PreScore_keeps_planned_node [of ex_out ex_member "ex_w ''Schedule''"
      "\<lparr>ps_Pod = ''a'', ps_Node = ''n1''\<rparr>" "[ex_node ''n1'', ex_node ''n2'']" ex_triggers
      "ex_trigger ''Schedule''" "[]" Map.empty]
  by (simp add: ex_world_trigger) (simp add: ex_trigger_def client_CheckIfPodPresent_def client_Get_def
      ex_out_def lift_kube_def map_kube_def ex_w_def ex_store_def plan_specs_def)

lemma PreScore_success:
  assumes "PreScore out tk draws pod nodes (state, w) = (st, state', w')" and "IsSuccess st"
  obtains (default) "state' = state"
  | (assigned) node where "plugin_findFit out tk draws pod (map node_Name nodes) w = (Inr node, w')"
      "state' = state(plannerAssignmentStateKey \<mapsto> AssignmentData node)"
  using assms
  by (auto simp: PreScore_def createAssignmentState_def split: if_splits prod.splits sum.splits)

text \<open>
  What a successful pre-score means. Either the plugin leaves the pod to the default
  scheduler, and every node gets the minimal score; or it has chosen a node, this node is
  planned for the pod in the plan object, it gets the maximal score, and every other node
  gets one.
\<close>

theorem PreScore_chooses_planned_node:
  assumes "kube_ok (o_plans out) plans" and "rpc_ok out plans" and "plans_wf (plans w)"
    and "state plannerAssignmentStateKey = None"
    and "PreScore out tk draws pod nodes (state, w) = (st, state', w')" and "IsSuccess st"
  shows "(\<forall>n. fst (Score state' pod n) = MinNodeScore) \<or>
    (\<exists>node. planned (plans w') (pod_Namespace pod) (getPodSet pod) (pod_Name pod) = Some node \<and>
      getAssignmentState state' = Inr node \<and>
      (\<forall>n. fst (Score state' pod n) = (if n = node then MaxNodeScore else 1)))"
  using assms(5,6)
proof (cases rule: PreScore_success)
  case default
  then show ?thesis using assms(4) by (simp add: Score_def getAssignmentState_def)
next
  case (assigned node)
  from findFit_planned(1) [OF assms(1,2,3) assigned(1)] assigned(2) show ?thesis
    by (auto simp: Score_def getAssignmentState_def)
qed

lemma ex_PreScore:
  "\<exists>w'. PreScore ex_out ex_triggers [] ex_member [ex_node ''n7''] (Map.empty, ex_w ''Schedule'') =
     (NewStatus Success [], [plannerAssignmentStateKey \<mapsto> AssignmentData ''n7''], w')"
proof -
  have t: "trigger_Get ex_triggers ''ns'' ''web'' (ex_w ''Schedule'') = Inr (ex_trigger ''Schedule'')"
    "trig_State (ex_trigger ''Schedule'') = ''Schedule''"
    by (rule ex_world_trigger) (simp add: ex_trigger_def)
  have p: "client_CheckIfPodPresent (o_plans ex_out) ''ns'' ''web'' ''a'' (ex_w ''Schedule'') =
      Inr (Some \<lparr>ps_Pod = ''a'', ps_Node = ''n1''\<rparr>)"
    by (simp add: client_CheckIfPodPresent_def client_Get_def
      ex_out_def lift_kube_def map_kube_def ex_w_def ex_store_def plan_specs_def)
  have l: "\<exists>p. Lookup ex_out ''ns'' ''web'' ''a'' [''n7''] (ex_w ''Schedule'') = Inr [p] \<and> pl_ScheduledPod p = ''a''"
    by (simp add: Lookup_def lookupWithLabelSelector_def ex_out_def)
  have i: "pl_ScheduledPod p = ''a'' \<Longrightarrow> Invoke ex_out [p] [] (ex_w ''Schedule'') = (Inr [(''a'', ''n7'')], ex_w ''Schedule'')" for p
    by (simp add: Invoke_def Planner_BuildSchedulePlan_def ex_out_def computePlanReward_def Let_def)
  have u: "\<exists>w'. service_Update ex_out ex_member ''web'' [(''a'', ''n7'')] (ex_w ''Schedule'') = (None, w')"
    by (simp add: service_Update_def client_Update_def client_Get_def ex_out_def lift_kube_def
        lift_write_def map_kube_def ex_w_def ex_store_def plan_specs_def plan_key_def new_SchedulePlan_def)
  from l u show ?thesis
    by (auto simp: PreScore_def createAssignmentState_def plugin_findFit_def t p i)
qed

theorem PreScore_chooses_planned_node_witness:
  "\<exists>w'. PreScore ex_out ex_triggers [] ex_member [ex_node ''n7''] (Map.empty, ex_w ''Schedule'') =
     (NewStatus Success [], [plannerAssignmentStateKey \<mapsto> AssignmentData ''n7''], w') \<and>
     planned (map_of (w_plans w')) ''ns'' ''web'' ''a'' = Some ''n7''"
proof -
  obtain w' where run: "PreScore ex_out ex_triggers [] ex_member [ex_node ''n7''] (Map.empty, ex_w ''Schedule'') =
     (NewStatus Success [], [plannerAssignmentStateKey \<mapsto> AssignmentData ''n7''], w')"
    using ex_PreScore by blast
  from PreScore_chooses_planned_node [OF ex_out_ok _ run] run show ?thesis
    by (auto simp: Score_def getAssignmentState_def MinNodeScore_def split: if_splits)
qed

lemma Reserve_success:
  assumes kube: "kube_ok (o_plans out) plans" and wf: "plans_wf (plans w)"
    and old: "planned (plans w) (pod_Namespace pod) (getPodSet pod) (pod_Name pod) = Some node"
      "getAssignmentState state = Inr node"
    and run: "Reserve out pod nodeName (state, w) = (st, state', w')" "IsSuccess st"
  shows "getAssignmentState state' = Inr nodeName"
    and "planned (plans w') (pod_Namespace pod) (getPodSet pod) =
      (planned (plans w) (pod_Namespace pod) (getPodSet pod))(pod_Name pod \<mapsto> nodeName)"
proof -
  let ?ns = "pod_Namespace pod" and ?ps = "getPodSet pod"
  have *: "getAssignmentState state' = Inr nodeName \<and>
      planned (plans w') ?ns ?ps = (planned (plans w) ?ns ?ps)(pod_Name pod \<mapsto> nodeName)"
  proof (cases "node = nodeName")
    case True
    with run old show ?thesis by (auto simp: Reserve_def Let_def fun_upd_idem split: if_splits)
  next
    case False
    with run old have upd: "client_UpdateAssignment (o_plans out) ?ns ?ps (pod_Name pod) nodeName w = (None, w')"
      and st: "state' = state(plannerAssignmentStateKey \<mapsto> AssignmentData nodeName)"
      by (auto simp: Reserve_def Let_def service_UpdateAssignment_def split: if_splits prod.splits option.splits)
    from UpdateAssignment_effect [OF kube wf upd] st old show ?thesis
      by (simp add: getAssignmentState_def)
  qed
  then show "getAssignmentState state' = Inr nodeName"
    and "planned (plans w') ?ns ?ps = (planned (plans w) ?ns ?ps)(pod_Name pod \<mapsto> nodeName)" by auto
qed

text \<open>
  C4: a scheduling cycle keeps the plan true. When the plugin has chosen a node for the pod and
  the framework then reserves any node for it, and both succeed, the plan object has the pod on
  the node that was reserved, the cycle state agrees, and the other pods of the set keep their
  nodes.
\<close>

theorem scheduling_cycle_keeps_plan_true:
  assumes "kube_ok (o_plans out) plans" and "rpc_ok out plans" and "plans_wf (plans w)"
    and "state plannerAssignmentStateKey = None"
    and "PreScore out tk draws pod nodes (state, w) = (st1, state1, w1)" and "IsSuccess st1"
    and "getAssignmentState state1 = Inr node"
    and "Reserve out pod nodeName (state1, w1) = (st2, state2, w2)" and "IsSuccess st2"
  shows "getAssignmentState state2 = Inr nodeName \<and>
    planned (plans w2) (pod_Namespace pod) (getPodSet pod) =
      (planned (plans w1) (pod_Namespace pod) (getPodSet pod))(pod_Name pod \<mapsto> nodeName)"
  using assms(5,6)
proof (cases rule: PreScore_success)
  case default
  then show ?thesis using assms(4,7) by (simp add: getAssignmentState_def)
next
  case (assigned node')
  note fit = findFit_planned(1,2) [OF assms(1,2,3) assigned(1)]
  have "node' = node" using assigned(2) assms(7) by (simp add: getAssignmentState_def)
  with fit Reserve_success [OF assms(1) fit(2) _ assms(7,8,9)] show ?thesis by simp
qed

theorem scheduling_cycle_keeps_plan_true_witness:
  "\<exists>w1. PreScore ex_out ex_triggers [] ex_member [ex_node ''n7''] (Map.empty, ex_w ''Schedule'') =
     (NewStatus Success [], [plannerAssignmentStateKey \<mapsto> AssignmentData ''n7''], w1) \<and>
     Reserve ex_out ex_member ''n7'' ([plannerAssignmentStateKey \<mapsto> AssignmentData ''n7''], w1) =
       (NewStatus Success [], [plannerAssignmentStateKey \<mapsto> AssignmentData ''n7''], w1) \<and>
     planned (map_of (w_plans w1)) ''ns'' ''web'' ''a'' = Some ''n7''"
proof -
  obtain w1 where run: "PreScore ex_out ex_triggers [] ex_member [ex_node ''n7''] (Map.empty, ex_w ''Schedule'') =
     (NewStatus Success [], [plannerAssignmentStateKey \<mapsto> AssignmentData ''n7''], w1)"
    using ex_PreScore by blast
  have st: "getAssignmentState [plannerAssignmentStateKey \<mapsto> AssignmentData ''n7''] = Inr ''n7''"
    by (simp add: getAssignmentState_def)
  have res: "Reserve ex_out ex_member ''n7'' ([plannerAssignmentStateKey \<mapsto> AssignmentData ''n7''], w1) =
       (NewStatus Success [], [plannerAssignmentStateKey \<mapsto> AssignmentData ''n7''], w1)"
    by (simp add: Reserve_def st)
  from scheduling_cycle_keeps_plan_true [OF ex_out_ok _ run _ st res] run res show ?thesis
    by (auto dest: fun_cong [of _ _ "''a''"])
qed

text \<open>
  Giving up a reservation. When the plugin clears its cycle state, the pod is no longer
  planned and the other pods of the set keep their nodes; when it does not, the cycle state is
  unchanged, so a later attempt can still remove the pod.
\<close>

theorem Unreserve_removes_pod:
  assumes "kube_ok (o_plans out) plans" and "plans_wf (plans w)"
    and "getAssignmentState state = Inr node" and "getPodSet pod \<noteq> ''''"
    and "Unreserve out pod nodeName (state, w) = (state', w')"
  shows "state' = state(plannerAssignmentStateKey := None) \<and>
      planned (plans w') (pod_Namespace pod) (getPodSet pod) =
        (planned (plans w) (pod_Namespace pod) (getPodSet pod))(pod_Name pod := None) \<or>
    state' = state \<and> fst (service_Delete out pod (getPodSet pod) nodeName w) \<noteq> None"
proof -
  obtain retry r w1 where del:
    "client_Delete (o_plans out) (pod_Name pod) (pod_Namespace pod) (getPodSet pod) w = ((retry, r), w1)"
    by (metis prod.collapse)
  from Delete_effect [OF assms(1,2) del] assms(3-5) del show ?thesis
    by (cases r) (auto simp: Unreserve_def service_Delete_def Let_def)
qed

theorem Unreserve_removes_pod_witness:
  "\<exists>w'. Unreserve ex_out ex_member ''n1''
     ([plannerAssignmentStateKey \<mapsto> AssignmentData ''n1''], ex_w ''Schedule'') = (Map.empty, w') \<and>
     planned (map_of (w_plans w')) ''ns'' ''web'' ''a'' = None"
proof -
  let ?st = "[plannerAssignmentStateKey \<mapsto> AssignmentData ''n1'']"
  obtain w' where run: "Unreserve ex_out ex_member ''n1'' (?st, ex_w ''Schedule'') = (Map.empty, w')"
    by (simp add: Unreserve_def getAssignmentState_def service_Delete_def client_Delete_def client_Get_def
        ex_out_def lift_kube_def lift_write_def map_kube_def ex_w_def ex_store_def plan_specs_def
        plan_key_def new_SchedulePlan_def fun_eq_iff)
  have st: "getAssignmentState ?st = Inr ''n1''" by (simp add: getAssignmentState_def)
  have "?st \<noteq> Map.empty" by (metis fun_upd_same option.distinct(1))
  with Unreserve_removes_pod [OF ex_out_ok(1) ex_out_ok(3) st _ run] run show ?thesis
    by (auto dest: fun_cong [of _ _ "''a''"])
qed

text \<open>
  A call timeout that is written as whole numbers with units, such as \<^verbatim>\<open>1h30m\<close>, is the
  timeout the plugin uses, to the nanosecond, when it is positive and fits an \<^verbatim>\<open>int64\<close>; when it is
  zero or too large the plugin uses its default of fifteen seconds.
\<close>

theorem plugin_timeout_as_configured:
  assumes "arg_CallTimeout cfg = segments_text ps" "ps \<noteq> []" "segments_ok ps"
    and "(\<Sum>p \<leftarrow> ps. segment_val p) < 2 ^ 64"
  shows "opt_CallTimeout (plugin_options (Some cfg)) =
    (if 0 < (\<Sum>p \<leftarrow> ps. segment_val p) \<and> (\<Sum>p \<leftarrow> ps. segment_val p) < 2 ^ 63
     then (\<Sum>p \<leftarrow> ps. segment_val p) else 15000000000)"
  using assms ParseDuration_whole(1) [OF assms(2-4)] segments_text_start(1) [OF assms(2,3)]
  by (simp add: plugin_options_def parsePluginConfig_def parse_duration_ref_def
      DefaultPodSetPlannerConfig_def Let_def)

theorem plugin_timeout_as_configured_witness:
  "opt_CallTimeout (plugin_options (Some \<lparr>arg_Debug = False, arg_CallTimeout = ''1h30m'', arg_UpdatePeriod = ''''\<rparr>)) =
     5400000000000"
proof -
  have str: "segments_text [(1, ''h''), (30, ''m'')] = ''1h30m''" by code_simp
  have sum: "(\<Sum>p \<leftarrow> [(1, ''h''), (30, ''m'')]. segment_val p) = 5400000000000" by code_simp
  show ?thesis
    using plugin_timeout_as_configured [of "\<lparr>arg_Debug = False, arg_CallTimeout = ''1h30m'', arg_UpdatePeriod = ''''\<rparr>"
        "[(1, ''h''), (30, ''m'')]"] str sum
    by (simp add: segments_ok_def unitMap_def)
qed

text \<open>
  A period with a decimal fraction of up to eighteen digits, such as \<^verbatim>\<open>2.5s\<close>, is read in
  floating point: the period the plugin uses is at most a nanosecond and two thousandths below
  the exact value and at most two thousandths above it, and it is never rejected when the next
  whole number of units fits an \<^verbatim>\<open>int64\<close> and the fraction is worth at least three nanoseconds.
\<close>

theorem plugin_period_fraction_accuracy:
  assumes "arg_UpdatePeriod cfg = sprint_nat n @ ''.'' @ ds @ u" and unit: "(u, unit) \<in> set unitMap"
    and ds: "\<forall>c \<in> set ds. is_digit c" "length ds \<le> 18" "ds \<noteq> []"
    and fits: "(int n + 1) * unit < 2 ^ 63"
    and large: "3 \<le> (real n + real_of_int (read_digits 0 ds) / 10 ^ length ds) * of_int unit"
  shows "\<bar>of_int (opt_UpdatePeriod (plugin_options (Some cfg))) -
    (real n + real_of_int (read_digits 0 ds) / 10 ^ length ds) * of_int unit + 1 / 2\<bar> \<le> 1 / 2 + 1 / 500"
proof -
  let ?y = "(real n + real_of_int (read_digits 0 ds) / 10 ^ length ds) * of_int unit"
  obtain d where d: "ParseDuration (arg_UpdatePeriod cfg) = Inr d"
      "?y - 1 - 1 / 500 \<le> of_int d" "of_int d \<le> ?y + 1 / 500"
    using ParseDuration_fraction [OF unit ds fits] assms(1) by auto
  with large have "0 < d" by linarith
  with d(1) assms(1) have "opt_UpdatePeriod (plugin_options (Some cfg)) = d"
    by (simp add: plugin_options_def parsePluginConfig_def parse_duration_ref_def Let_def)
  with d(2,3) show ?thesis by (simp only: abs_le_iff) argo
qed

theorem plugin_period_fraction_accuracy_witness:
  "\<bar>of_int (opt_UpdatePeriod (plugin_options (Some
      \<lparr>arg_Debug = False, arg_CallTimeout = '''', arg_UpdatePeriod = ''2.5s''\<rparr>))) - (2500000000 :: real) + 1 / 2\<bar>
   \<le> 1 / 2 + 1 / 500"
proof -
  have "sprint_nat 2 = ''2''" by code_simp
  moreover have "is_digit CHR ''5''" "read_digits 0 ''5'' = 5" by code_simp+
  moreover have "(''s'', 1000000000) \<in> set unitMap" by (simp add: unitMap_def)
  ultimately show ?thesis
    using plugin_period_fraction_accuracy [of
        "\<lparr>arg_Debug = False, arg_CallTimeout = '''', arg_UpdatePeriod = ''2.5s''\<rparr>" 2 "''5''" "''s''" 1000000000]
    by simp
qed

end
