(* ===== verification/Schemes.thy ===== *)
theory Schemes
  imports Kube
begin

text \<open>
  The registration of Go types under the group, version and kind that name them in the API:
  the package variables and \<^verbatim>\<open>init\<close> functions of pkg/apis/scheduleplanner/v1alpha1,
  internal/pkg/client/client.go, cmd/manager/main.go and internal/pkg/scheduler/register.go, on the
  vendored \<^verbatim>\<open>runtime.Scheme\<close> and scheme builders. A registration that panics is \<open>None\<close>.
  Conversion and defaulting functions of a scheme are left out.
\<close>

section \<open>Schemes\<close>

record GroupVersion =
  gv_Group :: string
  gv_Version :: string

record GroupVersionKind =
  gvk_GroupVersion :: GroupVersion
  gvk_Kind :: string

text \<open>A Go type, by the path of its package and its name.\<close>

record go_type =
  gt_PkgPath :: string
  gt_Name :: string

record Scheme =
  gvkToType :: "GroupVersionKind \<rightharpoonup> go_type"
  typeToGVK :: "go_type \<Rightarrow> GroupVersionKind list"
  unversionedTypes :: "go_type \<rightharpoonup> GroupVersionKind"
  unversionedKinds :: "string \<rightharpoonup> go_type"

definition NewScheme :: Scheme where
  "NewScheme = \<lparr>gvkToType = Map.empty, typeToGVK = (\<lambda>_. []), unversionedTypes = Map.empty, unversionedKinds = Map.empty\<rparr>"

definition WithKind :: "GroupVersion \<Rightarrow> string \<Rightarrow> GroupVersionKind" where
  "WithKind gv k = \<lparr>gvk_GroupVersion = gv, gvk_Kind = k\<rparr>"

definition AddKnownTypeWithName :: "GroupVersionKind \<Rightarrow> go_type \<Rightarrow> Scheme \<Rightarrow> Scheme option" where
  "AddKnownTypeWithName gvk t s =
     (if gv_Version (gvk_GroupVersion gvk) = '''' then None
      else if gvkToType s gvk \<noteq> None \<and> gvkToType s gvk \<noteq> Some t then None
      else
        let s = s\<lparr>gvkToType := (gvkToType s)(gvk \<mapsto> t)\<rparr>
        in Some (if gvk \<in> set (typeToGVK s t) then s
                 else s\<lparr>typeToGVK := (typeToGVK s)(t := typeToGVK s t @ [gvk])\<rparr>))"

fun AddKnownTypes :: "GroupVersion \<Rightarrow> go_type list \<Rightarrow> Scheme \<Rightarrow> Scheme option" where
  "AddKnownTypes gv [] s = Some s"
| "AddKnownTypes gv (t # ts) s =
     (case AddKnownTypeWithName (WithKind gv (gt_Name t)) t s of
        None \<Rightarrow> None | Some s' \<Rightarrow> AddKnownTypes gv ts s')"

fun add_unversioned :: "GroupVersion \<Rightarrow> go_type list \<Rightarrow> Scheme \<Rightarrow> Scheme option" where
  "add_unversioned gv [] s = Some s"
| "add_unversioned gv (t # ts) s =
     (if unversionedKinds s (gt_Name t) \<noteq> None \<and> unversionedKinds s (gt_Name t) \<noteq> Some t then None
      else add_unversioned gv ts
        (s\<lparr>unversionedTypes := (unversionedTypes s)(t \<mapsto> WithKind gv (gt_Name t)),
           unversionedKinds := (unversionedKinds s)(gt_Name t \<mapsto> t)\<rparr>))"

definition AddUnversionedTypes :: "GroupVersion \<Rightarrow> go_type list \<Rightarrow> Scheme \<Rightarrow> Scheme option" where
  "AddUnversionedTypes gv ts s =
     (case AddKnownTypes gv ts s of None \<Rightarrow> None | Some s' \<Rightarrow> add_unversioned gv ts s')"

definition ObjectKinds :: "go_type \<Rightarrow> Scheme \<Rightarrow> GroupVersionKind list option" where
  "ObjectKinds t s = (if typeToGVK s t = [] then None else Some (typeToGVK s t))"

definition Scheme_New :: "GroupVersionKind \<Rightarrow> Scheme \<Rightarrow> go_type option" where
  "Scheme_New gvk s = (case gvkToType s gvk of Some t \<Rightarrow> Some t | None \<Rightarrow> unversionedKinds s (gvk_Kind gvk))"

section \<open>Builders\<close>

text \<open>A function of a scheme builder: a panic, or its error and the scheme it leaves.\<close>

type_synonym scheme_fun = "Scheme \<Rightarrow> (err option \<times> Scheme) option"

fun AddToScheme :: "scheme_fun list \<Rightarrow> scheme_fun" where
  "AddToScheme [] s = Some (None, s)"
| "AddToScheme (f # fs) s =
     (case f s of
        None \<Rightarrow> None
      | Some (Some e, s') \<Rightarrow> Some (Some e, s')
      | Some (None, s') \<Rightarrow> AddToScheme fs s')"

definition Must :: "(err option \<times> Scheme) option \<Rightarrow> Scheme option" where
  "Must r = (case r of Some (None, s) \<Rightarrow> Some s | _ \<Rightarrow> None)"

definition metav1 :: "string \<Rightarrow> go_type" where
  "metav1 name = \<lparr>gt_PkgPath = ''k8s.io/apimachinery/pkg/apis/meta/v1'', gt_Name = name\<rparr>"

definition optionsTypes :: "go_type list" where
  "optionsTypes = map metav1
     [''ListOptions'', ''GetOptions'', ''DeleteOptions'', ''CreateOptions'', ''UpdateOptions'', ''PatchOptions'']"

definition unversioned_types :: "go_type list" where
  "unversioned_types = map metav1 [''Status'', ''APIVersions'', ''APIGroupList'', ''APIGroup'', ''APIResourceList'']"

definition APIVersionInternal :: string where
  "APIVersionInternal = ''__internal''"

definition AddToGroupVersion :: "GroupVersion \<Rightarrow> Scheme \<Rightarrow> Scheme option" where
  "AddToGroupVersion gv s =
     Option.bind (AddKnownTypeWithName (WithKind gv ''WatchEvent'') (metav1 ''WatchEvent'') s) (\<lambda>s.
     Option.bind (AddKnownTypeWithName (WithKind \<lparr>gv_Group = gv_Group gv, gv_Version = APIVersionInternal\<rparr> ''WatchEvent'')
       (metav1 ''InternalEvent'') s) (\<lambda>s.
     Option.bind (AddKnownTypes gv optionsTypes s)
       (AddUnversionedTypes \<lparr>gv_Group = '''', gv_Version = ''v1''\<rparr> unversioned_types)))"

definition Builder_Register :: "GroupVersion \<Rightarrow> go_type list \<Rightarrow> scheme_fun list \<Rightarrow> scheme_fun list" where
  "Builder_Register gv objects bld =
     bld @ [\<lambda>s. map_option (Pair None) (Option.bind (AddKnownTypes gv objects s) (AddToGroupVersion gv))]"

section \<open>The planner's API group\<close>

definition planner_GroupVersion :: GroupVersion where
  "planner_GroupVersion = \<lparr>gv_Group = ''planner.ciena.io'', gv_Version = ''v1alpha1''\<rparr>"

definition v1alpha1 :: "string \<Rightarrow> go_type" where
  "v1alpha1 name = \<lparr>gt_PkgPath = ''github.com/ciena/outbound/pkg/apis/scheduleplanner/v1alpha1'', gt_Name = name\<rparr>"

text \<open>The \<^verbatim>\<open>init\<close> functions of the package's two files, which run in the order of their names.\<close>

definition scheduleplan_init :: "scheme_fun list \<Rightarrow> scheme_fun list" where
  "scheduleplan_init = Builder_Register planner_GroupVersion [v1alpha1 ''SchedulePlan'', v1alpha1 ''SchedulePlanList'']"

definition scheduletrigger_init :: "scheme_fun list \<Rightarrow> scheme_fun list" where
  "scheduletrigger_init =
     Builder_Register planner_GroupVersion [v1alpha1 ''ScheduleTrigger'', v1alpha1 ''ScheduleTriggerList'']"

definition planner_SchemeBuilder :: "scheme_fun list" where
  "planner_SchemeBuilder = scheduletrigger_init (scheduleplan_init [])"

definition planner_AddToScheme :: scheme_fun where
  "planner_AddToScheme = AddToScheme planner_SchemeBuilder"

text \<open>
  \<^verbatim>\<open>init\<close> of the client package: both schemes get the types of client-go (\<open>clientgo\<close>) and those of the
  planner. The manager does the same for its one scheme.
\<close>

definition manager_init :: "scheme_fun \<Rightarrow> Scheme \<Rightarrow> Scheme option" where
  "manager_init clientgo s =
     (case Must (clientgo s) of None \<Rightarrow> None | Some s' \<Rightarrow> Must (planner_AddToScheme s'))"

definition client_init :: "scheme_fun \<Rightarrow> (Scheme \<times> Scheme) option" where
  "client_init clientgo =
     (case Option.bind (Must (clientgo NewScheme)) (\<lambda>s. Must (planner_AddToScheme s)) of
        None \<Rightarrow> None
      | Some plannerScheme \<Rightarrow>
          (case Option.bind (Must (clientgo NewScheme)) (\<lambda>s. Must (planner_AddToScheme s)) of
             None \<Rightarrow> None
           | Some triggerScheme \<Rightarrow> Some (plannerScheme, triggerScheme)))"

text \<open>The constructors of the clients; \<open>ctlrclient_New\<close> is controller-runtime's.\<close>

definition NewSchedulePlannerClient ::
  "('cfg \<Rightarrow> Scheme \<Rightarrow> err + 'c) \<Rightarrow> Scheme \<Rightarrow> 'cfg \<Rightarrow> err + 'c" where
  "NewSchedulePlannerClient ctlrclient_New plannerScheme config =
     (case ctlrclient_New config plannerScheme of
        Inl e \<Rightarrow> Inl (Wrapped ''error creating controller client: '' e)
      | Inr genericClient \<Rightarrow> Inr genericClient)"

definition NewScheduleTriggerClient ::
  "('cfg \<Rightarrow> Scheme \<Rightarrow> err + 'c) \<Rightarrow> Scheme \<Rightarrow> 'cfg \<Rightarrow> err + 'c" where
  "NewScheduleTriggerClient ctlrclient_New triggerScheme config =
     (case ctlrclient_New config triggerScheme of
        Inl e \<Rightarrow> Inl (Wrapped ''error creating controller client: '' e)
      | Inr genericClient \<Rightarrow> Inr genericClient)"

section \<open>The plugin's arguments\<close>

definition sched_GroupVersion :: "string \<Rightarrow> GroupVersion" where
  "sched_GroupVersion version = \<lparr>gv_Group = ''kubescheduler.config.k8s.io'', gv_Version = version\<rparr>"

definition PodSetPlannerArgs_type :: go_type where
  "PodSetPlannerArgs_type =
     \<lparr>gt_PkgPath = ''github.com/ciena/outbound/internal/pkg/scheduler'', gt_Name = ''PodSetPlannerArgs''\<rparr>"

definition addKnownTypes :: scheme_fun where
  "addKnownTypes s =
     (case AddKnownTypes (sched_GroupVersion ''v1beta2'') [PodSetPlannerArgs_type] s of
        None \<Rightarrow> None
      | Some s' \<Rightarrow> map_option (Pair None) (AddKnownTypes (sched_GroupVersion APIVersionInternal) [PodSetPlannerArgs_type] s'))"

text \<open>
  \<^verbatim>\<open>init\<close>: the function is registered with the scheduler's own builder, whose functions are then
  applied to the scheme that converts the arguments of plugins.
\<close>

definition scheduler_init :: "scheme_fun list \<Rightarrow> Scheme \<Rightarrow> (scheme_fun list \<times> Scheme) option" where
  "scheduler_init SchemeBuilder scheme =
     (let localSchemeBuilder = SchemeBuilder @ [addKnownTypes]
      in map_option (Pair localSchemeBuilder) (Must (AddToScheme localSchemeBuilder scheme)))"

section \<open>Kinds and types correspond\<close>

text \<open>The two maps of a scheme are inverse to each other.\<close>

definition scheme_ok :: "Scheme \<Rightarrow> bool" where
  "scheme_ok s \<longleftrightarrow>
     (\<forall>gvk t. gvkToType s gvk = Some t \<longleftrightarrow> gvk \<in> set (typeToGVK s t)) \<and> (\<forall>t. distinct (typeToGVK s t))"

lemma NewScheme_ok: "scheme_ok NewScheme"
  by (simp add: scheme_ok_def NewScheme_def)

lemma AddKnownTypeWithName_Some:
  "AddKnownTypeWithName gvk t s = Some s' \<Longrightarrow> scheme_ok s \<Longrightarrow> scheme_ok s'"
  unfolding scheme_ok_def AddKnownTypeWithName_def Let_def
  by (auto split: if_splits) (metis option.inject)

text \<open>
  What a sequence of registrations adds. \<open>plan\<close> says which type each kind is meant for; a scheme is
  compatible with it when it has nothing else under those kinds.
\<close>

definition compatible :: "(GroupVersionKind \<rightharpoonup> go_type) \<Rightarrow> Scheme \<Rightarrow> bool" where
  "compatible plan s \<longleftrightarrow> scheme_ok s \<and>
     (\<forall>gvk t. plan gvk = Some t \<longrightarrow> gvkToType s gvk = None \<or> gvkToType s gvk = Some t) \<and>
     (\<forall>t \<in> set unversioned_types. unversionedKinds s (gt_Name t) = None \<or> unversionedKinds s (gt_Name t) = Some t)"

definition registers ::
  "(GroupVersionKind \<rightharpoonup> go_type) \<Rightarrow> (Scheme \<Rightarrow> Scheme option) \<Rightarrow> (GroupVersionKind \<times> go_type) list \<Rightarrow> bool" where
  "registers plan f pairs \<longleftrightarrow>
     (\<forall>s. compatible plan s \<longrightarrow>
        (\<exists>s'. f s = Some s' \<and> compatible plan s' \<and> Map.graph (gvkToType s') = Map.graph (gvkToType s) \<union> set pairs))"

lemma registers_bind:
  assumes "registers plan f ps" "registers plan g qs"
  shows "registers plan (\<lambda>s. Option.bind (f s) g) (ps @ qs)"
  unfolding registers_def
proof (intro allI impI)
  fix s
  assume "compatible plan s"
  with assms(1) obtain s1 where s1: "f s = Some s1" "compatible plan s1"
      "Map.graph (gvkToType s1) = Map.graph (gvkToType s) \<union> set ps"
    unfolding registers_def by blast
  with assms(2) obtain s2 where "g s1 = Some s2" "compatible plan s2"
      "Map.graph (gvkToType s2) = Map.graph (gvkToType s1) \<union> set qs"
    unfolding registers_def by blast
  with s1 show "\<exists>s'. Option.bind (f s) g = Some s' \<and> compatible plan s' \<and>
      Map.graph (gvkToType s') = Map.graph (gvkToType s) \<union> set (ps @ qs)"
    by (intro exI [of _ s2]) auto
qed

lemma registers_one:
  assumes "plan gvk = Some t" "gv_Version (gvk_GroupVersion gvk) \<noteq> ''''"
  shows "registers plan (AddKnownTypeWithName gvk t) [(gvk, t)]"
  unfolding registers_def
proof (intro allI impI)
  fix s
  assume s: "compatible plan s"
  then have old: "gvkToType s gvk = None \<or> gvkToType s gvk = Some t" using assms(1) by (auto simp: compatible_def)
  obtain s' where s': "AddKnownTypeWithName gvk t s = Some s'" and
      maps: "gvkToType s' = (gvkToType s)(gvk \<mapsto> t)" "unversionedKinds s' = unversionedKinds s"
    using old assms(2) by (fastforce simp: AddKnownTypeWithName_def Let_def)
  moreover have "scheme_ok s'" using AddKnownTypeWithName_Some [OF s'] s by (simp add: compatible_def)
  then have "compatible plan s'" using s assms(1) by (auto simp: compatible_def maps)
  moreover have "Map.graph (gvkToType s') = Map.graph (gvkToType s) \<union> set [(gvk, t)]"
    using old by (auto simp: maps Map.graph_def split: if_splits)
  ultimately show "\<exists>s'. AddKnownTypeWithName gvk t s = Some s' \<and> compatible plan s' \<and>
      Map.graph (gvkToType s') = Map.graph (gvkToType s) \<union> set [(gvk, t)]" by blast
qed

lemma registers_AddKnownTypes:
  "gv_Version gv \<noteq> '''' \<Longrightarrow> \<forall>t \<in> set ts. plan (WithKind gv (gt_Name t)) = Some t \<Longrightarrow>
     registers plan (AddKnownTypes gv ts) (map (\<lambda>t. (WithKind gv (gt_Name t), t)) ts)"
proof (induction ts)
  case Nil
  then show ?case by (simp add: registers_def)
next
  case (Cons t ts)
  have "AddKnownTypes gv (t # ts) =
      (\<lambda>s. Option.bind (AddKnownTypeWithName (WithKind gv (gt_Name t)) t s) (AddKnownTypes gv ts))"
    by (intro ext) (simp split: option.split)
  then show ?case
    using registers_bind [OF registers_one Cons.IH, of "WithKind gv (gt_Name t)" t] Cons.prems
    by (simp add: WithKind_def)
qed

lemma registers_add_unversioned:
  "set ts \<subseteq> set unversioned_types \<Longrightarrow> registers plan (add_unversioned gv ts) []"
proof (induction ts)
  case (Cons t ts)
  show ?case
    unfolding registers_def
  proof (intro allI impI)
    fix s
    assume s: "compatible plan s"
    let ?s = "s\<lparr>unversionedTypes := (unversionedTypes s)(t \<mapsto> WithKind gv (gt_Name t)),
       unversionedKinds := (unversionedKinds s)(gt_Name t \<mapsto> t)\<rparr>"
    have "inj_on gt_Name (set unversioned_types)" by (simp add: unversioned_types_def metav1_def)
    moreover have "scheme_ok ?s" using s by (simp add: compatible_def scheme_ok_def)
    ultimately have "compatible plan ?s"
      using s Cons.prems by (auto simp: compatible_def dest: inj_onD)
    with Cons obtain s' where "add_unversioned gv ts ?s = Some s'" "compatible plan s'"
        "Map.graph (gvkToType s') = Map.graph (gvkToType s)"
      by (auto simp: registers_def)
    moreover have "unversionedKinds s (gt_Name t) = None \<or> unversionedKinds s (gt_Name t) = Some t"
      using s Cons.prems by (simp add: compatible_def)
    ultimately show "\<exists>s'. add_unversioned gv (t # ts) s = Some s' \<and> compatible plan s' \<and>
        Map.graph (gvkToType s') = Map.graph (gvkToType s) \<union> set []"
      by auto
  qed
qed (simp add: registers_def)

lemma registers_AddUnversionedTypes:
  assumes "gv_Version gv \<noteq> ''''" "\<forall>t \<in> set unversioned_types. plan (WithKind gv (gt_Name t)) = Some t"
  shows "registers plan (AddUnversionedTypes gv unversioned_types)
    (map (\<lambda>t. (WithKind gv (gt_Name t), t)) unversioned_types)"
proof -
  have "AddUnversionedTypes gv unversioned_types =
      (\<lambda>s. Option.bind (AddKnownTypes gv unversioned_types s) (add_unversioned gv unversioned_types))"
    by (intro ext) (simp add: AddUnversionedTypes_def split: option.split)
  then show ?thesis
    using registers_bind [OF registers_AddKnownTypes [OF assms] registers_add_unversioned] by simp
qed

section \<open>The planner's kinds\<close>

definition planner_kinds :: "string list" where
  "planner_kinds = [''SchedulePlan'', ''SchedulePlanList'', ''ScheduleTrigger'', ''ScheduleTriggerList'']"

definition group_pairs :: "(GroupVersionKind \<times> go_type) list" where
  "group_pairs =
     (WithKind planner_GroupVersion ''WatchEvent'', metav1 ''WatchEvent'') #
     (WithKind \<lparr>gv_Group = ''planner.ciena.io'', gv_Version = APIVersionInternal\<rparr> ''WatchEvent'', metav1 ''InternalEvent'') #
     map (\<lambda>t. (WithKind planner_GroupVersion (gt_Name t), t)) optionsTypes @
     map (\<lambda>t. (WithKind \<lparr>gv_Group = '''', gv_Version = ''v1''\<rparr> (gt_Name t), t)) unversioned_types"

definition planner_pairs :: "(GroupVersionKind \<times> go_type) list" where
  "planner_pairs = map (\<lambda>k. (WithKind planner_GroupVersion k, v1alpha1 k)) planner_kinds @ group_pairs"

lemmas pairs_simps = planner_pairs_def group_pairs_def planner_kinds_def WithKind_def planner_GroupVersion_def
  APIVersionInternal_def optionsTypes_def unversioned_types_def metav1_def v1alpha1_def

lemma planner_pairs_distinct: "distinct (map fst planner_pairs)"
  by (simp add: pairs_simps)

lemma planner_pairs_of: "(gvk, t) \<in> set planner_pairs \<Longrightarrow> map_of planner_pairs gvk = Some t"
  by (rule map_of_is_SomeI [OF planner_pairs_distinct])

lemma registers_group: "registers (map_of planner_pairs) (AddToGroupVersion planner_GroupVersion) group_pairs"
proof -
  let ?plan = "map_of planner_pairs" and ?v1 = "\<lparr>gv_Group = '''', gv_Version = ''v1''\<rparr>"
  have in_pairs: "set group_pairs \<subseteq> set planner_pairs" by (auto simp: planner_pairs_def)
  have one: "?plan gvk = Some t" if "(gvk, t) \<in> set group_pairs" for gvk t
    using that in_pairs by (intro planner_pairs_of) auto
  have "registers ?plan (AddKnownTypes planner_GroupVersion optionsTypes)
      (map (\<lambda>t. (WithKind planner_GroupVersion (gt_Name t), t)) optionsTypes)"
    by (rule registers_AddKnownTypes) (auto simp: planner_GroupVersion_def intro!: one simp: group_pairs_def)
  moreover have "registers ?plan (AddUnversionedTypes ?v1 unversioned_types)
      (map (\<lambda>t. (WithKind ?v1 (gt_Name t), t)) unversioned_types)"
    by (rule registers_AddUnversionedTypes) (auto intro!: one simp: group_pairs_def)
  ultimately have rest: "registers ?plan (\<lambda>s. Option.bind (AddKnownTypes planner_GroupVersion optionsTypes s)
      (AddUnversionedTypes ?v1 unversioned_types)) (drop 2 group_pairs)"
    by (auto dest: registers_bind simp: group_pairs_def)
  have w: "registers ?plan (AddKnownTypeWithName (WithKind planner_GroupVersion ''WatchEvent'') (metav1 ''WatchEvent''))
      [(WithKind planner_GroupVersion ''WatchEvent'', metav1 ''WatchEvent'')]"
    by (rule registers_one) (auto intro!: one simp: group_pairs_def planner_GroupVersion_def WithKind_def)
  let ?i = "WithKind \<lparr>gv_Group = gv_Group planner_GroupVersion, gv_Version = APIVersionInternal\<rparr> ''WatchEvent''"
  have i: "registers ?plan (AddKnownTypeWithName ?i (metav1 ''InternalEvent'')) [(?i, metav1 ''InternalEvent'')]"
    by (rule registers_one)
      (auto intro!: one simp: group_pairs_def planner_GroupVersion_def WithKind_def APIVersionInternal_def)
  from registers_bind [OF w registers_bind [OF i rest]] show ?thesis
    by (simp add: AddToGroupVersion_def [abs_def] group_pairs_def planner_GroupVersion_def)
qed

lemma registers_Register:
  assumes "set ks \<subseteq> set planner_kinds"
  shows "registers (map_of planner_pairs)
    (\<lambda>s. Option.bind (AddKnownTypes planner_GroupVersion (map v1alpha1 ks) s) (AddToGroupVersion planner_GroupVersion))
    (map (\<lambda>k. (WithKind planner_GroupVersion k, v1alpha1 k)) ks @ group_pairs)"
proof -
  have "\<forall>t \<in> set (map v1alpha1 ks). map_of planner_pairs (WithKind planner_GroupVersion (gt_Name t)) = Some t"
  proof
    fix t
    assume "t \<in> set (map v1alpha1 ks)"
    then obtain k where "k \<in> set planner_kinds" and t: "t = v1alpha1 k" using assms by auto
    then have "(WithKind planner_GroupVersion k, v1alpha1 k) \<in> set planner_pairs" by (auto simp: planner_pairs_def)
    from planner_pairs_of [OF this] show "map_of planner_pairs (WithKind planner_GroupVersion (gt_Name t)) = Some t"
      by (simp add: t v1alpha1_def)
  qed
  from registers_bind [OF registers_AddKnownTypes [OF _ this] registers_group] show ?thesis
    by (simp add: planner_GroupVersion_def comp_def v1alpha1_def)
qed

lemma AddToScheme_two:
  "AddToScheme [\<lambda>s. map_option (Pair None) (f s), \<lambda>s. map_option (Pair None) (g s)] s =
     map_option (Pair None) (Option.bind (f s) g)"
  by (cases "f s"; cases "g (the (f s))") simp_all

definition register_kinds :: "string list \<Rightarrow> Scheme \<Rightarrow> Scheme option" where
  "register_kinds ks s =
     Option.bind (AddKnownTypes planner_GroupVersion (map v1alpha1 ks) s) (AddToGroupVersion planner_GroupVersion)"

lemma planner_AddToScheme_two:
  "planner_AddToScheme s = map_option (Pair None)
     (Option.bind (register_kinds [''SchedulePlan'', ''SchedulePlanList''] s)
        (register_kinds [''ScheduleTrigger'', ''ScheduleTriggerList'']))"
  unfolding planner_AddToScheme_def planner_SchemeBuilder_def scheduletrigger_init_def scheduleplan_init_def
    Builder_Register_def register_kinds_def [abs_def] append.simps list.map AddToScheme_two ..

lemma planner_AddToScheme_adds:
  assumes "compatible (map_of planner_pairs) s"
  shows "\<exists>s'. planner_AddToScheme s = Some (None, s') \<and> scheme_ok s' \<and>
    Map.graph (gvkToType s') = Map.graph (gvkToType s) \<union> set planner_pairs"
proof -
  let ?pairs = "map (\<lambda>k. (WithKind planner_GroupVersion k, v1alpha1 k))"
  let ?plans = "[''SchedulePlan'', ''SchedulePlanList'']" and ?triggers = "[''ScheduleTrigger'', ''ScheduleTriggerList'']"
  have reg: "registers (map_of planner_pairs) (register_kinds ks) (?pairs ks @ group_pairs)"
    if "set ks \<subseteq> set planner_kinds" for ks
    unfolding register_kinds_def [abs_def] by (rule registers_Register [OF that])
  have "set ?plans \<subseteq> set planner_kinds" "set ?triggers \<subseteq> set planner_kinds" by (simp_all add: planner_kinds_def)
  note both = registers_bind [OF reg [OF this(1)] reg [OF this(2)]]
  have all: "set ((?pairs ?plans @ group_pairs) @ ?pairs ?triggers @ group_pairs) = set planner_pairs"
    by (auto simp: planner_pairs_def planner_kinds_def)
  from both assms show ?thesis
    unfolding registers_def all planner_AddToScheme_two compatible_def by fastforce
qed

text \<open>A distinct list with one member is that member.\<close>

lemma ObjectKinds_single:
  assumes "scheme_ok s" "\<And>g. gvkToType s g = Some t \<longleftrightarrow> g = gvk"
  shows "ObjectKinds t s = Some [gvk]"
proof -
  have "set (typeToGVK s t) = {gvk}" "distinct (typeToGVK s t)" using assms by (auto simp: scheme_ok_def)
  then have "typeToGVK s t = [gvk]"
    by (cases "typeToGVK s t") (auto simp: subset_singleton_iff)
  then show ?thesis by (simp add: ObjectKinds_def)
qed

definition resolves :: "Scheme \<Rightarrow> string \<Rightarrow> bool" where
  "resolves s k \<longleftrightarrow> Scheme_New (WithKind planner_GroupVersion k) s = Some (v1alpha1 k) \<and>
     ObjectKinds (v1alpha1 k) s = Some [WithKind planner_GroupVersion k]"

lemma planner_types_once:
  "(gvk, v1alpha1 k) \<in> set planner_pairs \<Longrightarrow> k \<in> set planner_kinds \<Longrightarrow> gvk = WithKind planner_GroupVersion k"
  by (auto simp: pairs_simps)

lemma planner_scheme_resolves:
  assumes s: "compatible (map_of planner_pairs) s" "\<forall>k \<in> set planner_kinds. typeToGVK s (v1alpha1 k) = []"
  shows "\<exists>s'. Must (planner_AddToScheme s) = Some s' \<and> (\<forall>k \<in> set planner_kinds. resolves s' k)"
proof -
  from planner_AddToScheme_adds [OF s(1)] obtain s' where add: "planner_AddToScheme s = Some (None, s')"
    and ok: "scheme_ok s'" and g: "Map.graph (gvkToType s') = Map.graph (gvkToType s) \<union> set planner_pairs" by blast
  have iff: "gvkToType s' gvk = Some t \<longleftrightarrow> gvkToType s gvk = Some t \<or> (gvk, t) \<in> set planner_pairs" for gvk t
    using g unfolding set_eq_iff by (auto simp: Map.graph_def)
  have "resolves s' k" if k: "k \<in> set planner_kinds" for k
  proof -
    have pair: "(WithKind planner_GroupVersion k, v1alpha1 k) \<in> set planner_pairs" using k by (auto simp: planner_pairs_def)
    have "gvkToType s gvk \<noteq> Some (v1alpha1 k)" for gvk
      using s k by (auto simp: compatible_def scheme_ok_def)
    then have only: "gvkToType s' gvk = Some (v1alpha1 k) \<longleftrightarrow> gvk = WithKind planner_GroupVersion k" for gvk
      using iff pair planner_types_once [OF _ k] by blast
    have "gvkToType s' (WithKind planner_GroupVersion k) = Some (v1alpha1 k)" by (simp add: only)
    with ObjectKinds_single [OF ok only] show ?thesis by (simp add: resolves_def Scheme_New_def)
  qed
  with add show ?thesis by (simp add: Must_def)
qed

text \<open>
  The program can start, and its clients can name every object they handle: when client-go's own
  registration succeeds and has nothing registered under the planner's kinds, the package's
  \<^verbatim>\<open>init\<close> does not panic, and in both client schemes each of the four custom kinds gives its Go type
  and the Go type gives exactly that kind back.
\<close>

theorem client_schemes_resolve:
  assumes "clientgo NewScheme = Some (None, s)" "compatible (map_of planner_pairs) s"
    and "\<forall>k \<in> set planner_kinds. typeToGVK s (v1alpha1 k) = []"
  shows "\<exists>p t. client_init clientgo = Some (p, t) \<and>
    (\<forall>k \<in> set planner_kinds. resolves p k \<and> resolves t k)"
  using planner_scheme_resolves [OF assms(2,3)] assms(1) by (auto simp: client_init_def Must_def)

theorem client_schemes_resolve_witness:
  "\<exists>p t. client_init (\<lambda>s. Some (None, s)) = Some (p, t) \<and> resolves p ''SchedulePlan'' \<and> resolves t ''ScheduleTriggerList''"
proof -
  have "compatible (map_of planner_pairs) NewScheme"
    by (simp add: compatible_def NewScheme_ok) (simp add: NewScheme_def)
  moreover have "\<forall>k \<in> set planner_kinds. typeToGVK NewScheme (v1alpha1 k) = []" by (simp add: NewScheme_def)
  ultimately show ?thesis
    using client_schemes_resolve [of "\<lambda>s. Some (None, s)" NewScheme] by (auto simp: planner_kinds_def)
qed

section \<open>The plugin's arguments are known to the scheduler\<close>

lemma AddToScheme_append:
  "AddToScheme (fs @ gs) s =
     (case AddToScheme fs s of Some (None, s') \<Rightarrow> AddToScheme gs s' | r \<Rightarrow> r)"
  by (induction fs s rule: AddToScheme.induct) (auto split: option.split)

definition args_plan :: "GroupVersionKind \<rightharpoonup> go_type" where
  "args_plan =
     [WithKind (sched_GroupVersion ''v1beta2'') ''PodSetPlannerArgs'' \<mapsto> PodSetPlannerArgs_type,
      WithKind (sched_GroupVersion APIVersionInternal) ''PodSetPlannerArgs'' \<mapsto> PodSetPlannerArgs_type]"

lemma addKnownTypes_bind:
  "addKnownTypes s = map_option (Pair None)
     (Option.bind (AddKnownTypes (sched_GroupVersion ''v1beta2'') [PodSetPlannerArgs_type] s)
        (AddKnownTypes (sched_GroupVersion APIVersionInternal) [PodSetPlannerArgs_type]))"
  by (simp add: addKnownTypes_def split: option.split)

text \<open>
  The scheduler recognises the plugin's arguments in its configuration: when the scheduler's own
  registration succeeds and uses the kind for nothing else, \<^verbatim>\<open>init\<close> adds the registration to the
  builder and does not panic, and the kind \<^verbatim>\<open>PodSetPlannerArgs\<close> gives the plugin's type in the version of
  the configuration file and in the internal version.
\<close>

theorem plugin_args_resolve:
  assumes "AddToScheme SchemeBuilder scheme = Some (None, s)" "compatible args_plan s"
  shows "\<exists>s'. scheduler_init SchemeBuilder scheme = Some (SchemeBuilder @ [addKnownTypes], s') \<and> scheme_ok s' \<and>
    (\<forall>version \<in> {''v1beta2'', APIVersionInternal}.
       Scheme_New (WithKind (sched_GroupVersion version) ''PodSetPlannerArgs'') s' = Some PodSetPlannerArgs_type)"
proof -
  have "registers args_plan (AddKnownTypes (sched_GroupVersion version) [PodSetPlannerArgs_type])
      [(WithKind (sched_GroupVersion version) ''PodSetPlannerArgs'', PodSetPlannerArgs_type)]"
    if "version \<in> {''v1beta2'', APIVersionInternal}" for version
    using registers_AddKnownTypes [of "sched_GroupVersion version" "[PodSetPlannerArgs_type]" args_plan] that
    by (auto simp: args_plan_def PodSetPlannerArgs_type_def sched_GroupVersion_def APIVersionInternal_def WithKind_def)
  from registers_bind [OF this this, of "''v1beta2''" APIVersionInternal] assms(2)
  obtain s' where s': "addKnownTypes s = Some (None, s')" "scheme_ok s'"
      "Map.graph (gvkToType s') = Map.graph (gvkToType s) \<union>
         {(WithKind (sched_GroupVersion ''v1beta2'') ''PodSetPlannerArgs'', PodSetPlannerArgs_type),
          (WithKind (sched_GroupVersion APIVersionInternal) ''PodSetPlannerArgs'', PodSetPlannerArgs_type)}"
    by (auto simp: registers_def addKnownTypes_bind compatible_def simp del: AddKnownTypes.simps)
  then have "\<forall>version \<in> {''v1beta2'', APIVersionInternal}.
      gvkToType s' (WithKind (sched_GroupVersion version) ''PodSetPlannerArgs'') = Some PodSetPlannerArgs_type"
    unfolding set_eq_iff by (auto simp: Map.graph_def)
  then have "\<forall>version \<in> {''v1beta2'', APIVersionInternal}.
       Scheme_New (WithKind (sched_GroupVersion version) ''PodSetPlannerArgs'') s' = Some PodSetPlannerArgs_type"
    by (simp add: Scheme_New_def)
  moreover have "scheduler_init SchemeBuilder scheme = Some (SchemeBuilder @ [addKnownTypes], s')"
    using assms(1) s'(1) by (simp add: scheduler_init_def AddToScheme_append Must_def)
  ultimately show ?thesis using s'(2) by blast
qed

theorem plugin_args_resolve_witness:
  "\<exists>s'. scheduler_init [] NewScheme = Some ([addKnownTypes], s') \<and>
     Scheme_New (WithKind (sched_GroupVersion ''v1beta2'') ''PodSetPlannerArgs'') s' = Some PodSetPlannerArgs_type"
proof -
  have "compatible args_plan NewScheme"
    by (simp add: compatible_def NewScheme_ok) (simp add: NewScheme_def)
  with plugin_args_resolve [of "[]" NewScheme NewScheme] show ?thesis by auto
qed

end
