(* ===== verification/PluginStart.thy ===== *)
theory PluginStart
  imports Plugin Schemes
begin

text \<open>
  How the plugin comes to be: \<^verbatim>\<open>New\<close>, which kube-scheduler calls with the arguments from its configuration
  file and a handle of the framework, \<^verbatim>\<open>NewPlannerService\<close>, and the methods that tell the framework what
  the plugin is. The logger library, the configuration of the handle and the construction of API
  clients are fields of a record.
\<close>

section \<open>New\<close>

text \<open>The arguments arrive as an interface value: nil, the plugin's own type, or another one.\<close>

datatype runtime_object = ArgsObject PodSetPlannerArgs | AnotherObject

record 'r rest_Config =
  rest_ContentType :: string
  rest_other :: 'r

record ('r, 'c) plugin_host =
  zap_logger :: "bool \<Rightarrow> err option"     \<comment> \<open>\<^verbatim>\<open>zap.NewDevelopment\<close> or \<^verbatim>\<open>zap.NewProduction\<close>\<close>
  handle_KubeConfig :: "'r rest_Config"
  new_client :: "'r rest_Config \<Rightarrow> Scheme \<Rightarrow> err + 'c"

record 'c PlannerService =
  service_clnt :: 'c
  service_callTimeout :: int

definition NewPlannerService :: "'c \<Rightarrow> int \<Rightarrow> 'c PlannerService" where
  "NewPlannerService clnt callTimeout = \<lparr>service_clnt = clnt, service_callTimeout = callTimeout\<rparr>"

record 'c plugin =
  plugin_config :: PodSetPlannerOptions
  plugin_plannerService :: "'c PlannerService"
  plugin_plannerClient :: 'c
  plugin_triggerClient :: 'c

text \<open>The type assertion on the arguments panics for another type: \<open>None\<close>.\<close>

definition plugin_New ::
  "('r, 'c) plugin_host \<Rightarrow> Scheme \<times> Scheme \<Rightarrow> runtime_object option \<Rightarrow> (err + 'c plugin) option" where
  "plugin_New h schemes obj =
     (case (case obj of
              None \<Rightarrow> Some (plugin_options None)
            | Some (ArgsObject pluginConfig) \<Rightarrow> Some (plugin_options (Some pluginConfig))
            | Some AnotherObject \<Rightarrow> None) of
        None \<Rightarrow> None
      | Some config \<Rightarrow> Some
          (case zap_logger h (opt_Debug config) of
             Some e \<Rightarrow>
               Inl (Wrapped (if opt_Debug config then ''error creating dev logger: '' else ''error creating prod logger: '') e)
           | None \<Rightarrow>
               let restConfig = (handle_KubeConfig h)\<lparr>rest_ContentType := ''application/json''\<rparr>
               in case NewSchedulePlannerClient (new_client h) (fst schemes) restConfig of
                    Inl e \<Rightarrow> Inl e
                  | Inr plannerClient \<Rightarrow>
                      (case NewScheduleTriggerClient (new_client h) (snd schemes) restConfig of
                         Inl e \<Rightarrow> Inl e
                       | Inr triggerClient \<Rightarrow>
                           Inr \<lparr>plugin_config = config,
                             plugin_plannerService = NewPlannerService plannerClient (opt_CallTimeout config),
                             plugin_plannerClient = plannerClient, plugin_triggerClient = triggerClient\<rparr>)))"

text \<open>What the framework asks of the plugin.\<close>

definition plugin_Name :: "'c plugin \<Rightarrow> string" where
  "plugin_Name p = ''PodSetPlanner''"

definition PreFilterExtensions :: "'c plugin \<Rightarrow> 'e option" where
  "PreFilterExtensions p = None"

definition ScoreExtensions :: "'c plugin \<Rightarrow> 'e option" where
  "ScoreExtensions p = None"

text \<open>The time \<^verbatim>\<open>PreScore\<close> allows itself: a \<^verbatim>\<open>time.Duration\<close> of 64 bits, doubled.\<close>

definition PreScore_timeout :: "'c plugin \<Rightarrow> int" where
  "PreScore_timeout p = double_timeout (opt_CallTimeout (plugin_config p))"

section \<open>The plugin starts\<close>

definition args_of :: "runtime_object option \<Rightarrow> PodSetPlannerArgs option" where
  "args_of obj = (case obj of Some (ArgsObject a) \<Rightarrow> Some a | _ \<Rightarrow> None)"

text \<open>
  The plugin starts with any arguments of its own type, or none. When client-go's registration
  succeeds and leaves the planner's kinds free, the logger can be created, and a client can be
  created for a configuration with JSON content whose scheme knows the planner's kinds,
  then \<^verbatim>\<open>New\<close> returns a plugin. Its timeouts are positive, its planner service waits as long as the
  configuration says and uses the plugin's own client, and pre-scoring may take twice that time
  unless the doubled duration overflows.
\<close>

theorem plugin_starts:
  assumes "clientgo NewScheme = Some (None, s)" "compatible (map_of planner_pairs) s"
    and "\<forall>k \<in> set planner_kinds. typeToGVK s (v1alpha1 k) = []"
    and "obj \<noteq> Some AnotherObject" "\<forall>debug. zap_logger h debug = None"
    and "\<forall>cfg scheme. rest_ContentType cfg = ''application/json'' \<and> (\<forall>k \<in> set planner_kinds. resolves scheme k) \<longrightarrow>
      (\<exists>c. new_client h cfg scheme = Inr c)"
  shows "\<exists>schemes p. client_init clientgo = Some schemes \<and> plugin_New h schemes obj = Some (Inr p) \<and>
    plugin_config p = plugin_options (args_of obj) \<and>
    0 < opt_CallTimeout (plugin_config p) \<and> 0 < opt_UpdatePeriod (plugin_config p) \<and>
    plugin_plannerService p = \<lparr>service_clnt = plugin_plannerClient p, service_callTimeout = opt_CallTimeout (plugin_config p)\<rparr> \<and>
    (opt_CallTimeout (plugin_config p) < 2 ^ 62 \<longrightarrow> PreScore_timeout p = 2 * opt_CallTimeout (plugin_config p))"
proof -
  obtain ps ts where init: "client_init clientgo = Some (ps, ts)"
    and res: "\<forall>k \<in> set planner_kinds. resolves ps k \<and> resolves ts k"
    using planner_scheme_resolves [OF assms(2,3)] assms(1) by (auto simp: client_init_def Must_def)
  let ?cfg = "(handle_KubeConfig h)\<lparr>rest_ContentType := ''application/json''\<rparr>"
  obtain pc tc where clients: "new_client h ?cfg ps = Inr pc" "new_client h ?cfg ts = Inr tc"
  proof -
    have json: "rest_ContentType ?cfg = ''application/json''" by simp
    have "\<exists>c. new_client h ?cfg ps = Inr c" "\<exists>c. new_client h ?cfg ts = Inr c" using assms(6) res json by blast+
    then show ?thesis using that by blast
  qed
  let ?o = "plugin_options (args_of obj)"
  define p where "p = \<lparr>plugin_config = ?o, plugin_plannerService = NewPlannerService pc (opt_CallTimeout ?o),
    plugin_plannerClient = pc, plugin_triggerClient = tc\<rparr>"
  have "plugin_New h (ps, ts) obj = Some (Inr p)"
    using assms(4,5) clients
    by (auto simp: plugin_New_def args_of_def p_def NewSchedulePlannerClient_def NewScheduleTriggerClient_def Let_def
        split: option.split runtime_object.split)
  moreover note options_positive [of "args_of obj"] double_timeout_exact [of "opt_CallTimeout (plugin_config p)"]
  ultimately show ?thesis
    using init by (intro exI [of _ "(ps, ts)"] exI [of _ p]) (simp add: p_def NewPlannerService_def PreScore_timeout_def)
qed

theorem plugin_starts_witness:
  "\<exists>schemes p. client_init (\<lambda>s. Some (None, s)) = Some schemes \<and>
     plugin_New \<lparr>zap_logger = (\<lambda>_. None), handle_KubeConfig = \<lparr>rest_ContentType = '''', rest_other = ()\<rparr>,
       new_client = (\<lambda>cfg scheme. Inr (rest_ContentType cfg))\<rparr> schemes None = Some (Inr p) \<and>
     PreScore_timeout p = 30000000000"
proof -
  have "compatible (map_of planner_pairs) NewScheme"
    by (simp add: compatible_def NewScheme_ok) (simp add: NewScheme_def)
  moreover have "\<forall>k \<in> set planner_kinds. typeToGVK NewScheme (v1alpha1 k) = []" by (simp add: NewScheme_def)
  ultimately show ?thesis
    using plugin_starts [of "\<lambda>s. Some (None, s)" NewScheme None
        "\<lparr>zap_logger = (\<lambda>_. None), handle_KubeConfig = \<lparr>rest_ContentType = '''', rest_other = ()\<rparr>,
          new_client = (\<lambda>cfg scheme. Inr (rest_ContentType cfg))\<rparr>"]
    by (auto simp: args_of_def plugin_options_def DefaultPodSetPlannerConfig_def)
qed

text \<open>
  When \<^verbatim>\<open>New\<close> does not return a plugin, the arguments had another type (it panics), or its error names
  the logger that failed, by the configured mode, or wraps the error of the client library.
\<close>

theorem plugin_start_failures:
  "(plugin_New h schemes obj = None \<longleftrightarrow> obj = Some AnotherObject) \<and>
   (plugin_New h schemes obj = Some (Inl e) \<longrightarrow>
      (\<exists>e'. zap_logger h (opt_Debug (plugin_options (args_of obj))) = Some e' \<and>
         e = Wrapped (if opt_Debug (plugin_options (args_of obj)) then ''error creating dev logger: ''
                      else ''error creating prod logger: '') e') \<or>
      (\<exists>e' cfg. cfg = (handle_KubeConfig h)\<lparr>rest_ContentType := ''application/json''\<rparr> \<and>
         (new_client h cfg (fst schemes) = Inl e' \<or> new_client h cfg (snd schemes) = Inl e') \<and>
         e = Wrapped ''error creating controller client: '' e'))"
proof (cases "obj = Some AnotherObject")
  case False
  let ?o = "plugin_options (args_of obj)"
  let ?cfg = "(handle_KubeConfig h)\<lparr>rest_ContentType := ''application/json''\<rparr>"
  have args: "(case obj of None \<Rightarrow> Some (plugin_options None) | Some (ArgsObject a) \<Rightarrow> Some (plugin_options (Some a))
      | Some AnotherObject \<Rightarrow> None) = Some ?o"
    using False by (auto simp: args_of_def split: option.split runtime_object.split)
  show ?thesis
    unfolding plugin_New_def args
    by (cases "zap_logger h (opt_Debug ?o)"; cases "new_client h ?cfg (fst schemes)"; cases "new_client h ?cfg (snd schemes)")
      (use False in \<open>auto simp: NewSchedulePlannerClient_def NewScheduleTriggerClient_def Let_def\<close>)
qed (simp add: plugin_New_def)

end
