(* ===== verification/CycleStates.thy ===== *)
theory CycleStates
  imports Plugin
begin

text \<open>
  The plugin's assignment states as the objects they are. The framework's cycle state holds a pointer
  to a \<^verbatim>\<open>plannerAssignmentState\<close>; \<^verbatim>\<open>Reserve\<close> changes the object through it, and its \<^verbatim>\<open>Clone\<close> returns the
  pointer itself, so that a cycle state and its clones share the object. Theory Plugin has the
  node in the cycle state by value. Here the extension points work on the store of objects,
  many scheduling cycles run interleaved, and they are shown to behave as those of theory Plugin.
\<close>

section \<open>Objects and pointers\<close>

text \<open>The object at an address is its field \<^verbatim>\<open>node\<close>; new objects get the next address.\<close>

datatype state_ref = NilRef | AssignmentRef nat | OtherRef string

type_synonym ref_state = "string \<rightharpoonup> state_ref"

definition deref :: "string list \<Rightarrow> state_ref \<Rightarrow> StateData" where
  "deref objs r = (case r of NilRef \<Rightarrow> NilData | AssignmentRef a \<Rightarrow> AssignmentData (objs ! a) | OtherRef v \<Rightarrow> OtherData v)"

text \<open>A cycle state as theory Plugin sees it.\<close>

definition view :: "string list \<Rightarrow> ref_state \<Rightarrow> CycleState" where
  "view objs st k = map_option (deref objs) (st k)"

definition ref_getAssignmentState :: "ref_state \<Rightarrow> err + nat" where
  "ref_getAssignmentState cycleState =
     (case cycleState plannerAssignmentStateKey of
        None \<Rightarrow> Inl (Wrapped ''unable to read cycle state: '' (Sentinel FrameworkErrNotFound))
      | Some NilRef \<Rightarrow> Inl (Sentinel ErrNilAssignmentState)
      | Some (OtherRef v) \<Rightarrow>
          Inl (Wrapped (v @ '' convert to node assignment state error: '') (Sentinel ErrInvalidAssignmentState))
      | Some (AssignmentRef a) \<Rightarrow> Inr a)"

text \<open>\<^verbatim>\<open>Clone\<close> of the plugin's data, and of a cycle state; \<open>other\<close> copies the data of other plugins.\<close>

definition plannerAssignmentState_Clone :: "nat \<Rightarrow> nat" where
  "plannerAssignmentState_Clone s = s"

definition data_Clone :: "(string \<Rightarrow> string) \<Rightarrow> state_ref \<Rightarrow> state_ref" where
  "data_Clone other r =
     (case r of NilRef \<Rightarrow> NilRef | AssignmentRef a \<Rightarrow> AssignmentRef (plannerAssignmentState_Clone a)
      | OtherRef v \<Rightarrow> OtherRef (other v))"

definition CycleState_Clone :: "(string \<Rightarrow> string) \<Rightarrow> ref_state \<Rightarrow> ref_state" where
  "CycleState_Clone other st k = map_option (data_Clone other) (st k)"

section \<open>The extension points on the store\<close>

type_synonym 'w cycle_heap = "string list \<times> ref_state \<times> 'w"

definition heap_PreScore ::
  "'w outside \<Rightarrow> 'w trigger_kube \<Rightarrow> nat list \<Rightarrow> Pod \<Rightarrow> Node list \<Rightarrow> 'w cycle_heap \<Rightarrow> Status \<times> 'w cycle_heap" where
  "heap_PreScore out tk draws pod nodes hp =
     (case hp of (objs, state, w) \<Rightarrow>
        (case createAssignmentState out tk draws pod nodes w of
           ((assignmentState, status), w') \<Rightarrow>
             if \<not> IsSuccess status then
               if StatusEqualErr status ErrNoPodSetFound \<or> StatusEqualErr status ErrNoPlannersFound
               then (NewStatus Success [], objs, state, w')
               else (NewStatus Unschedulable [], objs, state, w')
             else
               (case assignmentState of
                  None \<Rightarrow> (status, objs, state, w')
                | Some node \<Rightarrow>
                    (status, objs @ [node], state(plannerAssignmentStateKey \<mapsto> AssignmentRef (length objs)), w'))))"

definition heap_Score :: "string list \<Rightarrow> ref_state \<Rightarrow> Pod \<Rightarrow> string \<Rightarrow> int64 \<times> Status" where
  "heap_Score objs state pod nodeName =
     (case ref_getAssignmentState state of
        Inl _ \<Rightarrow> (MinNodeScore, NewStatus Success [])
      | Inr assignmentState \<Rightarrow>
          if objs ! assignmentState \<noteq> nodeName then (1, NewStatus Success [])
          else (MaxNodeScore, NewStatus Success []))"

definition heap_PostFilter :: "string list \<Rightarrow> ref_state \<Rightarrow> Pod \<Rightarrow> string option \<times> Status" where
  "heap_PostFilter objs state pod =
     (case ref_getAssignmentState state of
        Inl e \<Rightarrow> (None, AsStatus e)
      | Inr assignmentState \<Rightarrow> (Some (objs ! assignmentState), NewStatus Success []))"

definition heap_Reserve :: "'w outside \<Rightarrow> Pod \<Rightarrow> string \<Rightarrow> 'w cycle_heap \<Rightarrow> Status \<times> 'w cycle_heap" where
  "heap_Reserve out pod nodeName hp =
     (case hp of (objs, state, w) \<Rightarrow>
        (case ref_getAssignmentState state of
           Inl _ \<Rightarrow> (NewStatus Success [], objs, state, w)
         | Inr assignmentState \<Rightarrow>
             let podset = getPodSet pod
             in if podset = '''' then (AsStatus (Sentinel ErrNoPodSetFound), objs, state, w)
                else if objs ! assignmentState \<noteq> nodeName then
                  (case service_UpdateAssignment out pod podset nodeName w of
                     (Some e, w') \<Rightarrow> (AsStatus e, objs, state, w')
                   | (None, w') \<Rightarrow>
                       (NewStatus Success [], objs[assignmentState := nodeName],
                        state(plannerAssignmentStateKey \<mapsto> AssignmentRef assignmentState), w'))
                else (NewStatus Success [], objs, state, w)))"

definition heap_Unreserve :: "'w outside \<Rightarrow> Pod \<Rightarrow> string \<Rightarrow> 'w cycle_heap \<Rightarrow> 'w cycle_heap" where
  "heap_Unreserve out pod nodeName hp =
     (case hp of (objs, state, w) \<Rightarrow>
        (case ref_getAssignmentState state of
           Inl _ \<Rightarrow> (objs, state, w)
         | Inr _ \<Rightarrow>
             let podset = getPodSet pod
             in if podset = '''' then (objs, state, w)
                else
                  (case service_Delete out pod podset nodeName w of
                     (Some e, w') \<Rightarrow> (objs, state, w')
                   | (None, w') \<Rightarrow> (objs, state(plannerAssignmentStateKey := None), w'))))"

section \<open>Many cycles\<close>

text \<open>
  The framework starts cycles, clones their states, and calls the plugin on them in any order; in
  between other plugins write their own data and the world changes. A step belongs to one cycle.
  The list \<open>cy_origin\<close> only records from which cycle a state descends by cloning. Cloning a
  state that holds a nil interface panics, so there is no step for it.
\<close>

record 'w cycles =
  cy_objs :: "string list"
  cy_states :: "ref_state list"
  cy_origin :: "nat list"
  cy_world :: 'w

definition cycle_heap_of :: "'w cycles \<Rightarrow> nat \<Rightarrow> 'w cycle_heap" where
  "cycle_heap_of S c = (cy_objs S, cy_states S ! c, cy_world S)"

definition put_heap :: "'w cycles \<Rightarrow> nat \<Rightarrow> 'w cycle_heap \<Rightarrow> 'w cycles" where
  "put_heap S c hp =
     (case hp of (objs, st, w) \<Rightarrow> S\<lparr>cy_objs := objs, cy_states := (cy_states S)[c := st], cy_world := w\<rparr>)"

definition start_cycles :: "'w cycles \<Rightarrow> bool" where
  "start_cycles S \<longleftrightarrow> cy_objs S = [] \<and> cy_states S = [] \<and> cy_origin S = []"

inductive cycle_step ::
  "'w outside \<Rightarrow> 'w trigger_kube \<Rightarrow> (string \<Rightarrow> string) \<Rightarrow> nat \<Rightarrow> 'w cycles \<Rightarrow> 'w cycles \<Rightarrow> bool"
  for out tk other where
  new_cycle: "c = length (cy_states S) \<Longrightarrow>
    cycle_step out tk other c S (S\<lparr>cy_states := cy_states S @ [Map.empty], cy_origin := cy_origin S @ [c]\<rparr>)"
| clone: "c < length (cy_states S) \<Longrightarrow> NilRef \<notin> ran (cy_states S ! c) \<Longrightarrow>
    cycle_step out tk other c S (S\<lparr>cy_states := cy_states S @ [CycleState_Clone other (cy_states S ! c)],
      cy_origin := cy_origin S @ [cy_origin S ! c]\<rparr>)"
| pre_score: "c < length (cy_states S) \<Longrightarrow> heap_PreScore out tk draws pod nodes (cycle_heap_of S c) = (status, hp) \<Longrightarrow>
    cycle_step out tk other c S (put_heap S c hp)"
| reserve: "c < length (cy_states S) \<Longrightarrow> heap_Reserve out pod nodeName (cycle_heap_of S c) = (status, hp) \<Longrightarrow>
    cycle_step out tk other c S (put_heap S c hp)"
| unreserve: "c < length (cy_states S) \<Longrightarrow>
    cycle_step out tk other c S (put_heap S c (heap_Unreserve out pod nodeName (cycle_heap_of S c)))"
| other_plugin: "c < length (cy_states S) \<Longrightarrow> r \<in> {None, Some NilRef, Some (OtherRef v)} \<Longrightarrow>
    cycle_step out tk other c S (S\<lparr>cy_states := (cy_states S)[c := (cy_states S ! c)(k := r)]\<rparr>)"
| world: "cycle_step out tk other c S (S\<lparr>cy_world := w\<rparr>)"

definition cycle_view :: "'w cycles \<Rightarrow> nat \<Rightarrow> CycleState" where
  "cycle_view S c = view (cy_objs S) (cy_states S ! c)"

section \<open>Pointers stay valid, and are shared only by clones\<close>

definition refs :: "ref_state \<Rightarrow> nat set" where
  "refs st = {a. AssignmentRef a \<in> ran st}"

definition cycles_inv :: "'w cycles \<Rightarrow> bool" where
  "cycles_inv S \<longleftrightarrow>
     length (cy_origin S) = length (cy_states S) \<and>
     (\<forall>c < length (cy_states S). \<forall>a \<in> refs (cy_states S ! c). a < length (cy_objs S)) \<and>
     (\<forall>c < length (cy_states S). \<forall>d < length (cy_states S). \<forall>a \<in> refs (cy_states S ! c).
        a \<in> refs (cy_states S ! d) \<longrightarrow> cy_origin S ! c = cy_origin S ! d)"

text \<open>
  What an extension point may do to the store: objects are only added, an old object is only changed
  if the cycle's own state refers to it, and the state refers afterwards only to objects it
  referred to before and to new ones.
\<close>

definition local_change :: "string list \<Rightarrow> ref_state \<Rightarrow> string list \<Rightarrow> ref_state \<Rightarrow> bool" where
  "local_change objs st objs' st' \<longleftrightarrow>
     length objs \<le> length objs' \<and>
     (\<forall>a < length objs. a \<notin> refs st \<longrightarrow> objs' ! a = objs ! a) \<and>
     refs st' \<subseteq> refs st \<union> {length objs..<length objs'}"

lemma refs_empty [simp]: "refs Map.empty = {}"
  by (simp add: refs_def)

lemma CycleState_Clone_ref:
  "CycleState_Clone other st k = Some (AssignmentRef a) \<longleftrightarrow> st k = Some (AssignmentRef a)"
  by (cases "st k"; cases "the (st k)") (auto simp: CycleState_Clone_def data_Clone_def plannerAssignmentState_Clone_def)

lemma refs_CycleState_Clone [simp]: "refs (CycleState_Clone other st) = refs st"
  by (simp add: refs_def ran_def CycleState_Clone_ref)

lemma refs_update:
  "refs (st(k := r)) \<subseteq> refs st \<union> {a. r = Some (AssignmentRef a)}"
  by (auto simp: refs_def ran_def split: if_splits)

lemma refsI: "st k = Some (AssignmentRef a) \<Longrightarrow> a \<in> refs st"
  by (auto simp: refs_def ran_def)

lemma local_change_refl: "local_change objs st objs st"
  by (simp add: local_change_def)

lemma heap_PreScore_local:
  "heap_PreScore out tk draws pod nodes (objs, st, w) = (status, objs', st', w') \<Longrightarrow> local_change objs st objs' st'"
  using refs_update [of st plannerAssignmentStateKey "Some (AssignmentRef (length objs))"]
  by (auto simp: heap_PreScore_def local_change_refl local_change_def nth_append split: prod.splits if_splits option.splits)

lemma ref_getAssignmentState_Inr:
  "ref_getAssignmentState st = Inr a \<longleftrightarrow> st plannerAssignmentStateKey = Some (AssignmentRef a)"
  by (simp add: ref_getAssignmentState_def split: option.split state_ref.split)

lemma heap_Reserve_local:
  assumes "heap_Reserve out pod nodeName (objs, st, w) = (status, objs', st', w')"
  shows "local_change objs st objs' st'"
proof (cases "ref_getAssignmentState st")
  case (Inr a)
  then have a: "st plannerAssignmentStateKey = Some (AssignmentRef a)" by (simp add: ref_getAssignmentState_Inr)
  then have "st(plannerAssignmentStateKey \<mapsto> AssignmentRef a) = st" by auto
  moreover have "objs[a := nodeName] ! b = objs ! b" if "b \<notin> refs st" for b
    using that refsI [of st plannerAssignmentStateKey a] a by (cases "b = a") auto
  ultimately show ?thesis
    using assms Inr by (auto simp: heap_Reserve_def Let_def local_change_refl local_change_def
        split: prod.splits if_splits option.splits)
qed (use assms in \<open>auto simp: heap_Reserve_def local_change_refl\<close>)

lemma heap_Unreserve_local:
  "heap_Unreserve out pod nodeName (objs, st, w) = (objs', st', w') \<Longrightarrow> local_change objs st objs' st'"
  using refs_update [of st plannerAssignmentStateKey None]
  by (auto simp: heap_Unreserve_def Let_def local_change_refl local_change_def
      split: sum.splits prod.splits if_splits option.splits)

lemma cycles_invD:
  assumes "cycles_inv S" "c < length (cy_states S)" "a \<in> refs (cy_states S ! c)"
  shows "a < length (cy_objs S)"
    and "d < length (cy_states S) \<Longrightarrow> a \<in> refs (cy_states S ! d) \<Longrightarrow> cy_origin S ! c = cy_origin S ! d"
  using assms unfolding cycles_inv_def by blast+

lemma cycles_invI:
  assumes "length (cy_origin S) = length (cy_states S)"
    and "\<And>c a. c < length (cy_states S) \<Longrightarrow> a \<in> refs (cy_states S ! c) \<Longrightarrow> a < length (cy_objs S)"
    and "\<And>c d a. c < length (cy_states S) \<Longrightarrow> a \<in> refs (cy_states S ! c) \<Longrightarrow>
      d < length (cy_states S) \<Longrightarrow> a \<in> refs (cy_states S ! d) \<Longrightarrow> cy_origin S ! c = cy_origin S ! d"
  shows "cycles_inv S"
  using assms unfolding cycles_inv_def by blast

lemma put_heap_local:
  assumes "cycles_inv S" "c < length (cy_states S)" "local_change (cy_objs S) (cy_states S ! c) objs' st'"
  shows "cycles_inv (put_heap S c (objs', st', w'))"
proof -
  let ?n = "length (cy_objs S)" and ?st = "(cy_states S)[c := st']"
  have ch: "?n \<le> length objs'" "refs st' \<subseteq> refs (cy_states S ! c) \<union> {?n..<length objs'}"
    using assms(3) by (simp_all add: local_change_def)
  have bounded: "a < ?n" if "d < length (cy_states S)" "a \<in> refs (cy_states S ! d)" for a d
    using cycles_invD(1) [OF assms(1) that] .
  have new: "a \<in> refs (cy_states S ! d) \<or> d = c \<and> ?n \<le> a \<and> a < length objs'"
    if "d < length (cy_states S)" "a \<in> refs (?st ! d)" for a d
    using that ch(2) by (cases "d = c") auto
  have valid: "a < length objs'" if "d < length (cy_states S)" "a \<in> refs (?st ! d)" for a d
    using new [OF that] bounded [OF that(1), of a] ch(1) by auto
  have same: "cy_origin S ! d = cy_origin S ! e"
    if d: "d < length (cy_states S)" "a \<in> refs (?st ! d)" and e: "e < length (cy_states S)" "a \<in> refs (?st ! e)" for a d e
  proof (cases "a < ?n")
    case True
    then have "a \<in> refs (cy_states S ! d)" "a \<in> refs (cy_states S ! e)" using new [OF d] new [OF e] by auto
    then show ?thesis using cycles_invD(2) [OF assms(1) d(1) _ e(1)] by blast
  next
    case False
    then have "a \<notin> refs (cy_states S ! d)" "a \<notin> refs (cy_states S ! e)" using bounded d(1) e(1) by blast+
    then show ?thesis using new [OF d] new [OF e] by simp
  qed
  have eqs: "cy_states (put_heap S c (objs', st', w')) = ?st" "cy_objs (put_heap S c (objs', st', w')) = objs'"
      "cy_origin (put_heap S c (objs', st', w')) = cy_origin S" "length (cy_origin S) = length (cy_states S)"
    using assms(1) by (simp_all add: put_heap_def cycles_inv_def)
  show ?thesis
    by (rule cycles_invI; unfold eqs length_list_update; blast intro: valid same)
qed

lemma append_state_inv:
  assumes "cycles_inv S" "refs st = {} \<or> (\<exists>c < length (cy_states S). refs st = refs (cy_states S ! c) \<and> org = cy_origin S ! c)"
  shows "cycles_inv (S\<lparr>cy_states := cy_states S @ [st], cy_origin := cy_origin S @ [org]\<rparr>)"
proof -
  let ?n = "length (cy_states S)" and ?st = "cy_states S @ [st]" and ?org = "cy_origin S @ [org]"
  have len: "length (cy_origin S) = ?n" using assms(1) by (simp add: cycles_inv_def)
  have old: "\<exists>c < ?n. a \<in> refs (cy_states S ! c) \<and> ?org ! d = cy_origin S ! c" if "d < Suc ?n" "a \<in> refs (?st ! d)" for a d
  proof (cases "d < ?n")
    case True
    then show ?thesis using that(2) len by (intro exI [of _ d]) (simp add: nth_append)
  next
    case False
    then have "d = ?n" using that(1) by simp
    then have "a \<in> refs st" "?org ! d = org" using that(2) len by (simp_all add: nth_append)
    then show ?thesis using assms(2) by auto
  qed
  have valid: "a < length (cy_objs S)" if "d < Suc ?n" "a \<in> refs (?st ! d)" for a d
    using old [OF that] cycles_invD(1) [OF assms(1)] by blast
  have same: "?org ! d = ?org ! e"
    if d: "d < Suc ?n" "a \<in> refs (?st ! d)" and e: "e < Suc ?n" "a \<in> refs (?st ! e)" for a d e
  proof -
    obtain c where c: "c < ?n" "a \<in> refs (cy_states S ! c)" "?org ! d = cy_origin S ! c" using old [OF d] by blast
    obtain c' where c': "c' < ?n" "a \<in> refs (cy_states S ! c')" "?org ! e = cy_origin S ! c'" using old [OF e] by blast
    show ?thesis using cycles_invD(2) [OF assms(1) c(1,2) c'(1,2)] c(3) c'(3) by (simp only:)
  qed
  let ?S = "S\<lparr>cy_states := ?st, cy_origin := ?org\<rparr>"
  have eqs: "cy_states ?S = ?st" "cy_objs ?S = cy_objs S" "cy_origin ?S = ?org" by simp_all
  show ?thesis
    by (rule cycles_invI; unfold eqs length_append_singleton len; blast intro: valid same)
qed

lemma other_plugin_local:
  "r \<in> {None, Some NilRef, Some (OtherRef v)} \<Longrightarrow> local_change objs st objs (st(k := r))"
  using refs_update [of st k r] by (auto simp: local_change_def)

text \<open>Every step of an existing cycle is such a change, adds a state, or changes the world only.\<close>

lemma cycle_step_kinds:
  assumes "cycle_step out tk other c S S'"
  obtains (Change) objs' st' w' where "c < length (cy_states S)" "S' = put_heap S c (objs', st', w')"
      "local_change (cy_objs S) (cy_states S ! c) objs' st'"
  | (Append) st org where "S' = S\<lparr>cy_states := cy_states S @ [st], cy_origin := cy_origin S @ [org]\<rparr>"
      "refs st = {} \<or> (\<exists>c < length (cy_states S). refs st = refs (cy_states S ! c) \<and> org = cy_origin S ! c)"
  | (World) w where "S' = S\<lparr>cy_world := w\<rparr>"
  using assms
proof (cases rule: cycle_step.cases)
  case new_cycle
  then show ?thesis by (intro Append) auto
next
  case clone
  then show ?thesis by (intro Append) auto
next
  case (pre_score draws pod nodes status hp)
  then show ?thesis by (cases hp) (auto simp: cycle_heap_of_def intro!: Change dest: heap_PreScore_local)
next
  case (reserve pod nodeName status hp)
  then show ?thesis by (cases hp) (auto simp: cycle_heap_of_def intro!: Change dest: heap_Reserve_local)
next
  case (unreserve pod nodeName)
  obtain objs' st' w' where "heap_Unreserve out pod nodeName (cycle_heap_of S c) = (objs', st', w')"
    by (metis prod_cases3)
  with unreserve show ?thesis by (intro Change) (auto simp: cycle_heap_of_def dest: heap_Unreserve_local)
next
  case (other_plugin r v k)
  then show ?thesis
    by (intro Change [of "cy_objs S" "(cy_states S ! c)(k := r)" "cy_world S"]) (auto simp: put_heap_def intro!: other_plugin_local)
qed (rule World)

lemma cycle_step_inv: "cycle_step out tk other c S S' \<Longrightarrow> cycles_inv S \<Longrightarrow> cycles_inv S'"
  by (erule cycle_step_kinds) (auto simp: put_heap_local append_state_inv, simp add: cycles_inv_def)

interpretation cycle_system: invariant_system start_cycles "\<lambda>S S'. \<exists>c. cycle_step out tk other c S S'" cycles_inv
  for out :: "'w outside" and tk other
proof
  show "start_cycles S \<Longrightarrow> cycles_inv S" for S :: "'w cycles"
    by (simp add: start_cycles_def cycles_inv_def)
qed (auto dest: cycle_step_inv)

section \<open>The cycles do not disturb each other\<close>

lemma view_cong:
  assumes "\<And>a. a \<in> refs st \<Longrightarrow> objs' ! a = objs ! a"
  shows "view objs' st = view objs st"
proof
  fix k
  show "view objs' st k = view objs st k"
    using assms refsI [of st k] by (cases "st k") (auto simp: view_def deref_def split: state_ref.split)
qed

lemma local_change_view:
  assumes "cycles_inv S" "c < length (cy_states S)" "local_change (cy_objs S) (cy_states S ! c) objs' st'"
    and "d < length (cy_states S)" "cy_origin S ! d \<noteq> cy_origin S ! c"
  shows "cycle_view (put_heap S c (objs', st', w')) d = cycle_view S d"
proof -
  have "a \<notin> refs (cy_states S ! c)" "a < length (cy_objs S)" if "a \<in> refs (cy_states S ! d)" for a
    using cycles_invD [OF assms(1,4) that] assms(2,5) by auto
  then have "view objs' (cy_states S ! d) = view (cy_objs S) (cy_states S ! d)"
    using assms(3) by (intro view_cong) (auto simp: local_change_def)
  then show ?thesis using assms(5) by (cases "d = c") (simp_all add: cycle_view_def put_heap_def)
qed

text \<open>
  C22: scheduling cycles do not disturb each other. Whatever the framework, the plugin and other
  plugins do in one cycle, in any reachable state of interleaved cycles, every cycle that does not
  descend from the same cycle by cloning keeps the node it was given: its state reads as before.
\<close>

theorem cycles_do_not_interfere:
  assumes "reachable start_cycles (\<lambda>S S'. \<exists>c. cycle_step out tk other c S S') S"
    and "cycle_step out tk other c S S'" and "d < length (cy_states S)" "cy_origin S ! d \<noteq> cy_origin S ! c"
  shows "cycle_view S' d = cycle_view S d"
proof -
  have inv: "cycles_inv S" by (rule cycle_system.reachable_inv [OF assms(1)])
  from assms(2) show ?thesis
  proof (cases rule: cycle_step_kinds)
    case Change
    then show ?thesis using local_change_view [OF inv _ _ assms(3,4)] by simp
  qed (use assms(3) in \<open>simp_all add: cycle_view_def nth_append\<close>)
qed

text \<open>Two cycles with their pods: what happens in the second does not change the node of the first.\<close>

definition ex_two_cycles :: "'w \<Rightarrow> 'w cycles" where
  "ex_two_cycles w = \<lparr>cy_objs = [], cy_states = [Map.empty, Map.empty], cy_origin = [0, 1], cy_world = w\<rparr>"

lemma ex_two_cycles_reachable:
  "reachable start_cycles (\<lambda>S S'. \<exists>c. cycle_step out tk other c S S') (ex_two_cycles w)"
proof -
  let ?start = "\<lparr>cy_objs = [], cy_states = [], cy_origin = [], cy_world = w\<rparr>"
  let ?one = "?start\<lparr>cy_states := [Map.empty], cy_origin := [0]\<rparr>"
  have "reachable start_cycles (\<lambda>S S'. \<exists>c. cycle_step out tk other c S S') ?start"
    by (rule reachable_start) (simp add: start_cycles_def)
  then have "reachable start_cycles (\<lambda>S S'. \<exists>c. cycle_step out tk other c S S') ?one"
    by (rule reachable_step) (use new_cycle [of 0 ?start out tk other] in auto)
  then show ?thesis
    unfolding ex_two_cycles_def by (rule reachable_step) (use new_cycle [of 1 ?one out tk other] in auto)
qed

theorem cycles_do_not_interfere_witness:
  "cycle_view ((ex_two_cycles ())\<lparr>cy_states := [Map.empty, [''k'' \<mapsto> OtherRef ''v'']]\<rparr>) 0 = Map.empty"
proof -
  have "cycle_step out tk id 1 (ex_two_cycles ()) ((ex_two_cycles ())\<lparr>cy_states := [Map.empty, [''k'' \<mapsto> OtherRef ''v'']]\<rparr>)"
    for out :: "unit outside" and tk
    using other_plugin [of 1 "ex_two_cycles ()" "Some (OtherRef ''v'')" "''v''" out tk id "''k''"]
    by (simp add: ex_two_cycles_def)
  from cycles_do_not_interfere [OF ex_two_cycles_reachable this, of 0] show ?thesis
    by (simp add: ex_two_cycles_def cycle_view_def view_def fun_eq_iff)
qed

section \<open>The extension points refine those by value\<close>

lemma getAssignmentState_view:
  "getAssignmentState (view objs st) = map_sum id ((!) objs) (ref_getAssignmentState st)"
  by (simp add: getAssignmentState_def ref_getAssignmentState_def view_def deref_def split: option.split state_ref.split)

lemma view_upd: "view objs (st(k := r)) = (view objs st)(k := map_option (deref objs) r)"
  by (simp add: view_def fun_eq_iff)

lemma heap_PreScore_view:
  assumes "\<And>a. a \<in> refs st \<Longrightarrow> a < length objs"
  shows "PreScore out tk draws pod nodes (view objs st, w) =
    (case heap_PreScore out tk draws pod nodes (objs, st, w) of (status, objs', st', w') \<Rightarrow> (status, view objs' st', w'))"
proof -
  have "view (objs @ [node]) st = view objs st" for node
    by (rule view_cong) (simp add: assms nth_append)
  then show ?thesis
    by (auto simp: PreScore_def heap_PreScore_def view_upd deref_def split: prod.split option.split)
qed

lemma heap_Reserve_view:
  assumes "\<And>k a. st k = Some (AssignmentRef a) \<Longrightarrow> a < length objs"
    and "\<And>k a. st k = Some (AssignmentRef a) \<Longrightarrow> st plannerAssignmentStateKey = Some (AssignmentRef a) \<Longrightarrow> k = plannerAssignmentStateKey"
  shows "Reserve out pod nodeName (view objs st, w) =
    (case heap_Reserve out pod nodeName (objs, st, w) of (status, objs', st', w') \<Rightarrow> (status, view objs' st', w'))"
proof (cases "ref_getAssignmentState st")
  case (Inr a)
  then have a: "st plannerAssignmentStateKey = Some (AssignmentRef a)" by (simp add: ref_getAssignmentState_Inr)
  have "view (objs[a := nodeName]) st k = ((view objs st)(plannerAssignmentStateKey \<mapsto> AssignmentData nodeName)) k" for k
    using assms(1) [OF a] assms(2) [of k a] a
    by (cases "st k"; cases "the (st k)") (auto simp: view_def deref_def nth_list_update)
  then have "view (objs[a := nodeName]) st = (view objs st)(plannerAssignmentStateKey \<mapsto> AssignmentData nodeName)" by blast
  moreover have "st(plannerAssignmentStateKey \<mapsto> AssignmentRef a) = st" using a by auto
  ultimately show ?thesis
    using Inr by (simp add: Reserve_def heap_Reserve_def getAssignmentState_view Let_def split: prod.split option.split)
qed (simp add: Reserve_def heap_Reserve_def getAssignmentState_view)

lemma heap_Unreserve_view:
  "Unreserve out pod nodeName (view objs st, w) =
    (case heap_Unreserve out pod nodeName (objs, st, w) of (objs', st', w') \<Rightarrow> (view objs' st', w'))"
  by (auto simp: Unreserve_def heap_Unreserve_def getAssignmentState_view Let_def view_upd split: sum.split prod.split option.split)

text \<open>A pointer to an assignment state is only ever stored under the plugin's key.\<close>

definition own_key :: "ref_state \<Rightarrow> bool" where
  "own_key st \<longleftrightarrow> (\<forall>k a. st k = Some (AssignmentRef a) \<longrightarrow> k = plannerAssignmentStateKey)"

definition own_keys :: "'w cycles \<Rightarrow> bool" where
  "own_keys S \<longleftrightarrow> (\<forall>st \<in> set (cy_states S). own_key st)"

lemma own_key_update: "own_key st \<Longrightarrow> k = plannerAssignmentStateKey \<or> \<not> (\<exists>a. r = Some (AssignmentRef a)) \<Longrightarrow> own_key (st(k := r))"
  by (auto simp: own_key_def)

lemma own_key_Clone: "own_key st \<Longrightarrow> own_key (CycleState_Clone other st)"
  by (simp add: own_key_def CycleState_Clone_ref)

lemma own_key_ops:
  assumes "own_key st"
  shows "heap_PreScore out tk draws pod nodes (objs, st, w) = (status, objs', st', w') \<Longrightarrow> own_key st'"
    and "heap_Reserve out pod nodeName (objs, st, w) = (status, objs', st', w') \<Longrightarrow> own_key st'"
    and "heap_Unreserve out pod nodeName (objs, st, w) = (objs', st', w') \<Longrightarrow> own_key st'"
  using assms own_key_update [OF assms]
  by (auto simp: heap_PreScore_def heap_Reserve_def heap_Unreserve_def Let_def
      split: prod.splits sum.splits if_splits option.splits)

lemma own_keys_change:
  "own_keys S \<Longrightarrow> own_key st \<Longrightarrow> cy_states S' = (cy_states S)[c := st] \<Longrightarrow> own_keys S'"
  using set_update_subset_insert [of "cy_states S" c st] by (auto simp: own_keys_def)

lemma own_keys_put:
  "own_keys S \<Longrightarrow> own_key st \<Longrightarrow> own_keys (put_heap S c (objs', st, w'))"
  by (rule own_keys_change [of S st _ c]) (simp_all add: put_heap_def)

lemma cycle_step_own_keys:
  assumes "cycle_step out tk other c S S'" "own_keys S"
  shows "own_keys S'"
  using assms(1)
proof (cases rule: cycle_step.cases)
  case new_cycle
  then show ?thesis using assms(2) by (simp add: own_keys_def own_key_def)
next
  case clone
  then show ?thesis using assms(2) by (simp add: own_keys_def own_key_Clone)
next
  case (pre_score draws pod nodes status hp)
  then have own: "own_key (cy_states S ! c)" using assms(2) by (simp add: own_keys_def)
  obtain objs' st' w' where hp: "hp = (objs', st', w')" by (rule prod_cases3)
  have "own_key st'" by (rule own_key_ops(1) [OF own pre_score(3) [unfolded cycle_heap_of_def hp]])
  then show ?thesis unfolding pre_score(1) hp by (rule own_keys_put [OF assms(2)])
next
  case (reserve pod nodeName status hp)
  then have own: "own_key (cy_states S ! c)" using assms(2) by (simp add: own_keys_def)
  obtain objs' st' w' where hp: "hp = (objs', st', w')" by (rule prod_cases3)
  have "own_key st'" by (rule own_key_ops(2) [OF own reserve(3) [unfolded cycle_heap_of_def hp]])
  then show ?thesis unfolding reserve(1) hp by (rule own_keys_put [OF assms(2)])
next
  case (unreserve pod nodeName)
  obtain objs' st' w' where un: "heap_Unreserve out pod nodeName (cycle_heap_of S c) = (objs', st', w')"
    by (metis prod_cases3)
  have "own_key (cy_states S ! c)" using assms(2) unreserve(2) by (simp add: own_keys_def)
  then have "own_key st'" by (rule own_key_ops(3) [OF _ un [unfolded cycle_heap_of_def]])
  then show ?thesis unfolding unreserve(1) un by (rule own_keys_put [OF assms(2)])
next
  case (other_plugin r v k)
  then have "own_key ((cy_states S ! c)(k := r))" using assms(2) by (intro own_key_update) (auto simp: own_keys_def)
  with other_plugin(1) show ?thesis by (intro own_keys_change [OF assms(2), of _ S' c]) simp_all
next
  case (world w)
  then show ?thesis using assms(2) by (simp add: own_keys_def)
qed

interpretation cycle_keys: invariant_system start_cycles "\<lambda>S S'. \<exists>c. cycle_step out tk other c S S'" own_keys
  for out :: "'w outside" and tk other
proof
  show "start_cycles S \<Longrightarrow> own_keys S" for S :: "'w cycles" by (simp add: start_cycles_def own_keys_def)
qed (auto dest: cycle_step_own_keys)

text \<open>How a cycle of the store reads after an operation: its state and the world.\<close>

definition cycle_after :: "'w cycles \<Rightarrow> nat \<Rightarrow> 'w cycle_heap \<Rightarrow> CycleState \<times> 'w" where
  "cycle_after S c hp = (cycle_view (put_heap S c hp) c, cy_world (put_heap S c hp))"

lemma cycle_after_eq:
  "c < length (cy_states S) \<Longrightarrow> cycle_after S c (objs', st', w') = (view objs' st', w')"
  by (simp add: cycle_after_def cycle_view_def put_heap_def)

text \<open>
  C16: with pointers, sharing and interleaved cycles, the extension points act on the state of their
  cycle exactly as the extension points that keep the node by value: the same status, the same
  scores and nomination, the same cycle state and the same changes of the world, in every
  reachable state. So what is shown of those holds of the plugin as it runs.
\<close>

theorem cycle_states_refine:
  assumes "reachable start_cycles (\<lambda>S S'. \<exists>c. cycle_step out tk other c S S') S" "c < length (cy_states S)"
  shows "PreScore out tk draws pod nodes (cycle_view S c, cy_world S) =
      map_prod id (cycle_after S c) (heap_PreScore out tk draws pod nodes (cycle_heap_of S c)) \<and>
    Score (cycle_view S c) pod nodeName = heap_Score (cy_objs S) (cy_states S ! c) pod nodeName \<and>
    PostFilter (cycle_view S c) pod = heap_PostFilter (cy_objs S) (cy_states S ! c) pod \<and>
    Reserve out pod nodeName (cycle_view S c, cy_world S) =
      map_prod id (cycle_after S c) (heap_Reserve out pod nodeName (cycle_heap_of S c)) \<and>
    Unreserve out pod nodeName (cycle_view S c, cy_world S) =
      cycle_after S c (heap_Unreserve out pod nodeName (cycle_heap_of S c))"
proof (intro conjI)
  let ?objs = "cy_objs S" and ?st = "cy_states S ! c"
  have inv: "cycles_inv S" by (rule cycle_system.reachable_inv [OF assms(1)])
  have "own_keys S" by (rule cycle_keys.reachable_inv [OF assms(1)])
  then have "own_key ?st" using assms(2) by (simp add: own_keys_def)
  then have key: "k = plannerAssignmentStateKey" if "?st k = Some (AssignmentRef a)" for k a
    using that unfolding own_key_def by blast
  have valid: "a < length ?objs" if "a \<in> refs ?st" for a
    using cycles_invD(1) [OF inv assms(2) that] .
  have valid_at: "a < length ?objs" if "?st k = Some (AssignmentRef a)" for k a
    by (rule valid) (rule refsI [of ?st k a, OF that])
  show "PreScore out tk draws pod nodes (cycle_view S c, cy_world S) =
      map_prod id (cycle_after S c) (heap_PreScore out tk draws pod nodes (cycle_heap_of S c))"
    using heap_PreScore_view [of ?st ?objs out tk draws pod nodes "cy_world S"] valid
    by (simp add: cycle_view_def cycle_heap_of_def cycle_after_eq [OF assms(2)] split: prod.split)
  show "Reserve out pod nodeName (cycle_view S c, cy_world S) =
      map_prod id (cycle_after S c) (heap_Reserve out pod nodeName (cycle_heap_of S c))"
    using heap_Reserve_view [of ?st ?objs out pod nodeName "cy_world S"] valid_at key
    by (simp add: cycle_view_def cycle_heap_of_def cycle_after_eq [OF assms(2)] split: prod.split)
  show "Unreserve out pod nodeName (cycle_view S c, cy_world S) =
      cycle_after S c (heap_Unreserve out pod nodeName (cycle_heap_of S c))"
    unfolding cycle_view_def cycle_heap_of_def heap_Unreserve_view
    by (simp add: cycle_after_eq [OF assms(2)] split: prod.split)
qed (simp_all add: cycle_view_def Score_def heap_Score_def PostFilter_def heap_PostFilter_def getAssignmentState_view
    split: sum.split)

text \<open>The plugin chooses a node in the second of two cycles.\<close>

theorem cycle_states_refine_witness:
  "\<exists>w'. map_prod id (cycle_after (ex_two_cycles (ex_w ''Schedule'')) 1)
      (heap_PreScore ex_out ex_triggers [] ex_member [ex_node ''n7''] (cycle_heap_of (ex_two_cycles (ex_w ''Schedule'')) 1)) =
    (NewStatus Success [], [plannerAssignmentStateKey \<mapsto> AssignmentData ''n7''], w')"
proof -
  let ?S = "ex_two_cycles (ex_w ''Schedule'')"
  have "1 < length (cy_states ?S)" "cycle_view ?S 1 = Map.empty" "cy_world ?S = ex_w ''Schedule''"
    by (simp_all add: ex_two_cycles_def cycle_view_def view_def fun_eq_iff)
  with cycle_states_refine [OF ex_two_cycles_reachable, of 1 "ex_w ''Schedule''" ex_out ex_triggers "[]" ex_member "[ex_node ''n7'']"]
    ex_PreScore show ?thesis by metis
qed

section \<open>Clones share\<close>

text \<open>
  A clone is not a copy: as long as neither the cycle nor its clone has been given a new assignment
  state, a node that is reserved in the cycle is the node that the clone reads.
\<close>

theorem clone_reads_reserved_node:
  assumes "reachable start_cycles (\<lambda>S S'. \<exists>c. cycle_step out tk other c S S') S"
    and "c < length (cy_states S)" "d < length (cy_states S)" "cy_states S ! d = CycleState_Clone copy (cy_states S ! c)"
    and "getAssignmentState (cycle_view S c) = Inr node" "getPodSet pod \<noteq> ''''"
    and "heap_Reserve out pod nodeName (cycle_heap_of S c) = (status, hp)" "IsSuccess status"
  shows "getAssignmentState (cycle_view (put_heap S c hp) d) = Inr nodeName"
proof -
  let ?st = "cy_states S ! c" and ?objs = "cy_objs S"
  obtain a where a: "ref_getAssignmentState ?st = Inr a"
    using assms(5) by (cases "ref_getAssignmentState ?st") (simp_all add: cycle_view_def getAssignmentState_view)
  then have at: "?st plannerAssignmentStateKey = Some (AssignmentRef a)" by (simp add: ref_getAssignmentState_Inr)
  have valid: "a < length ?objs"
    by (rule cycles_invD(1) [OF cycle_system.reachable_inv [OF assms(1)] assms(2) refsI [of _ plannerAssignmentStateKey]]) (rule at)
  obtain objs' st' w' where hp: "hp = (objs', st', w')" by (rule prod_cases3)
  have same: "?st(plannerAssignmentStateKey \<mapsto> AssignmentRef a) = ?st" using at by auto
  have "objs' ! a = nodeName \<and> st' = ?st"
    using assms(6,7,8) valid a
    by (auto simp: hp heap_Reserve_def cycle_heap_of_def Let_def same IsSuccess_def AsStatus_def
        split: prod.splits option.splits if_splits)
  moreover have "ref_getAssignmentState (cy_states S ! d) = Inr a"
    unfolding assms(4) ref_getAssignmentState_Inr CycleState_Clone_ref by (rule at)
  ultimately show ?thesis
    using a assms(3) by (cases "d = c") (simp_all add: hp put_heap_def cycle_view_def getAssignmentState_view)
qed

end
