(* ===== verification/PlanRaces.thy ===== *)
theory PlanRaces
  imports PlanClient
begin

text \<open>
  Several clients of the same plan objects at once. The scheduler plugin and the planner are two
  processes that change the plan of a pod set, each by a read and a later write, and between
  the two the other one may write. The operations of theory PlanClient are split at the point between
  read and write, and run interleaved.

  The API server is a parameter again, now with the field \<^verbatim>\<open>ResourceVersion\<close> of the objects' metadata:
  \<open>versioned_ok\<close> states what its documentation promises of it. Every write gives an object a
  version that it has not had before, and an update that carries a version is rejected when the stored
  object has another one. An update that carries none is accepted, and a deletion that names only an object is
  carried out whatever its version is; so it is up to the client to send the version it has read.
\<close>

section \<open>The two halves of an operation\<close>

text \<open>
  A plan with the version in its metadata. A new object is made without one; an object that
  was read and is sent back with another plan carries the version it was read with.
\<close>

record versioned_plan = SchedulePlan +
  plan_ResourceVersion :: string

definition contents :: "versioned_plan \<Rightarrow> SchedulePlan" where
  "contents p =
     \<lparr>plan_Namespace = plan_Namespace p, plan_Name = plan_Name p, plan_Labels = plan_Labels p, plan_Plan = plan_Plan p\<rparr>"

abbreviation object_key :: "versioned_plan \<Rightarrow> NamespacedName" where
  "object_key p \<equiv> plan_key (contents p)"

definition new_object :: "string \<Rightarrow> string \<Rightarrow> PlanSpec list \<Rightarrow> versioned_plan" where
  "new_object namespace podset newPlan =
     \<lparr>plan_Namespace = namespace, plan_Name = getName namespace podset,
      plan_Labels = [(podset_label, podset)], plan_Plan = newPlan, plan_ResourceVersion = ''''\<rparr>"

text \<open>The plan an operation is about, and the write that follows the read.\<close>

fun op_key :: "client_op \<Rightarrow> NamespacedName" where
  "op_key (OpUpdate ns podset as) = podset_key ns podset"
| "op_key (OpUpdateAssignment ns podset pod node) = podset_key ns podset"
| "op_key (OpDelete pod ns podset) = podset_key ns podset"

datatype plan_write =
    GiveUp
  | NoWrite
  | CreatePlan versioned_plan
  | UpdatePlan versioned_plan
  | DeletePlan NamespacedName

fun Update_write :: "string \<Rightarrow> string \<Rightarrow> (string, string) gomap \<Rightarrow> versioned_plan option \<Rightarrow> plan_write" where
  "Update_write namespace podset as None = CreatePlan (new_object namespace podset (plan_specs as))"
| "Update_write namespace podset as (Some planRef) =
     (case split_assignments (plan_Plan planRef) as [] [] of
        (newPlan, currentPlan) \<Rightarrow>
          if length newPlan = 0 then NoWrite else UpdatePlan (planRef\<lparr>plan_Plan := currentPlan @ newPlan\<rparr>))"

fun UpdateAssignment_write :: "string \<Rightarrow> string \<Rightarrow> string \<Rightarrow> string \<Rightarrow> versioned_plan option \<Rightarrow> plan_write" where
  "UpdateAssignment_write namespace podset podName nodeName None =
     CreatePlan (new_object namespace podset [\<lparr>ps_Pod = podName, ps_Node = nodeName\<rparr>])"
| "UpdateAssignment_write namespace podset podName nodeName (Some planRef) =
     (case split_plan podName nodeName (plan_Plan planRef) [] [] of
        (newPlan, currentPlan) \<Rightarrow>
          if length newPlan = 0 then NoWrite else UpdatePlan (planRef\<lparr>plan_Plan := currentPlan @ newPlan\<rparr>))"

fun Delete_write :: "string \<Rightarrow> versioned_plan option \<Rightarrow> plan_write" where
  "Delete_write podName None = GiveUp"
| "Delete_write podName (Some planRef) =
     (case remove_pod podName (plan_Plan planRef) False [] of
        (found, newPlan) \<Rightarrow>
          if \<not> found then NoWrite
          else if length newPlan = 0 then DeletePlan \<lparr>nn_Namespace = plan_Namespace planRef, nn_Name = plan_Name planRef\<rparr>
          else UpdatePlan (planRef\<lparr>plan_Plan := newPlan\<rparr>))"

fun second_half :: "client_op \<Rightarrow> versioned_plan option \<Rightarrow> plan_write" where
  "second_half (OpUpdate ns podset as) r = Update_write ns podset as r"
| "second_half (OpUpdateAssignment ns podset pod node) r = UpdateAssignment_write ns podset pod node r"
| "second_half (OpDelete pod ns podset) r = Delete_write pod r"

lemma contents_simps [simp]:
  "contents (p\<lparr>plan_Plan := es\<rparr>) = (contents p)\<lparr>plan_Plan := es\<rparr>"
  "contents (p\<lparr>plan_ResourceVersion := v\<rparr>) = contents p"
  "contents (new_object ns podset es) = new_SchedulePlan ns podset es"
  "plan_Plan (contents p) = plan_Plan p"
  "plan_ResourceVersion (p\<lparr>plan_Plan := es\<rparr>) = plan_ResourceVersion p"
  by (simp_all add: contents_def new_object_def new_SchedulePlan_def)

lemma object_key_fields: "\<lparr>nn_Namespace = plan_Namespace p, nn_Name = plan_Name p\<rparr> = object_key p"
  by (simp add: plan_key_def contents_def)

text \<open>
  The split is right: on every server of theory PlanClient, the two halves without anything in between
  are the operation.
\<close>

fun apply_write :: "'s kube \<Rightarrow> plan_write \<Rightarrow> 's \<Rightarrow> 's" where
  "apply_write kc GiveUp s = s"
| "apply_write kc NoWrite s = s"
| "apply_write kc (CreatePlan p) s = snd (kc_Create kc (contents p) s)"
| "apply_write kc (UpdatePlan p) s = snd (kc_Update kc (contents p) s)"
| "apply_write kc (DeletePlan k) s = snd (kc_Delete kc k s)"

definition read_plan :: "'s kube \<Rightarrow> client_op \<Rightarrow> 's \<Rightarrow> SchedulePlan option" where
  "read_plan kc op s = (case kc_Get kc (op_key op) s of Inl _ \<Rightarrow> None | Inr p \<Rightarrow> Some p)"

lemma run_client_op_split:
  assumes "read_plan kc op s = map_option contents r"
  shows "run_client_op kc op s = apply_write kc (second_half op r) s"
proof (cases r)
  case None
  with assms obtain e where "kc_Get kc (op_key op) s = Inl e" by (auto simp: read_plan_def split: sum.splits)
  with None show ?thesis
    by (cases op)
      (simp_all add: client_Update_def client_UpdateAssignment_def client_Delete_def client_Get_def
        split: prod.split option.split)
next
  case (Some p)
  with assms have "kc_Get kc (op_key op) s = Inr (contents p)" by (auto simp: read_plan_def split: sum.splits)
  with Some show ?thesis
    by (cases op)
      (simp_all add: client_Update_def client_UpdateAssignment_def client_Delete_def client_Get_def object_key_fields
        split: prod.split option.split)
qed

section \<open>The API server\<close>

record 's versioned_kube =
  vk_Get :: "NamespacedName \<Rightarrow> 's \<Rightarrow> err + versioned_plan"
  vk_Create :: "versioned_plan \<Rightarrow> 's \<Rightarrow> err option \<times> 's"
  vk_Update :: "versioned_plan \<Rightarrow> 's \<Rightarrow> err option \<times> 's"
  vk_Delete :: "NamespacedName \<Rightarrow> 's \<Rightarrow> err option \<times> 's"

type_synonym objects = "NamespacedName \<rightharpoonup> versioned_plan"
type_synonym versions = "NamespacedName \<Rightarrow> string set"

text \<open>
  In a server state, \<open>objs\<close> are the stored objects and \<open>used\<close> the versions that the objects of a name have had.
  A write that fails has its effect or none; an update that changes nothing may leave the version.
\<close>

definition kept :: "('s \<Rightarrow> objects) \<Rightarrow> ('s \<Rightarrow> versions) \<Rightarrow> 's \<Rightarrow> 's \<Rightarrow> bool" where
  "kept objs used s s' \<longleftrightarrow> objs s' = objs s \<and> used s \<le> used s'"

definition stored :: "('s \<Rightarrow> objects) \<Rightarrow> ('s \<Rightarrow> versions) \<Rightarrow> versioned_plan \<Rightarrow> 's \<Rightarrow> 's \<Rightarrow> bool" where
  "stored objs used p s s' \<longleftrightarrow>
     (\<exists>v. v \<noteq> '''' \<and> v \<notin> used s (object_key p) \<and> v \<in> used s' (object_key p) \<and> used s \<le> used s' \<and>
        objs s' = (objs s)(object_key p \<mapsto> p\<lparr>plan_ResourceVersion := v\<rparr>))"

definition versioned_ok :: "'s versioned_kube \<Rightarrow> ('s \<Rightarrow> objects) \<Rightarrow> ('s \<Rightarrow> versions) \<Rightarrow> bool" where
  "versioned_ok vk objs used \<longleftrightarrow>
     (\<forall>k s p. vk_Get vk k s = Inr p \<longrightarrow> objs s k = Some p) \<and>
     (\<forall>p s e s'. vk_Create vk p s = (e, s') \<longrightarrow>
        kept objs used s s' \<and> e \<noteq> None \<or> objs s (object_key p) = None \<and> stored objs used p s s') \<and>
     (\<forall>p s e s'. vk_Update vk p s = (e, s') \<longrightarrow>
        kept objs used s s' \<and> e \<noteq> None \<or>
        (\<exists>q. objs s (object_key p) = Some q \<and> plan_ResourceVersion p \<in> {'''', plan_ResourceVersion q} \<and>
           (stored objs used p s s' \<or> contents p = contents q \<and> kept objs used s s'))) \<and>
     (\<forall>k s e s'. vk_Delete vk k s = (e, s') \<longrightarrow>
        kept objs used s s' \<and> e \<noteq> None \<or> objs s' = (objs s)(k := None) \<and> used s \<le> used s')"

text \<open>The plans in a server state, versions aside.\<close>

definition plans_of :: "('s \<Rightarrow> objects) \<Rightarrow> 's \<Rightarrow> plans" where
  "plans_of objs s = (\<lambda>k. map_option contents (objs s k))"

section \<open>Operations under way\<close>

text \<open>
  An operation that is under way: it and what it has read. A read fails when there is no object, or
  for any other reason. A write goes through or fails, with or without its effect, or the client gives it up
  before it is sent.
\<close>

type_synonym under_way = "client_op \<times> versioned_plan option"

fun send_write :: "'s versioned_kube \<Rightarrow> plan_write \<Rightarrow> 's \<Rightarrow> err option \<times> 's" where
  "send_write vk GiveUp s = (Some (External ''not found''), s)"
| "send_write vk NoWrite s = (None, s)"
| "send_write vk (CreatePlan p) s = vk_Create vk p s"
| "send_write vk (UpdatePlan p) s = vk_Update vk p s"
| "send_write vk (DeletePlan k) s = vk_Delete vk k s"

definition finish_op :: "'s versioned_kube \<Rightarrow> under_way \<Rightarrow> 's \<Rightarrow> err option \<times> 's" where
  "finish_op vk u s = (case u of (op, r) \<Rightarrow> send_write vk (second_half op r) s)"

record 's race =
  rc_server :: 's
  rc_pending :: "nat \<rightharpoonup> under_way"

inductive race_step :: "'s versioned_kube \<Rightarrow> 's race \<Rightarrow> 's race \<Rightarrow> bool" for vk where
  read: "rc_pending S i = None \<Longrightarrow> op_ok op \<Longrightarrow> vk_Get vk (op_key op) (rc_server S) = Inr p \<Longrightarrow>
    race_step vk S (S\<lparr>rc_pending := (rc_pending S)(i \<mapsto> (op, Some p))\<rparr>)"
| read_fails: "rc_pending S i = None \<Longrightarrow> op_ok op \<Longrightarrow>
    race_step vk S (S\<lparr>rc_pending := (rc_pending S)(i \<mapsto> (op, None))\<rparr>)"
| finish: "rc_pending S i = Some u \<Longrightarrow> finish_op vk u (rc_server S) = (e, s') \<Longrightarrow>
    race_step vk S (S\<lparr>rc_server := s', rc_pending := (rc_pending S)(i := None)\<rparr>)"
| not_sent: "rc_pending S i = Some u \<Longrightarrow> race_step vk S (S\<lparr>rc_pending := (rc_pending S)(i := None)\<rparr>)"

inductive_cases race_stepE: "race_step vk S S'"

definition versions_known :: "('s \<Rightarrow> objects) \<Rightarrow> ('s \<Rightarrow> versions) \<Rightarrow> 's \<Rightarrow> bool" where
  "versions_known objs used s \<longleftrightarrow>
     (\<forall>k p. objs s k = Some p \<longrightarrow> plan_ResourceVersion p \<in> used s k \<and> plan_ResourceVersion p \<noteq> '''')"

definition race_start :: "('s \<Rightarrow> objects) \<Rightarrow> ('s \<Rightarrow> versions) \<Rightarrow> 's race \<Rightarrow> bool" where
  "race_start objs used S \<longleftrightarrow>
     plans_wf (plans_of objs (rc_server S)) \<and> versions_known objs used (rc_server S) \<and> rc_pending S = Map.empty"

section \<open>The invariant\<close>

text \<open>
  A version names the contents of an object: what an operation has read is still stored if the version is
  still the same.
\<close>

definition current :: "('s \<Rightarrow> objects) \<Rightarrow> ('s \<Rightarrow> versions) \<Rightarrow> 's \<Rightarrow> under_way \<Rightarrow> bool" where
  "current objs used s u \<longleftrightarrow>
     op_ok (fst u) \<and>
     (case snd u of None \<Rightarrow> True
      | Some p \<Rightarrow> object_key p = op_key (fst u) \<and> entries_ok (plan_Plan p) \<and>
          plan_ResourceVersion p \<in> used s (object_key p) \<and> plan_ResourceVersion p \<noteq> '''' \<and>
          (\<forall>q. objs s (object_key p) = Some q \<longrightarrow> plan_ResourceVersion q = plan_ResourceVersion p \<longrightarrow> q = p))"

definition race_inv :: "('s \<Rightarrow> objects) \<Rightarrow> ('s \<Rightarrow> versions) \<Rightarrow> 's race \<Rightarrow> bool" where
  "race_inv objs used S \<longleftrightarrow>
     plans_wf (plans_of objs (rc_server S)) \<and> versions_known objs used (rc_server S) \<and>
     (\<forall>i u. rc_pending S i = Some u \<longrightarrow> current objs used (rc_server S) u)"

text \<open>What an operation writes is a well-formed plan of its pod set, and what it updates has the version it read.\<close>

lemma second_half_creates: "second_half op r = CreatePlan q \<Longrightarrow> r = None"
  by (cases op; cases r) (auto split: prod.splits if_splits)

lemma second_half_updates:
  assumes "second_half op r = UpdatePlan q"
  obtains p es where "r = Some p" "q = p\<lparr>plan_Plan := es\<rparr>"
  using assms by (cases op; cases r) (auto split: prod.splits if_splits)

lemma second_half_writes:
  assumes "op_ok op" "\<And>p. r = Some p \<Longrightarrow> object_key p = op_key op \<and> entries_ok (plan_Plan p)"
    and "second_half op r = CreatePlan q \<or> second_half op r = UpdatePlan q"
  shows "object_key q = op_key op \<and> entries_ok (plan_Plan q)"
proof (cases r)
  case None
  have "entries_ok (plan_Plan (new_object ns podset (plan_specs as)))" if "op = OpUpdate ns podset as" for ns podset as
    using assms(1) that by (simp add: new_object_def entries_ok_specs)
  moreover have "entries_ok (plan_Plan (new_object ns podset [e]))" for ns podset e
    by (simp add: new_object_def entries_ok_def)
  ultimately show ?thesis using assms(3) by (cases op) (auto simp: None)
next
  case (Some p)
  have p: "object_key p = op_key op" "entries_ok (plan_Plan p)" using assms(2) [OF Some] by blast+
  show ?thesis
  proof (cases op)
    case (OpUpdate ns podset as)
    have "entries_ok (entries_replace (plan_Plan p) as)" using assms(1) OpUpdate by (intro entries.ok_replace) simp
    with assms(3) p(1) show ?thesis
      by (auto simp: Some OpUpdate entries_replace_def split: prod.splits if_splits)
  next
    case (OpUpdateAssignment ns podset pod node)
    have "entries_ok (entries_reassign pod node (plan_Plan p))" by (rule entries.ok_reassign [OF p(2)])
    with assms(3) p(1) show ?thesis
      by (auto simp: Some OpUpdateAssignment entries_reassign_def split: prod.splits if_splits)
  next
    case (OpDelete pod ns podset)
    have "entries_ok (entries_drop pod (plan_Plan p))" by (rule entries.ok_drop [OF p(2)])
    with assms(3) p(1) show ?thesis
      by (auto simp: Some OpDelete entries_drop_def split: prod.splits if_splits)
  qed
qed

text \<open>The effect of the second half on a server that keeps its promises.\<close>

lemma finish_op_cases:
  assumes "versioned_ok vk objs used" "finish_op vk (op, r) s = (e, s')"
  obtains (Same) "kept objs used s s'" "e \<noteq> None \<or> second_half op r = NoWrite \<and> s' = s"
  | (Created) p where "second_half op r = CreatePlan p" "objs s (object_key p) = None" "stored objs used p s s'"
  | (Updated) p q where "second_half op r = UpdatePlan p" "objs s (object_key p) = Some q"
      "plan_ResourceVersion p \<in> {'''', plan_ResourceVersion q}"
      "stored objs used p s s' \<or> contents p = contents q \<and> kept objs used s s'"
  | (Removed) k where "second_half op r = DeletePlan k" "objs s' = (objs s)(k := None)" "used s \<le> used s'"
proof (cases "second_half op r")
  case GiveUp
  with assms(2) show thesis by (intro Same) (auto simp: finish_op_def kept_def)
next
  case NoWrite
  with assms(2) show thesis by (intro Same) (auto simp: finish_op_def kept_def)
next
  case (CreatePlan p)
  with assms(2) have "vk_Create vk p s = (e, s')" by (simp add: finish_op_def)
  with assms(1) have "kept objs used s s' \<and> e \<noteq> None \<or> objs s (object_key p) = None \<and> stored objs used p s s'"
    unfolding versioned_ok_def by blast
  then show thesis using Same Created [OF CreatePlan] by (elim disjE conjE) simp_all
next
  case (UpdatePlan p)
  with assms(2) have "vk_Update vk p s = (e, s')" by (simp add: finish_op_def)
  with assms(1) have "kept objs used s s' \<and> e \<noteq> None \<or>
      (\<exists>q. objs s (object_key p) = Some q \<and> plan_ResourceVersion p \<in> {'''', plan_ResourceVersion q} \<and>
         (stored objs used p s s' \<or> contents p = contents q \<and> kept objs used s s'))"
    unfolding versioned_ok_def by blast
  then show thesis using Same Updated [OF UpdatePlan] by (elim disjE conjE exE) simp_all
next
  case (DeletePlan k)
  with assms(2) have "vk_Delete vk k s = (e, s')" by (simp add: finish_op_def)
  with assms(1) have "kept objs used s s' \<and> e \<noteq> None \<or> objs s' = (objs s)(k := None) \<and> used s \<le> used s'"
    unfolding versioned_ok_def by blast
  then show thesis using Same Removed [OF DeletePlan] by (elim disjE conjE) simp_all
qed

text \<open>None of the effects makes an operation that is under way hold an object of its version with other contents.\<close>

lemma current_kept: "current objs used s u \<Longrightarrow> kept objs used s s' \<Longrightarrow> current objs used s' u"
  by (auto simp: current_def kept_def le_fun_def subset_iff split: option.splits)

lemma current_stored:
  assumes "current objs used s u" "stored objs used p s s'"
  shows "current objs used s' u"
proof -
  obtain v where v: "v \<notin> used s (object_key p)" "used s \<le> used s'"
      "objs s' = (objs s)(object_key p \<mapsto> p\<lparr>plan_ResourceVersion := v\<rparr>)"
    using assms(2) by (auto simp: stored_def)
  with assms(1) show ?thesis by (auto simp: current_def le_fun_def subset_iff split: option.splits)
qed

lemma current_removed:
  "current objs used s u \<Longrightarrow> objs s' = (objs s)(k := None) \<Longrightarrow> used s \<le> used s' \<Longrightarrow> current objs used s' u"
  by (auto simp: current_def le_fun_def subset_iff split: option.splits)

lemma versions_kept: "versions_known objs used s \<Longrightarrow> kept objs used s s' \<Longrightarrow> versions_known objs used s'"
  by (auto simp: versions_known_def kept_def le_fun_def subset_iff)

lemma versions_removed:
  "versions_known objs used s \<Longrightarrow> objs s' = (objs s)(k := None) \<Longrightarrow> used s \<le> used s' \<Longrightarrow> versions_known objs used s'"
  by (auto simp: versions_known_def le_fun_def subset_iff split: if_splits)

lemma versions_stored: "versions_known objs used s \<Longrightarrow> stored objs used p s s' \<Longrightarrow> versions_known objs used s'"
  by (auto simp: versions_known_def stored_def le_fun_def subset_iff split: if_splits)

lemma plans_of_stored: "stored objs used p s s' \<Longrightarrow> plans_of objs s' = (plans_of objs s)(object_key p \<mapsto> contents p)"
  by (auto simp: stored_def plans_of_def)

lemma plans_of_removed: "objs s' = (objs s)(k := None) \<Longrightarrow> plans_of objs s' = (plans_of objs s)(k := None)"
  by (auto simp: plans_of_def)

lemma plans_of_kept: "kept objs used s s' \<Longrightarrow> plans_of objs s' = plans_of objs s"
  by (simp add: kept_def plans_of_def)

lemma current_writes:
  assumes "current objs used s (op, r)" "second_half op r = CreatePlan q \<or> second_half op r = UpdatePlan q"
  shows "object_key q = op_key op" "entries_ok (plan_Plan q)"
proof -
  have "op_ok op" "r = Some p \<Longrightarrow> object_key p = op_key op \<and> entries_ok (plan_Plan p)" for p
    using assms(1) by (simp_all add: current_def)
  from second_half_writes [OF this assms(2)] show "object_key q = op_key op" "entries_ok (plan_Plan q)" by blast+
qed

lemma finish_op_inv:
  assumes ok: "versioned_ok vk objs used" and inv: "race_inv objs used S" and "rc_pending S i = Some (op, r)"
    and run: "finish_op vk (op, r) (rc_server S) = (e, s')"
  shows "race_inv objs used (S\<lparr>rc_server := s', rc_pending := (rc_pending S)(i := None)\<rparr>)"
proof -
  let ?s = "rc_server S"
  have cur: "current objs used ?s (op, r)" using inv assms(3) unfolding race_inv_def by blast
  have store: ?thesis if "stored objs used p ?s s'" "second_half op r = CreatePlan p \<or> second_half op r = UpdatePlan p" for p
    using inv that current_writes [OF cur that(2)]
    by (auto simp: race_inv_def plans_of_stored intro!: plans_wf_upd intro: current_stored versions_stored)
  have keep: ?thesis if "kept objs used ?s s'"
    using inv that by (auto simp: race_inv_def plans_of_kept intro: current_kept versions_kept)
  from ok run show ?thesis
  proof (cases rule: finish_op_cases)
    case (Removed k)
    with inv show ?thesis
      by (auto simp: race_inv_def plans_of_removed intro!: plans_wf_del intro: current_removed versions_removed)
  qed (use store keep in blast)+
qed

lemma race_step_inv:
  assumes ok: "versioned_ok vk objs used" and "race_step vk S S'" and inv: "race_inv objs used S"
  shows "race_inv objs used S'"
  using assms(2)
proof cases
  case (read i op p)
  have p: "objs (rc_server S) (op_key op) = Some p" using ok read(4) unfolding versioned_ok_def by blast
  then have "plans_of objs (rc_server S) (op_key op) = Some (contents p)" by (simp add: plans_of_def)
  then have "current objs used (rc_server S) (op, Some p)"
    using plans_wfD [of "plans_of objs (rc_server S)" "op_key op" "contents p"] inv read(3) p
    by (auto simp: current_def race_inv_def versions_known_def)
  with inv show ?thesis by (simp add: race_inv_def read(1))
next
  case (finish i u e s')
  then show ?thesis using finish_op_inv [OF ok inv] by (cases u) simp
qed (use inv in \<open>auto simp: race_inv_def current_def\<close>)

lemma race_reachable_inv:
  assumes "versioned_ok vk objs used" "reachable (race_start objs used) (race_step vk) S"
  shows "race_inv objs used S"
proof -
  have "invariant_system (race_start objs used) (race_step vk) (race_inv objs used)"
    by unfold_locales (simp add: race_start_def race_inv_def, rule race_step_inv [OF assms(1)])
  from invariant_system.reachable_inv [OF this assms(2)] show ?thesis .
qed

section \<open>Concurrent operations\<close>

text \<open>
  Whatever operations run at the same time, and however their reads and writes are
  interleaved, the stored plans stay well-formed: every plan is stored under its own name and plans
  a pod at most once.
\<close>

theorem concurrent_plans_wf:
  assumes "versioned_ok vk objs used" "reachable (race_start objs used) (race_step vk) S"
  shows "plans_wf (plans_of objs (rc_server S))"
  using race_reachable_inv [OF assms] by (simp add: race_inv_def)

text \<open>
  The specification of an operation that is not interrupted: it runs on the plans alone, with nothing
  that fails but a read or an update of a plan that is not there, and the creation of one that is.
\<close>

definition atomic_kube :: "plans kube" where
  "atomic_kube =
     \<lparr>kc_Get = (\<lambda>k m. case m k of None \<Rightarrow> Inl (External ''not found'') | Some p \<Rightarrow> Inr p),
      kc_List = (\<lambda>ns ls m. Inl (External ''not served'')),
      kc_Create = (\<lambda>p m. if m (plan_key p) \<noteq> None then (Some (External ''already exists''), m)
        else (None, m(plan_key p \<mapsto> p))),
      kc_Update = (\<lambda>p m. if m (plan_key p) = None then (Some (External ''not found''), m)
        else (None, m(plan_key p \<mapsto> p))),
      kc_Delete = (\<lambda>k m. if m k = None then (Some (External ''not found''), m) else (None, m(k := None)))\<rparr>"

lemma atomic_kube_ok: "kube_ok atomic_kube id"
  unfolding kube_ok_def atomic_kube_def by (auto simp: written_def split: option.splits)

lemma read_plan_atomic: "read_plan atomic_kube op m = m (op_key op)"
  by (simp add: read_plan_def atomic_kube_def split: option.split)

text \<open>A write that goes through, and is not a deletion, is based on the plan as it is.\<close>

lemma finish_op_current:
  assumes "current objs used s (op, r)" "second_half op r = UpdatePlan p" "objs s (object_key p) = Some q"
    and "plan_ResourceVersion p \<in> {'''', plan_ResourceVersion q}"
  shows "r = Some q"
proof -
  obtain p' es where p': "r = Some p'" "p = p'\<lparr>plan_Plan := es\<rparr>"
    using second_half_updates [OF assms(2)] .
  with assms(1,3,4) show ?thesis by (auto simp: current_def)
qed

text \<open>
  C12: interleaved operations behave as if they ran one after the other, on every API server that
  keeps the promises about versions. When an operation that is under way finishes, then one of
  three things holds: it has nothing to change in the plan it has read, reports success and leaves the server as it
  is; or it reports an error and the stored objects are as they were; or the stored plans are
  those that running the whole operation at this moment gives. The one exception are operations that delete
  a whole plan. So no assignment written by the other process is overwritten unseen: the
  update sends the version it has read, and from a stale plan it is rejected.
\<close>

theorem concurrent_writes_atomic:
  assumes "versioned_ok vk objs used" "reachable (race_start objs used) (race_step vk) S"
    and "rc_pending S i = Some (op, r)" "finish_op vk (op, r) (rc_server S) = (e, s')"
    and "\<forall>k. second_half op r \<noteq> DeletePlan k"
  shows "second_half op r = NoWrite \<and> e = None \<and> s' = rc_server S \<or>
    e \<noteq> None \<and> objs s' = objs (rc_server S) \<or>
    plans_of objs s' = run_client_op atomic_kube op (plans_of objs (rc_server S))"
proof -
  let ?s = "rc_server S" and ?m = "plans_of objs (rc_server S)"
  have cur: "current objs used ?s (op, r)"
    using race_reachable_inv [OF assms(1,2)] assms(3) unfolding race_inv_def by blast
  have split: "run_client_op atomic_kube op ?m = apply_write atomic_kube (second_half op r) ?m"
    if "map_option contents r = ?m (op_key op)"
    using that by (intro run_client_op_split) (simp add: read_plan_atomic)
  from assms(1,4) show ?thesis
  proof (cases rule: finish_op_cases)
    case Same
    with assms(4) show ?thesis by (auto simp: kept_def finish_op_def)
  next
    case (Created p)
    have "object_key p = op_key op" "r = None"
      using current_writes [OF cur] second_half_creates Created(1) by blast+
    with Created split show ?thesis by (simp add: plans_of_stored atomic_kube_def) (simp add: plans_of_def)
  next
    case (Updated p q)
    have "object_key p = op_key op" using current_writes [OF cur] Updated(1) by blast
    moreover have "r = Some q" using finish_op_current [OF cur Updated(1,2,3)] .
    ultimately have "run_client_op atomic_kube op ?m = ?m(op_key op \<mapsto> contents p)" "?m (op_key op) = Some (contents q)"
      using split Updated(1,2) by (simp_all add: plans_of_def atomic_kube_def)
    with Updated(4) \<open>object_key p = op_key op\<close> show ?thesis
      by (auto simp: plans_of_stored plans_of_kept fun_upd_idem)
  qed (use assms(5) in blast)
qed

text \<open>
  C37: the exception. When an operation has read a plan whose only pod it removes, it deletes the whole
  plan, whatever has been written to it since: on every API server that carries out the deletion,
  assignments of other pods that were added in between are lost, while the operation run at this moment would
  have kept them.
\<close>

theorem stale_delete_loses_assignments:
  assumes "versioned_ok vk objs used" "reachable (race_start objs used) (race_step vk) S"
    and "rc_pending S i = Some (OpDelete pod ns podset, Some p)"
    and "ps_Pod ` set (plan_Plan p) = {pod}" "objs (rc_server S) (podset_key ns podset) \<noteq> None"
    and "fst (vk_Delete vk (podset_key ns podset) (rc_server S)) = None"
  shows "\<exists>s'. finish_op vk (OpDelete pod ns podset, Some p) (rc_server S) = (None, s') \<and>
    planned (plans_of objs s') ns podset = (\<lambda>_. None) \<and>
    planned (run_client_op atomic_kube (OpDelete pod ns podset) (plans_of objs (rc_server S))) ns podset =
      (planned (plans_of objs (rc_server S)) ns podset)(pod := None)"
proof -
  let ?s = "rc_server S" and ?op = "OpDelete pod ns podset" and ?m = "plans_of objs (rc_server S)"
  have inv: "race_inv objs used S" by (rule race_reachable_inv [OF assms(1,2)])
  then have "current objs used ?s (?op, Some p)" using assms(3) unfolding race_inv_def by blast
  then have "object_key p = podset_key ns podset" by (simp add: current_def)
  moreover have "filter (\<lambda>e. ps_Pod e \<noteq> pod) (plan_Plan p) = []" "pod \<in> ps_Pod ` set (plan_Plan p)"
    using assms(4) by (auto simp: filter_empty_conv)
  ultimately have half: "second_half ?op (Some p) = DeletePlan (podset_key ns podset)"
    by (simp add: remove_pod_filter object_key_fields)
  then obtain s' where s': "finish_op vk (?op, Some p) ?s = (None, s')"
    using assms(6) by (auto simp: finish_op_def prod_eq_iff)
  from assms(1) s' have "objs s' = (objs ?s)(podset_key ns podset := None)"
    by (cases rule: finish_op_cases) (use half in auto)
  then have "planned (plans_of objs s') ns podset = (\<lambda>_. None)" by (simp add: plans_of_removed)
  moreover have "planned (run_client_op atomic_kube ?op ?m) ns podset = (planned ?m ns podset)(pod := None)"
  proof -
    obtain q where q: "?m (podset_key ns podset) = Some q" using assms(5) by (auto simp: plans_of_def)
    have wf: "plans_wf (id ?m)" using inv by (simp add: race_inv_def)
    have "fst (client_Delete atomic_kube pod ns podset ?m) = (False, None)"
      using q plans_wfD(1) [OF wf] by (simp add: client_Delete_def client_Get_def atomic_kube_def split: prod.split)
    then have "client_Delete atomic_kube pod ns podset ?m = ((False, None), run_client_op atomic_kube ?op ?m)"
      by (simp add: prod_eq_iff)
    from Delete_effect [OF atomic_kube_ok wf this] show ?thesis by simp
  qed
  ultimately show ?thesis using s' by blast
qed

section \<open>A race between the planner and the scheduler\<close>

text \<open>
  A server that keeps the promises: it counts its writes and takes the count for the version. On it, the planner
  removes the deleted pod \<open>a\<close>, the only one of its plan; between its read and its
  deletion the scheduler adds pod \<open>b\<close>.
\<close>

record plan_server =
  srv_objects :: objects
  srv_revision :: nat

definition srv_used :: "plan_server \<Rightarrow> versions" where
  "srv_used s k = {sprint_nat n | n. n \<le> srv_revision s}"

definition store_object :: "versioned_plan \<Rightarrow> plan_server \<Rightarrow> plan_server" where
  "store_object p s =
     s\<lparr>srv_objects := (srv_objects s)(object_key p \<mapsto> p\<lparr>plan_ResourceVersion := sprint_nat (Suc (srv_revision s))\<rparr>),
       srv_revision := Suc (srv_revision s)\<rparr>"

definition counting_kube :: "plan_server versioned_kube" where
  "counting_kube =
     \<lparr>vk_Get = (\<lambda>k s. case srv_objects s k of None \<Rightarrow> Inl (External ''not found'') | Some p \<Rightarrow> Inr p),
      vk_Create = (\<lambda>p s. if srv_objects s (object_key p) \<noteq> None then (Some (External ''already exists''), s)
        else (None, store_object p s)),
      vk_Update = (\<lambda>p s. case srv_objects s (object_key p) of
          None \<Rightarrow> (Some (External ''not found''), s)
        | Some q \<Rightarrow>
            if plan_ResourceVersion p \<noteq> plan_ResourceVersion q
            then (Some (External ''the object has been modified''), s) else (None, store_object p s)),
      vk_Delete = (\<lambda>k s. if srv_objects s k = None then (Some (External ''not found''), s)
        else (None, s\<lparr>srv_objects := (srv_objects s)(k := None), srv_revision := Suc (srv_revision s)\<rparr>))\<rparr>"

lemma store_object_stored: "stored srv_objects srv_used p s (store_object p s)"
  unfolding stored_def
  by (intro exI [of _ "sprint_nat (Suc (srv_revision s))"])
    (auto simp: store_object_def srv_used_def sprint_inject le_fun_def subset_iff)

lemma counting_kube_ok: "versioned_ok counting_kube srv_objects srv_used"
  unfolding versioned_ok_def counting_kube_def
  by (auto simp: store_object_stored kept_def srv_used_def le_fun_def subset_iff split: option.splits if_splits)

abbreviation counting_race :: "plan_server race \<Rightarrow> bool" where
  "counting_race \<equiv> reachable (race_start srv_objects srv_used) (race_step counting_kube)"

definition ex_plan :: "(string, string) gomap \<Rightarrow> nat \<Rightarrow> versioned_plan" where
  "ex_plan as n = (new_object ''ns'' ''web'' (plan_specs as))\<lparr>plan_ResourceVersion := sprint_nat n\<rparr>"

definition ex_race :: "plan_server race" where
  "ex_race = \<lparr>rc_server = \<lparr>srv_objects = [podset_key ''ns'' ''web'' \<mapsto> ex_plan [(''a'', ''n1'')] 7], srv_revision = 7\<rparr>,
     rc_pending = Map.empty\<rparr>"

definition ex_delete :: client_op where
  "ex_delete = OpDelete ''a'' ''ns'' ''web''"

definition ex_assign :: client_op where
  "ex_assign = OpUpdate ''ns'' ''web'' [(''a'', ''n1''), (''b'', ''n2'')]"

definition ex_one_read :: "plan_server race" where
  "ex_one_read = ex_race\<lparr>rc_pending := [0 \<mapsto> (ex_delete, Some (ex_plan [(''a'', ''n1'')] 7))]\<rparr>"

definition ex_both_read :: "plan_server race" where
  "ex_both_read = ex_race\<lparr>rc_pending := [0 \<mapsto> (ex_delete, Some (ex_plan [(''a'', ''n1'')] 7)),
     1 \<mapsto> (ex_assign, Some (ex_plan [(''a'', ''n1'')] 7))]\<rparr>"

definition ex_assigned :: "plan_server race" where
  "ex_assigned =
     \<lparr>rc_server = \<lparr>srv_objects = [podset_key ''ns'' ''web'' \<mapsto> ex_plan [(''a'', ''n1''), (''b'', ''n2'')] 8], srv_revision = 8\<rparr>,
      rc_pending = [0 \<mapsto> (ex_delete, Some (ex_plan [(''a'', ''n1'')] 7))]\<rparr>"

lemma contents_ex_plan [simp]: "contents (ex_plan as n) = new_SchedulePlan ''ns'' ''web'' (plan_specs as)"
  by (simp add: ex_plan_def)

lemma plan_Plan_ex_plan [simp]: "plan_Plan (ex_plan as n) = plan_specs as"
  by (simp add: ex_plan_def new_object_def)

lemma plan_ResourceVersion_ex_plan [simp]: "plan_ResourceVersion (ex_plan as n) = sprint_nat n"
  by (simp add: ex_plan_def)

lemma ex_both_read_reachable: "counting_race ex_both_read"
proof -
  have "race_start srv_objects srv_used ex_race"
    by (auto simp: race_start_def ex_race_def plans_wf_def plans_of_def entries_ok_def plan_specs_def versions_known_def
        srv_used_def)
  then have "counting_race ex_race" by (rule reachable_start)
  moreover have "race_step counting_kube ex_race ex_one_read"
    using read [of ex_race 0 ex_delete counting_kube "ex_plan [(''a'', ''n1'')] 7"]
    by (simp add: ex_race_def ex_delete_def ex_one_read_def counting_kube_def)
  moreover have "race_step counting_kube ex_one_read ex_both_read"
    using read [of ex_one_read 1 ex_assign counting_kube "ex_plan [(''a'', ''n1'')] 7"]
    by (simp add: ex_race_def ex_assign_def ex_one_read_def ex_both_read_def counting_kube_def)
  ultimately show ?thesis by (blast intro: reachable_step)
qed

lemma ex_assign_finishes:
  "finish_op counting_kube (ex_assign, Some (ex_plan [(''a'', ''n1'')] 7)) (rc_server ex_both_read) =
     (None, rc_server ex_assigned)"
  by (simp add: finish_op_def ex_assign_def plan_specs_def ex_both_read_def ex_assigned_def ex_race_def
      counting_kube_def store_object_def plan_key_def new_SchedulePlan_def,
    simp add: ex_plan_def new_object_def plan_specs_def)

lemma ex_assigned_reachable: "counting_race ex_assigned"
proof -
  have "race_step counting_kube ex_both_read ex_assigned"
    using finish [of ex_both_read 1, OF _ ex_assign_finishes]
    by (simp add: ex_both_read_def ex_assigned_def ex_race_def)
  then show ?thesis by (rule reachable_step [OF ex_both_read_reachable])
qed

lemma ex_planned:
  "planned (plans_of srv_objects (rc_server ex_assigned)) ''ns'' ''web'' = [''a'' \<mapsto> ''n1'', ''b'' \<mapsto> ''n2'']"
  by (simp add: planned_def plans_of_def ex_assigned_def entry_node_specs fun_eq_iff)

theorem concurrent_plans_wf_witness: "plans_wf (plans_of srv_objects (rc_server ex_assigned))"
  by (rule concurrent_plans_wf [OF counting_kube_ok ex_assigned_reachable])

text \<open>
  The scheduler's update is the atomic one. A second update from the same read is then rejected, as the
  plan has another version by now.
\<close>

theorem concurrent_writes_atomic_witness:
  "plans_of srv_objects (rc_server ex_assigned) =
     run_client_op atomic_kube ex_assign (plans_of srv_objects (rc_server ex_both_read)) \<and>
   fst (finish_op counting_kube (ex_assign, Some (ex_plan [(''a'', ''n1'')] 7)) (rc_server ex_assigned)) \<noteq> None"
proof
  have "rc_pending ex_both_read 1 = Some (ex_assign, Some (ex_plan [(''a'', ''n1'')] 7))"
    by (simp add: ex_both_read_def)
  moreover have "\<exists>q. second_half ex_assign (Some (ex_plan [(''a'', ''n1'')] 7)) = UpdatePlan q"
    by (simp add: ex_assign_def plan_specs_def)
  ultimately show "plans_of srv_objects (rc_server ex_assigned) =
      run_client_op atomic_kube ex_assign (plans_of srv_objects (rc_server ex_both_read))"
    using concurrent_writes_atomic [OF counting_kube_ok ex_both_read_reachable _ ex_assign_finishes] by auto
  show "fst (finish_op counting_kube (ex_assign, Some (ex_plan [(''a'', ''n1'')] 7)) (rc_server ex_assigned)) \<noteq> None"
    by (simp add: finish_op_def ex_assign_def plan_specs_def ex_assigned_def counting_kube_def sprint_inject)
qed

theorem stale_delete_loses_assignments_witness:
  "\<exists>s'. planned (plans_of srv_objects (rc_server ex_assigned)) ''ns'' ''web'' ''b'' = Some ''n2'' \<and>
     finish_op counting_kube (ex_delete, Some (ex_plan [(''a'', ''n1'')] 7)) (rc_server ex_assigned) = (None, s') \<and>
     planned (plans_of srv_objects s') ''ns'' ''web'' ''b'' = None \<and>
     planned (run_client_op atomic_kube ex_delete (plans_of srv_objects (rc_server ex_assigned))) ''ns'' ''web'' ''b'' =
       Some ''n2''"
proof -
  have "rc_pending ex_assigned 0 = Some (OpDelete ''a'' ''ns'' ''web'', Some (ex_plan [(''a'', ''n1'')] 7))"
    by (simp add: ex_assigned_def ex_delete_def)
  moreover have "ps_Pod ` set (plan_Plan (ex_plan [(''a'', ''n1'')] 7)) = {''a''}"
    by (simp add: plan_specs_def)
  moreover have "srv_objects (rc_server ex_assigned) (podset_key ''ns'' ''web'') \<noteq> None"
      "fst (vk_Delete counting_kube (podset_key ''ns'' ''web'') (rc_server ex_assigned)) = None"
    by (simp_all add: ex_assigned_def counting_kube_def)
  ultimately show ?thesis
    using stale_delete_loses_assignments [OF counting_kube_ok ex_assigned_reachable] ex_planned
    unfolding ex_delete_def by fastforce
qed

end
