(* ===== verification/Version.thy ===== *)
theory Version
  imports Prelude
begin

text \<open>
  The version report of the executables: \<^verbatim>\<open>pkg/version/version.go\<close> and its older copy in
  \<^verbatim>\<open>controllers/planner/version.go\<close>, with the part of \<^verbatim>\<open>strconv.ParseBool\<close> they use.
  The package variables, which the linker sets, are an argument.
\<close>

record build_info =
  bi_version :: string
  bi_vcsURL :: string
  bi_vcsRef :: string
  bi_vcsCommitDate :: string
  bi_vcsDirty :: string
  bi_goVersion :: string
  bi_os :: string
  bi_arch :: string
  bi_buildDate :: string

record Spec =
  Version :: string
  VcsURL :: string
  VcsRef :: string
  VcsCommitDate :: string
  VcsDirty :: "bool option"
  GoVersion :: string
  OS :: string
  Arch :: string
  BuildDate :: string

definition ParseBool :: "string \<Rightarrow> bool option" where
  "ParseBool str =
     (if str \<in> set [''1'', ''t'', ''T'', ''true'', ''TRUE'', ''True''] then Some True
      else if str \<in> set [''0'', ''f'', ''F'', ''false'', ''FALSE'', ''False''] then Some False
      else None)"

definition get_Version :: "build_info \<Rightarrow> Spec" where
  "get_Version b =
     \<lparr>Version = bi_version b, VcsURL = bi_vcsURL b, VcsRef = bi_vcsRef b,
      VcsCommitDate = bi_vcsCommitDate b,
      VcsDirty = (if bi_vcsDirty b \<noteq> '''' then ParseBool (bi_vcsDirty b) else None),
      GoVersion = bi_goVersion b, OS = bi_os b, Arch = bi_arch b, BuildDate = bi_buildDate b\<rparr>"

definition nl :: string where
  "nl = [CHR 0x0A]"

definition sprint_bool :: "bool \<Rightarrow> string" where
  "sprint_bool b = (if b then ''true'' else ''false'')"

text \<open>Write a line to the builder, after a newline unless the builder is empty.\<close>

definition write_line :: "string \<Rightarrow> string \<Rightarrow> string" where
  "write_line line ver = (if length ver \<noteq> 0 then ver @ nl else ver) @ line"

definition Spec_String :: "Spec \<Rightarrow> string" where
  "Spec_String v =
     (let ver = (if Version v \<noteq> '''' then ''Version:       '' @ Version v else '''');
          ver = (if VcsURL v \<noteq> '''' then write_line (''VcsURL:        '' @ VcsURL v) ver else ver);
          ver = (if VcsRef v \<noteq> '''' then write_line (''VcsRef:        '' @ VcsRef v) ver else ver);
          ver = (if VcsCommitDate v \<noteq> ''''
                 then write_line (''VcsCommitDate: '' @ VcsCommitDate v) ver else ver);
          ver = (case VcsDirty v of
                   Some d \<Rightarrow> write_line (''VcsDirty:      '' @ sprint_bool d) ver | None \<Rightarrow> ver);
          ver = (if GoVersion v \<noteq> '''' then write_line (''GoVersion:     '' @ GoVersion v) ver else ver);
          ver = (if OS v \<noteq> '''' then write_line (''OS:            '' @ OS v) ver else ver);
          ver = (if Arch v \<noteq> '''' then write_line (''Arch:          '' @ Arch v) ver else ver)
      in if BuildDate v \<noteq> '''' then write_line (''BuildDate:     '' @ BuildDate v) ver else ver)"

section \<open>The report is a list of lines\<close>

definition field_line :: "string \<Rightarrow> string \<Rightarrow> string list" where
  "field_line title value = (if value = '''' then [] else [title @ value])"

definition report_lines :: "Spec \<Rightarrow> string list" where
  "report_lines v =
     field_line ''Version:       '' (Version v) @ field_line ''VcsURL:        '' (VcsURL v) @
     field_line ''VcsRef:        '' (VcsRef v) @ field_line ''VcsCommitDate: '' (VcsCommitDate v) @
     (case VcsDirty v of None \<Rightarrow> [] | Some d \<Rightarrow> [''VcsDirty:      '' @ sprint_bool d]) @
     field_line ''GoVersion:     '' (GoVersion v) @ field_line ''OS:            '' (OS v) @
     field_line ''Arch:          '' (Arch v) @ field_line ''BuildDate:     '' (BuildDate v)"

lemma Join_snoc: "ls \<noteq> [] \<Longrightarrow> strings_Join (ls @ [l]) sep = strings_Join ls sep @ sep @ l"
  by (induction ls sep rule: strings_Join.induct) auto

lemma Join_empty: "[] \<notin> set ls \<Longrightarrow> strings_Join ls sep = [] \<longleftrightarrow> ls = []"
  by (induction ls sep rule: strings_Join.induct) auto

lemma write_line_Join:
  "[] \<notin> set ls \<Longrightarrow> write_line l (strings_Join ls nl) = strings_Join (ls @ [l]) nl"
  using Join_empty [of ls nl] by (cases "ls = []") (auto simp: write_line_def Join_snoc)

lemma write_field:
  "[] \<notin> set ls \<Longrightarrow>
     (if value \<noteq> '''' then write_line (title @ value) (strings_Join ls nl) else strings_Join ls nl) =
     strings_Join (ls @ field_line title value) nl"
  by (simp add: write_line_Join field_line_def)

lemma write_option:
  "[] \<notin> set ls \<Longrightarrow>
     (case x of Some d \<Rightarrow> write_line (f d) (strings_Join ls nl) | None \<Rightarrow> strings_Join ls nl) =
     strings_Join (ls @ (case x of None \<Rightarrow> [] | Some d \<Rightarrow> [f d])) nl"
  by (simp add: write_line_Join split: option.splits)

lemma field_line_nonempty: "[] \<notin> set (field_line title value)"
  by (simp add: field_line_def)

lemma first_field:
  "(if value \<noteq> '''' then title @ value else '''') = strings_Join (field_line title value) nl"
  by (simp add: field_line_def)

lemma option_line_nonempty: "(\<And>d. f d \<noteq> []) \<Longrightarrow> [] \<notin> set (case x of None \<Rightarrow> [] | Some d \<Rightarrow> [f d])"
  by (cases x) (auto dest: sym)

text \<open>
  The version report consists of one line per field that is set, in a fixed order, separated by
  newlines; there is no empty line and no newline at either end.
\<close>

theorem Spec_String_lines:
  "Spec_String v = strings_Join (report_lines v) nl \<and> [] \<notin> set (report_lines v)"
proof -
  have dirty: "[] \<notin> set (case VcsDirty v of None \<Rightarrow> [] | Some d \<Rightarrow> [''VcsDirty:      '' @ sprint_bool d])"
    by (rule option_line_nonempty) simp
  have "Spec_String v = strings_Join (report_lines v) nl"
    unfolding Spec_String_def report_lines_def Let_def first_field
    by (simp only: write_field write_option field_line_nonempty dirty set_append Un_iff
        append_assoc simp_thms)
  moreover have "[] \<notin> set (report_lines v)"
    unfolding report_lines_def by (simp only: set_append Un_iff field_line_nonempty dirty simp_thms)
  ultimately show ?thesis by simp
qed

text \<open>
  The report tells whether the sources were modified exactly when the build recorded a boolean.
\<close>

theorem get_Version_dirty:
  "VcsDirty (get_Version b) = Some d \<longleftrightarrow>
     bi_vcsDirty b \<in> set (if d then [''1'', ''t'', ''T'', ''true'', ''TRUE'', ''True'']
       else [''0'', ''f'', ''F'', ''false'', ''FALSE'', ''False''])"
  by (cases d) (auto simp: get_Version_def ParseBool_def split: if_splits)

section \<open>The copy of the controllers\<close>

text \<open>The same report, as \<^verbatim>\<open>controllers/planner/version.go\<close> has it for its \<^verbatim>\<open>VersionSpec\<close>.\<close>

type_synonym VersionSpec = Spec

definition controllers_Version :: "build_info \<Rightarrow> VersionSpec" where
  "controllers_Version b =
     \<lparr>Version = bi_version b, VcsURL = bi_vcsURL b, VcsRef = bi_vcsRef b,
      VcsCommitDate = bi_vcsCommitDate b,
      VcsDirty = (if bi_vcsDirty b \<noteq> '''' then ParseBool (bi_vcsDirty b) else None),
      GoVersion = bi_goVersion b, OS = bi_os b, Arch = bi_arch b, BuildDate = bi_buildDate b\<rparr>"

definition VersionSpec_String :: "VersionSpec \<Rightarrow> string" where
  "VersionSpec_String v =
     (let ver = (if Version v \<noteq> '''' then ''Version:       '' @ Version v else '''');
          ver = (if VcsURL v \<noteq> '''' then write_line (''VcsURL:        '' @ VcsURL v) ver else ver);
          ver = (if VcsRef v \<noteq> '''' then write_line (''VcsRef:        '' @ VcsRef v) ver else ver);
          ver = (if VcsCommitDate v \<noteq> ''''
                 then write_line (''VcsCommitDate: '' @ VcsCommitDate v) ver else ver);
          ver = (case VcsDirty v of
                   Some d \<Rightarrow> write_line (''VcsDirty:      '' @ sprint_bool d) ver | None \<Rightarrow> ver);
          ver = (if GoVersion v \<noteq> '''' then write_line (''GoVersion:     '' @ GoVersion v) ver else ver);
          ver = (if OS v \<noteq> '''' then write_line (''OS:            '' @ OS v) ver else ver);
          ver = (if Arch v \<noteq> '''' then write_line (''Arch:          '' @ Arch v) ver else ver)
      in if BuildDate v \<noteq> '''' then write_line (''BuildDate:     '' @ BuildDate v) ver else ver)"

text \<open>
  The two copies of the version report print the same text for the same build.
\<close>

theorem version_copies_agree:
  "VersionSpec_String (controllers_Version b) = Spec_String (get_Version b)"
  by (simp add: VersionSpec_String_def controllers_Version_def Spec_String_def get_Version_def)

end
