(* ===== verification/Flags.thy ===== *)
theory Flags
  imports Duration Version
begin

text \<open>
  The command line of the executables: the standard library's package \<^verbatim>\<open>flag\<close>, with the values the
  programs register (strings, booleans, integers and durations), and \<^verbatim>\<open>strconv.ParseInt\<close> for base 0,
  which the integers are read with. A value is kept with its flag, as the pointer of \<^verbatim>\<open>flag.IntVar\<close>
  and its like keeps it.
\<close>

section \<open>Integers\<close>

datatype num_error = ErrSyntax | ErrRange

definition lower :: "char \<Rightarrow> char" where
  "lower c = (case c of Char b0 b1 b2 b3 b4 b5 b6 b7 \<Rightarrow> Char b0 b1 b2 b3 b4 True b6 b7)"

definition letter_or_digit :: "char \<Rightarrow> int option" where
  "letter_or_digit c =
     (if is_digit c then Some (int (digit_val c))
      else if 97 \<le> (of_char (lower c) :: nat) \<and> of_char (lower c) \<le> (122 :: nat)
      then Some (int (of_char (lower c)) - 97 + 10)
      else None)"

fun parse_digits :: "int \<Rightarrow> int \<Rightarrow> string \<Rightarrow> num_error + int" where
  "parse_digits base n [] = Inr n"
| "parse_digits base n (c # s) =
     (if c = CHR ''_'' then parse_digits base n s
      else
        case letter_or_digit c of
          None \<Rightarrow> Inl ErrSyntax
        | Some d \<Rightarrow>
            if d \<ge> base then Inl ErrSyntax
            else if n \<ge> (2 ^ 64 - 1) div base + 1 then Inl ErrRange
            else
              let n = u64 (n * base); n1 = u64 (n + d)
              in if n1 < n then Inl ErrRange else parse_digits base n1 s)"

text \<open>The prefix of a number: its base, and what follows the prefix.\<close>

definition base_prefix :: "string \<Rightarrow> int \<times> string" where
  "base_prefix s =
     (if s = [] \<or> hd s \<noteq> CHR ''0'' then (10, s)
      else if length s \<ge> 3 \<and> lower (s ! 1) = CHR ''b'' then (2, drop 2 s)
      else if length s \<ge> 3 \<and> lower (s ! 1) = CHR ''o'' then (8, drop 2 s)
      else if length s \<ge> 3 \<and> lower (s ! 1) = CHR ''x'' then (16, drop 2 s)
      else (8, tl s))"

text \<open>Underscores may only separate digits; a base prefix counts as a digit.\<close>

fun underscore_scan :: "bool \<Rightarrow> char \<Rightarrow> string \<Rightarrow> bool" where
  "underscore_scan hex saw [] \<longleftrightarrow> saw \<noteq> CHR ''_''"
| "underscore_scan hex saw (c # s) =
     (if is_digit c \<or> (hex \<and> 97 \<le> (of_char (lower c) :: nat) \<and> of_char (lower c) \<le> (102 :: nat))
      then underscore_scan hex CHR ''0'' s
      else if c = CHR ''_'' then saw = CHR ''0'' \<and> underscore_scan hex CHR ''_'' s
      else saw \<noteq> CHR ''_'' \<and> underscore_scan hex CHR ''!'' s)"

definition underscoreOK :: "string \<Rightarrow> bool" where
  "underscoreOK s =
     (let s = (case s of c # r \<Rightarrow> if c = CHR ''-'' \<or> c = CHR ''+'' then r else s | [] \<Rightarrow> s)
      in if length s \<ge> 2 \<and> s ! 0 = CHR ''0'' \<and> lower (s ! 1) \<in> set ''box''
         then underscore_scan (lower (s ! 1) = CHR ''x'') CHR ''0'' (drop 2 s)
         else underscore_scan False CHR ''^'' s)"

definition ParseUint :: "string \<Rightarrow> num_error + int" where
  "ParseUint s0 =
     (if s0 = [] then Inl ErrSyntax
      else
        let (base, s) = base_prefix s0
        in case parse_digits base 0 s of
             Inl e \<Rightarrow> Inl e
           | Inr n \<Rightarrow> if CHR ''_'' \<in> set s \<and> \<not> underscoreOK s0 then Inl ErrSyntax else Inr n)"

definition ParseInt :: "string \<Rightarrow> num_error + int" where
  "ParseInt s0 =
     (case s0 of
        [] \<Rightarrow> Inl ErrSyntax
      | c # r \<Rightarrow>
          let neg = (c = CHR ''-''); s = (if c = CHR ''+'' \<or> neg then r else s0)
          in case ParseUint s of
               Inl e \<Rightarrow> Inl e
             | Inr un \<Rightarrow>
                 if \<not> neg \<and> un \<ge> 2 ^ 63 then Inl ErrRange
                 else if neg \<and> un > 2 ^ 63 then Inl ErrRange
                 else Inr (if neg then s64 (- s64 un) else s64 un))"

section \<open>Flags\<close>

datatype flag_value =
    StringValue string
  | BoolValue bool
  | IntValue int
  | DurationValue int

text \<open>The method \<^verbatim>\<open>Set\<close> of each kind of value.\<close>

fun Set :: "flag_value \<Rightarrow> string \<Rightarrow> flag_value option" where
  "Set (StringValue _) s = Some (StringValue s)"
| "Set (BoolValue _) s = map_option BoolValue (ParseBool s)"
| "Set (IntValue _) s = (case ParseInt s of Inl _ \<Rightarrow> None | Inr i \<Rightarrow> Some (IntValue i))"
| "Set (DurationValue _) s = (case ParseDuration s of Inl _ \<Rightarrow> None | Inr d \<Rightarrow> Some (DurationValue d))"

fun IsBoolFlag :: "flag_value \<Rightarrow> bool" where
  "IsBoolFlag (BoolValue _) = True"
| "IsBoolFlag _ = False"

type_synonym formal = "string \<rightharpoonup> flag_value"

datatype flag_error =
    ErrHelp
  | BadFlagSyntax string
  | NotDefined string
  | NeedsArgument string
  | InvalidValue string string

text \<open>The text of an argument after its dashes: a name, and a value if there is an equals sign after its first byte.\<close>

definition flag_name_value :: "string \<Rightarrow> string \<times> string option" where
  "flag_name_value s =
     (let name = hd s # takeWhile (\<lambda>c. c \<noteq> CHR ''='') (tl s)
      in (name, if CHR ''='' \<in> set (tl s) then Some (drop (length name + 1) s) else None))"

text \<open>
  \<^verbatim>\<open>Parse\<close>, the loop over \<^verbatim>\<open>parseOne\<close>: the flags with their values, and the arguments that are left.
\<close>

definition set_flag :: "formal \<Rightarrow> string \<Rightarrow> flag_value \<Rightarrow> string \<Rightarrow> flag_error + formal" where
  "set_flag m name fv value =
     (case Set fv value of None \<Rightarrow> Inl (InvalidValue value name) | Some fv' \<Rightarrow> Inr (m(name \<mapsto> fv')))"

fun flag_Parse :: "formal \<Rightarrow> string list \<Rightarrow> flag_error + formal \<times> string list" where
  "flag_Parse m [] = Inr (m, [])"
| "flag_Parse m (s # args) =
     (if length s < 2 \<or> s ! 0 \<noteq> CHR ''-'' then Inr (m, s # args)
      else if s = ''--'' then Inr (m, args)
      else
        let name = (if s ! 1 = CHR ''-'' then drop 2 s else drop 1 s)
        in if name = [] \<or> hd name = CHR ''-'' \<or> hd name = CHR ''='' then Inl (BadFlagSyntax s)
           else
             let (name, value) = flag_name_value name
             in case m name of
                  None \<Rightarrow> Inl (if name = ''help'' \<or> name = ''h'' then ErrHelp else NotDefined name)
                | Some fv \<Rightarrow>
                    if IsBoolFlag fv then
                      (case set_flag m name fv (case value of Some v \<Rightarrow> v | None \<Rightarrow> ''true'') of
                         Inl e \<Rightarrow> Inl e | Inr m' \<Rightarrow> flag_Parse m' args)
                    else
                      (case value of
                         Some v \<Rightarrow> (case set_flag m name fv v of Inl e \<Rightarrow> Inl e | Inr m' \<Rightarrow> flag_Parse m' args)
                       | None \<Rightarrow>
                           (case args of
                              [] \<Rightarrow> Inl (NeedsArgument name)
                            | v # args' \<Rightarrow>
                                (case set_flag m name fv v of Inl e \<Rightarrow> Inl e | Inr m' \<Rightarrow> flag_Parse m' args'))))"

text \<open>The command line exits on errors: with status 0 after the help, otherwise with 2.\<close>

definition exit_status :: "flag_error \<Rightarrow> nat" where
  "exit_status e = (if e = ErrHelp then 0 else 2)"

section \<open>Numbers are read back\<close>

lemma parse_digits_decimal:
  assumes "\<forall>c \<in> set ds. is_digit c" "0 \<le> n" "read_digits n ds < 2 ^ 64"
  shows "parse_digits 10 n ds = Inr (read_digits n ds)"
  using assms
proof (induction ds arbitrary: n)
  case (Cons c ds)
  have d: "is_digit c" "digit_val c < 10" using Cons.prems(1) digit_val_less by simp_all
  then have "c \<noteq> CHR ''_''" by (auto simp: is_digit_def)
  let ?n = "n * 10 + int (digit_val c)"
  have "?n \<le> read_digits n (c # ds)" using read_digits_ge [of ?n ds] Cons.prems(2) by simp
  then have lt: "?n < 2 ^ 64" using Cons.prems(3) by simp
  then have "u64 (n * 10) = n * 10" "u64 ?n = ?n" using Cons.prems(2) by (simp_all add: u64_def)
  with lt d \<open>c \<noteq> CHR ''_''\<close> Cons show ?case by (simp add: letter_or_digit_def Let_def)
qed simp

lemma digit_char_0: "digit_char 0 = CHR ''0''"
  by code_simp

lemma digit_char_zero:
  assumes "n < 10"
  shows "digit_char n = CHR ''0'' \<longleftrightarrow> n = 0"
proof
  assume "digit_char n = CHR ''0''"
  then have "of_char (digit_char n) = (48 :: nat)" by simp
  with of_char_digit [OF assms] show "n = 0" by simp
qed (simp add: digit_char_0)

lemma sprint_nat_zero: "hd (sprint_nat n) = CHR ''0'' \<longleftrightarrow> n = 0"
proof (induction n rule: sprint_nat.induct)
  case (1 n)
  then show ?case by (subst sprint_nat.simps) (auto simp: hd_append digit_char_zero)
qed

lemma ParseUint_sprint:
  assumes "n < 2 ^ 64"
  shows "ParseUint (sprint_nat n) = Inr (int n)"
proof (cases "n = 0")
  case True
  then have "sprint_nat n = ''0''" by (subst sprint_nat.simps) (simp add: digit_char_0)
  then show ?thesis by (simp add: ParseUint_def base_prefix_def True)
next
  case False
  have "CHR ''_'' \<notin> set (sprint_nat n)" using sprint_is_digit [of "CHR ''_''" n] by (auto simp: is_digit_def)
  moreover have "parse_digits 10 0 (sprint_nat n) = Inr (int n)"
    using parse_digits_decimal [of "sprint_nat n" 0] assms by (simp add: read_digits_sprint sprint_is_digit)
  ultimately show ?thesis using False by (simp add: ParseUint_def base_prefix_def sprint_nat_zero)
qed

lemma ParseInt_sprint:
  assumes "n < 2 ^ 63"
  shows "ParseInt (sprint_nat n) = Inr (int n)"
proof -
  obtain c r where s: "sprint_nat n = c # r" by (cases "sprint_nat n") simp_all
  then have "is_digit c" using sprint_is_digit [of c n] by simp
  then have "c \<noteq> CHR ''-''" "c \<noteq> CHR ''+''" by (auto simp: is_digit_def)
  with assms ParseUint_sprint [of n] show ?thesis by (simp add: ParseInt_def s s64_def)
qed

section \<open>Settings on the command line\<close>

text \<open>A name as the programs register it, and the argument that sets it.\<close>

definition plain_name :: "string \<Rightarrow> bool" where
  "plain_name name \<longleftrightarrow> name \<noteq> [] \<and> hd name \<noteq> CHR ''-'' \<and> CHR ''='' \<notin> set name"

definition setting :: "string \<times> string \<Rightarrow> string" where
  "setting nv = ''--'' @ fst nv @ ''='' @ snd nv"

text \<open>What a list of settings does, one after the other: the last one of a name counts.\<close>

fun apply_settings :: "formal \<Rightarrow> (string \<times> string) list \<Rightarrow> flag_error + formal" where
  "apply_settings m [] = Inr m"
| "apply_settings m ((name, value) # nvs) =
     (case m name of
        None \<Rightarrow> Inl (if name = ''help'' \<or> name = ''h'' then ErrHelp else NotDefined name)
      | Some fv \<Rightarrow> (case set_flag m name fv value of Inl e \<Rightarrow> Inl e | Inr m' \<Rightarrow> apply_settings m' nvs))"

lemma flag_name_value_setting:
  assumes "plain_name name"
  shows "flag_name_value (name @ ''='' @ v) = (name, Some v)"
proof -
  obtain c r where n: "name = c # r" using assms by (cases name) (auto simp: plain_name_def)
  have "takeWhile (\<lambda>c. c \<noteq> CHR ''='') (r @ CHR ''='' # v) = r"
    using assms by (auto simp: n plain_name_def takeWhile_append)
  then show ?thesis by (simp add: flag_name_value_def n Let_def)
qed

lemma flag_Parse_setting:
  assumes "plain_name name"
  shows "flag_Parse m (setting (name, v) # args) =
    (case m name of
       None \<Rightarrow> Inl (if name = ''help'' \<or> name = ''h'' then ErrHelp else NotDefined name)
     | Some fv \<Rightarrow> (case set_flag m name fv v of Inl e \<Rightarrow> Inl e | Inr m' \<Rightarrow> flag_Parse m' args))"
proof -
  obtain c r where n: "name = c # r" using assms by (cases name) (auto simp: plain_name_def)
  with assms show ?thesis
    using flag_name_value_setting [OF assms, of v]
    by (auto simp: setting_def plain_name_def Let_def split: option.split sum.split)
qed

lemma flag_Parse_settings:
  "\<forall>nv \<in> set nvs. plain_name (fst nv) \<Longrightarrow>
     flag_Parse m (map setting nvs) = map_sum id (\<lambda>m'. (m', [])) (apply_settings m nvs)"
  by (induction m nvs rule: apply_settings.induct)
    (simp_all add: flag_Parse_setting del: flag_Parse.simps(2) split: option.split sum.split)

text \<open>An argument that names no flag ends the program, whatever was set before it.\<close>

lemma flag_Parse_unknown:
  assumes "plain_name name" "m name = None" "name \<noteq> ''help''" "name \<noteq> ''h''"
  shows "flag_Parse m (setting (name, v) # args) = Inl (NotDefined name)"
  using assms by (simp add: flag_Parse_setting del: flag_Parse.simps)

text \<open>The part of \<open>flag_Parse\<close> after an argument has been split: set the flag, and go on.\<close>

definition flag_continue :: "formal \<Rightarrow> string \<Rightarrow> flag_value \<Rightarrow> string option \<Rightarrow> string list \<Rightarrow> flag_error + formal \<times> string list" where
  "flag_continue m name fv v args =
     (if IsBoolFlag fv then
        (case set_flag m name fv (case v of Some v \<Rightarrow> v | None \<Rightarrow> ''true'') of
           Inl e \<Rightarrow> Inl e | Inr m' \<Rightarrow> flag_Parse m' args)
      else
        (case v of
           Some v \<Rightarrow> (case set_flag m name fv v of Inl e \<Rightarrow> Inl e | Inr m' \<Rightarrow> flag_Parse m' args)
         | None \<Rightarrow>
             (case args of
                [] \<Rightarrow> Inl (NeedsArgument name)
              | v # args' \<Rightarrow> (case set_flag m name fv v of Inl e \<Rightarrow> Inl e | Inr m' \<Rightarrow> flag_Parse m' args'))))"

lemma flag_Parse_starts:
  assumes "flag_Parse m (s # pre) = Inr (m', [])" "s \<noteq> ''--''"
  obtains name v fv where "m name = Some fv" "\<And>args. flag_Parse m (s # args) = flag_continue m name fv v args"
proof -
  define n where "n = (if s ! 1 = CHR ''-'' then drop 2 s else drop 1 s)"
  obtain name v where nv: "flag_name_value n = (name, v)" by force
  have dashes: "\<not> (length s < 2 \<or> s ! 0 \<noteq> CHR ''-'')"
  proof
    assume "length s < 2 \<or> s ! 0 \<noteq> CHR ''-''"
    then have "flag_Parse m (s # pre) = Inr (m, s # pre)" by (simp only: flag_Parse.simps if_True)
    with assms(1) show False by (simp del: flag_Parse.simps)
  qed
  have good: "\<not> (n = [] \<or> hd n = CHR ''-'' \<or> hd n = CHR ''='')"
  proof
    assume bad: "n = [] \<or> hd n = CHR ''-'' \<or> hd n = CHR ''=''"
    have "flag_Parse m (s # pre) = Inl (BadFlagSyntax s)"
      unfolding flag_Parse.simps if_not_P [OF dashes] if_not_P [OF assms(2)] Let_def n_def [symmetric] if_P [OF bad] ..
    with assms(1) show False by (simp del: flag_Parse.simps)
  qed
  note unfolded = flag_Parse.simps if_not_P [OF dashes] if_not_P [OF assms(2)] Let_def n_def [symmetric] if_not_P [OF good]
    nv prod.case
  show thesis
  proof (cases "m name")
    case None
    have "\<exists>e. flag_Parse m (s # pre) = Inl e" unfolding unfolded None option.case by blast
    with assms(1) show ?thesis by (auto simp del: flag_Parse.simps)
  next
    case (Some fv)
    show ?thesis by (rule that [OF Some]) (simp only: unfolded Some option.case flag_continue_def)
  qed
qed

lemma set_flag_dom: "m name = Some fv \<Longrightarrow> set_flag m name fv v = Inr m' \<Longrightarrow> dom m' = dom m"
  by (auto simp: set_flag_def split: option.splits if_splits)

text \<open>
  Arguments that parse by themselves, with none left over and no terminator, parse in the same way in front
  of others; and parsing defines no flags.
\<close>

lemma flag_Parse_append:
  assumes "flag_Parse m pre = Inr (m', [])" "''--'' \<notin> set pre"
  shows "flag_Parse m (pre @ args) = flag_Parse m' args \<and> dom m' = dom m"
  using assms
proof (induction "length pre" arbitrary: m pre rule: less_induct)
  case less
  show ?case
  proof (cases pre)
    case Nil
    with less.prems show ?thesis by simp
  next
    case (Cons s rest)
    have run: "flag_Parse m (s # rest) = Inr (m', [])" using less.prems(1) unfolding Cons .
    moreover have "s \<noteq> ''--''" using less.prems(2) Cons by auto
    ultimately obtain name v fv where step: "m name = Some fv" "\<And>args. flag_Parse m (s # args) = flag_continue m name fv v args"
      by (rule flag_Parse_starts) blast
    have IH: "flag_Parse m1 (rest' @ args) = flag_Parse m' args \<and> dom m' = dom m"
      if "set_flag m name fv v = Inr m1" "flag_Parse m1 rest' = Inr (m', [])" "rest = ys @ rest'" for m1 rest' ys v
      using less.hyps [of rest' m1] that less.prems(2) set_flag_dom [OF step(1) that(1)] Cons by auto
    show ?thesis
      using run IH [of _ _ rest "[]"] IH [of _ _ "tl rest" "[hd rest]"] unfolding Cons append_Cons step(2) flag_continue_def
      by (auto simp del: flag_Parse.simps split: if_splits sum.splits option.splits list.splits)
  qed
qed

end
