(* ===== verification/Wire.thy ===== *)
theory Wire
  imports Planner
begin

text \<open>
  The messages of the planner's API on the wire: \<^verbatim>\<open>SchedulePlanRequest\<close> and
  \<^verbatim>\<open>SchedulePlanResponse\<close> of \<^verbatim>\<open>pkg/apis/planner/planner.pb.go\<close>, whose struct tags give the
  field numbers, written and read in the protocol buffer format as the vendored
  \<^verbatim>\<open>google.golang.org/protobuf\<close> does. A byte is a character; the bytes of unknown fields, which
  the program never looks at, are skipped. The theorems show that what is read is what was
  written.
\<close>

section \<open>The wire format\<close>

text \<open>\<^verbatim>\<open>utf8.Valid\<close> of the standard library, by the first byte of each character.\<close>

definition byte_in :: "nat \<Rightarrow> nat \<Rightarrow> char \<Rightarrow> bool" where
  "byte_in lo hi c \<longleftrightarrow> lo \<le> of_char c \<and> of_char c \<le> hi"

abbreviation continuation :: "char \<Rightarrow> bool" where
  "continuation \<equiv> byte_in 128 191"

fun utf8_valid :: "string \<Rightarrow> bool" where
  "utf8_valid [] \<longleftrightarrow> True"
| "utf8_valid (a # s) \<longleftrightarrow>
     (if of_char a < (128 :: nat) then utf8_valid s
      else case s of
        [] \<Rightarrow> False
      | b # t \<Rightarrow>
          if byte_in 194 223 a then continuation b \<and> utf8_valid t
          else (case t of
            [] \<Rightarrow> False
          | c # u \<Rightarrow>
              if byte_in 224 239 a then
                (if byte_in 224 224 a then byte_in 160 191 b
                 else if byte_in 237 237 a then byte_in 128 159 b else continuation b) \<and>
                continuation c \<and> utf8_valid u
              else (case u of
                [] \<Rightarrow> False
              | d # v \<Rightarrow>
                  byte_in 240 244 a \<and>
                  (if byte_in 240 240 a then byte_in 144 191 b
                   else if byte_in 244 244 a then byte_in 128 143 b else continuation b) \<and>
                  continuation c \<and> continuation d \<and> utf8_valid v)))"

lemma ascii_utf8_valid: "list_all (\<lambda>c. of_char c < (128 :: nat)) s \<Longrightarrow> utf8_valid s"
  by (induction s) auto

text \<open>Numbers, in groups of seven bits; \<open>i\<close> counts the groups read, of which there are at most ten.\<close>

fun AppendVarint :: "nat \<Rightarrow> string" where
  "AppendVarint v =
     (if v < 128 then [char_of v] else char_of (v mod 128 + 128) # AppendVarint (v div 128))"

declare AppendVarint.simps [simp del]

fun consume_varint :: "nat \<Rightarrow> nat \<Rightarrow> string \<Rightarrow> (nat \<times> string) option" where
  "consume_varint i v [] = None"
| "consume_varint i v (c # b) =
     (let y = of_char c
      in if i \<ge> 9 then (if y < 2 then Some (v + y * 2 ^ (7 * i), b) else None)
         else if y < 128 then Some (v + y * 2 ^ (7 * i), b)
         else consume_varint (Suc i) (v + (y - 128) * 2 ^ (7 * i)) b)"

definition ConsumeVarint :: "string \<Rightarrow> (nat \<times> string) option" where
  "ConsumeVarint b = consume_varint 0 0 b"

definition ConsumeBytes :: "string \<Rightarrow> (string \<times> string) option" where
  "ConsumeBytes b =
     (case ConsumeVarint b of
        None \<Rightarrow> None
      | Some (m, r) \<Rightarrow> if m > length r then None else Some (take m r, drop m r))"

definition consume_fixed :: "nat \<Rightarrow> string \<Rightarrow> string option" where
  "consume_fixed n b = (if length b < n then None else Some (drop n b))"

definition MaxValidNumber :: nat where
  "MaxValidNumber = 2 ^ 29 - 1"

text \<open>
  A field that is not known is skipped. Groups nest; every tag takes at least one byte, so the
  length of the input bounds the number of steps.
\<close>

fun consume_value :: "nat \<Rightarrow> nat \<Rightarrow> nat \<Rightarrow> string \<Rightarrow> string option"
  and consume_group :: "nat \<Rightarrow> nat \<Rightarrow> string \<Rightarrow> string option" where
  "consume_value 0 num wt b = None"
| "consume_value (Suc n) num wt b =
     (if wt = 0 then map_option snd (ConsumeVarint b)
      else if wt = 5 then consume_fixed 4 b
      else if wt = 1 then consume_fixed 8 b
      else if wt = 2 then map_option snd (ConsumeBytes b)
      else if wt = 3 then consume_group n num b
      else None)"
| "consume_group 0 num b = None"
| "consume_group (Suc n) num b =
     (case ConsumeVarint b of
        None \<Rightarrow> None
      | Some (tag, r) \<Rightarrow>
          if tag div 8 > 2 ^ 31 - 1 \<or> tag div 8 < 1 then None
          else if tag mod 8 = 4 then (if tag div 8 = num then Some r else None)
          else (case consume_value n (tag div 8) (tag mod 8) r of
                  None \<Rightarrow> None
                | Some r' \<Rightarrow> consume_group n num r'))"

definition ConsumeFieldValue :: "nat \<Rightarrow> nat \<Rightarrow> string \<Rightarrow> string option" where
  "ConsumeFieldValue num wt b = consume_value (2 * length b + 2) num wt b"

section \<open>Messages\<close>

datatype wire_error = ErrDecode | ErrInvalidUTF8

text \<open>What the reader of one field says: a new message and the rest, or that it does not know the field.\<close>

datatype 'm field_result = FieldOk 'm string | FieldUnknown | FieldError wire_error

text \<open>
  \<^verbatim>\<open>unmarshalPointer\<close>: one round per field. Each round takes at least the byte of a tag, so the
  length of the input is enough rounds.
\<close>

fun unmarshal_loop :: "nat \<Rightarrow> (nat \<Rightarrow> nat \<Rightarrow> string \<Rightarrow> 'm \<Rightarrow> 'm field_result) \<Rightarrow> string \<Rightarrow> 'm \<Rightarrow> wire_error + 'm" where
  "unmarshal_loop n field [] m = Inr m"
| "unmarshal_loop 0 field (c # b) m = Inl ErrDecode"
| "unmarshal_loop (Suc n) field (c # b) m =
     (case ConsumeVarint (c # b) of
        None \<Rightarrow> Inl ErrDecode
      | Some (tag, r) \<Rightarrow>
          let num = tag div 8; wtyp = tag mod 8
          in if num < 1 \<or> num > MaxValidNumber then Inl ErrDecode
             else if wtyp = 4 then Inl ErrDecode
             else (case field num wtyp r m of
                     FieldOk m' r' \<Rightarrow> unmarshal_loop n field r' m'
                   | FieldError e \<Rightarrow> Inl e
                   | FieldUnknown \<Rightarrow>
                       (case ConsumeFieldValue num wtyp r of
                          None \<Rightarrow> Inl ErrDecode
                        | Some r' \<Rightarrow> unmarshal_loop n field r' m)))"

definition consume_string :: "nat \<Rightarrow> string \<Rightarrow> (string \<Rightarrow> 'm) \<Rightarrow> 'm field_result" where
  "consume_string wtyp b set_field =
     (if wtyp \<noteq> 2 then FieldUnknown
      else case ConsumeBytes b of
        None \<Rightarrow> FieldError ErrDecode
      | Some (v, r) \<Rightarrow>
          if \<not> utf8_valid v then FieldError ErrInvalidUTF8 else FieldOk (set_field v) r)"

text \<open>The request: \<^verbatim>\<open>namespace = 1\<close>, \<^verbatim>\<open>podSet = 2\<close>, \<^verbatim>\<open>scheduledPod = 3\<close>, repeated \<^verbatim>\<open>eligibleNodes = 4\<close>.\<close>

definition request_field :: "nat \<Rightarrow> nat \<Rightarrow> string \<Rightarrow> SchedulePlanRequest \<Rightarrow> SchedulePlanRequest field_result" where
  "request_field num wtyp b m =
     (if num = 1 then consume_string wtyp b (\<lambda>v. m\<lparr>req_Namespace := v\<rparr>)
      else if num = 2 then consume_string wtyp b (\<lambda>v. m\<lparr>req_PodSet := v\<rparr>)
      else if num = 3 then consume_string wtyp b (\<lambda>v. m\<lparr>req_ScheduledPod := v\<rparr>)
      else if num = 4 then consume_string wtyp b (\<lambda>v. m\<lparr>req_EligibleNodes := req_EligibleNodes m @ [v]\<rparr>)
      else FieldUnknown)"

definition new_request :: SchedulePlanRequest where
  "new_request = \<lparr>req_Namespace = '''', req_PodSet = '''', req_ScheduledPod = '''', req_EligibleNodes = []\<rparr>"

definition Unmarshal_request :: "string \<Rightarrow> wire_error + SchedulePlanRequest" where
  "Unmarshal_request b = unmarshal_loop (length b) request_field b new_request"

definition append_field :: "nat \<Rightarrow> string \<Rightarrow> string" where
  "append_field num v = AppendVarint (num * 8 + 2) @ AppendVarint (length v) @ v"

definition append_nonempty :: "nat \<Rightarrow> string \<Rightarrow> string" where
  "append_nonempty num v = (if length v = 0 then [] else append_field num v)"

definition Marshal_request :: "SchedulePlanRequest \<Rightarrow> wire_error + string" where
  "Marshal_request m =
     (if utf8_valid (req_Namespace m) \<and> utf8_valid (req_PodSet m) \<and> utf8_valid (req_ScheduledPod m) \<and>
         list_all utf8_valid (req_EligibleNodes m)
      then Inr (append_nonempty 1 (req_Namespace m) @ append_nonempty 2 (req_PodSet m) @
                append_nonempty 3 (req_ScheduledPod m) @ concat (map (append_field 4) (req_EligibleNodes m)))
      else Inl ErrInvalidUTF8)"

text \<open>
  The response: one field per entry of the map \<^verbatim>\<open>assignments = 1\<close>, itself a message with the key
  in field 1 and the value in field 2, both always written.
\<close>

definition append_entry :: "string \<times> string \<Rightarrow> string" where
  "append_entry e = append_field 1 (append_field 1 (fst e) @ append_field 2 (snd e))"

definition Marshal_response :: "(string, string) gomap \<Rightarrow> wire_error + string" where
  "Marshal_response as =
     (if list_all (\<lambda>(k, v). utf8_valid k \<and> utf8_valid v) as then Inr (concat (map append_entry as))
      else Inl ErrInvalidUTF8)"

text \<open>
  The reader of an entry, \<^verbatim>\<open>consumeMap\<close>, differs from the reader of a message in that it takes
  the end-of-group type for an unknown field, which cannot be skipped either.
\<close>

definition entry_field :: "nat \<Rightarrow> nat \<Rightarrow> string \<Rightarrow> string \<times> string \<Rightarrow> (string \<times> string) field_result" where
  "entry_field num wtyp b e =
     (if num = 1 then consume_string wtyp b (\<lambda>v. (v, snd e))
      else if num = 2 then consume_string wtyp b (\<lambda>v. (fst e, v))
      else FieldUnknown)"

definition response_field ::
  "nat \<Rightarrow> nat \<Rightarrow> string \<Rightarrow> (string, string) gomap \<Rightarrow> (string, string) gomap field_result" where
  "response_field num wtyp b as =
     (if num = 1 then
        (if wtyp \<noteq> 2 then FieldUnknown
         else case ConsumeBytes b of
           None \<Rightarrow> FieldError ErrDecode
         | Some (v, r) \<Rightarrow>
             (case unmarshal_loop (length v) entry_field v ('''', '''') of
                Inl e \<Rightarrow> FieldError e
              | Inr (key, val) \<Rightarrow> FieldOk (AList.update key val as) r))
      else FieldUnknown)"

definition Unmarshal_response :: "string \<Rightarrow> wire_error + (string, string) gomap" where
  "Unmarshal_response b = unmarshal_loop (length b) response_field b []"

section \<open>The rounds are enough\<close>

lemma consume_varint_shrinks: "consume_varint i v b = Some (x, r) \<Longrightarrow> length r < length b"
  by (induction i v b rule: consume_varint.induct) (auto simp: Let_def split: if_splits)

lemma ConsumeVarint_shrinks: "ConsumeVarint b = Some (x, r) \<Longrightarrow> length r < length b"
  by (auto simp: ConsumeVarint_def dest: consume_varint_shrinks)

lemma ConsumeBytes_shrinks: "ConsumeBytes b = Some (x, r) \<Longrightarrow> length r < length b"
  by (fastforce simp: ConsumeBytes_def split: option.splits if_splits dest: ConsumeVarint_shrinks)

lemma consume_fixed_shrinks: "consume_fixed k b = Some r \<Longrightarrow> length r \<le> length b"
  by (auto simp: consume_fixed_def split: if_splits)

lemma consume_shrinks:
  "consume_value n num wt b = Some r \<Longrightarrow> length r \<le> length b"
  "consume_group n num b = Some r \<Longrightarrow> length r < length b"
proof (induction n num wt b and n num b arbitrary: r and r rule: consume_value_consume_group.induct)
  case (2 n num wt b)
  then show ?case
    by (auto split: if_splits dest: ConsumeVarint_shrinks ConsumeBytes_shrinks consume_fixed_shrinks)
next
  case (4 n num b)
  from "4.prems" obtain tag r1 where tag: "ConsumeVarint b = Some (tag, r1)"
    by (auto split: option.splits)
  show ?case
  proof (cases "tag mod 8 = 4")
    case True
    with 4 tag ConsumeVarint_shrinks [OF tag] show ?thesis by (auto split: if_splits)
  next
    case False
    with "4.prems" tag obtain r2 where r2: "consume_value n (tag div 8) (tag mod 8) r1 = Some r2"
        "consume_group n num r2 = Some r" "\<not> (tag div 8 > 2 ^ 31 - 1 \<or> tag div 8 < 1)"
      by (auto split: if_splits option.splits)
    from "4.IH"(1) [OF tag refl r2(3) False r2(1)] "4.IH"(2) [OF tag refl r2(3) False r2(1,2)]
      ConsumeVarint_shrinks [OF tag]
    show ?thesis by simp
  qed
qed auto

text \<open>More fuel than the length of the input asks for changes nothing.\<close>

lemma consume_fuel:
  "2 * length b + 2 \<le> n \<Longrightarrow> 2 * length b + 2 \<le> m \<Longrightarrow> consume_value n num wt b = consume_value m num wt b"
  "2 * length b + 1 \<le> n \<Longrightarrow> 2 * length b + 1 \<le> m \<Longrightarrow> consume_group n num b = consume_group m num b"
proof (induction n num wt b and n num b arbitrary: m and m rule: consume_value_consume_group.induct)
  case (2 n num wt b)
  then obtain m' where m: "m = Suc m'" by (cases m) auto
  have "consume_group n num b = consume_group m' num b" if "wt = 3"
    using "2.prems" m that by (intro "2.IH") auto
  then show ?case by (simp add: m)
next
  case (4 n num b)
  then obtain m' where m: "m = Suc m'" by (cases m) auto
  show ?case
  proof (cases "ConsumeVarint b")
    case (Some p)
    then obtain tag r1 where tag: "ConsumeVarint b = Some (tag, r1)" by (cases p) auto
    have r1: "length r1 < length b" by (rule ConsumeVarint_shrinks [OF tag])
    show ?thesis
    proof (cases "tag div 8 > 2 ^ 31 - 1 \<or> tag div 8 < 1 \<or> tag mod 8 = 4")
      case False
      then have ok: "\<not> (tag div 8 > 2 ^ 31 - 1 \<or> tag div 8 < 1)" "tag mod 8 \<noteq> 4" by auto
      have val: "consume_value n (tag div 8) (tag mod 8) r1 = consume_value m' (tag div 8) (tag mod 8) r1"
        using "4.prems" m r1 by (intro "4.IH"(1) [OF tag refl ok]) auto
      show ?thesis
      proof (cases "consume_value n (tag div 8) (tag mod 8) r1")
        case (Some r2)
        have "length r2 \<le> length r1" by (rule consume_shrinks(1) [OF Some])
        then have "consume_group n num r2 = consume_group m' num r2"
          using "4.prems" m r1 by (intro "4.IH"(2) [OF tag refl ok Some]) auto
        with Some val tag show ?thesis by (simp add: m)
      qed (use val tag in \<open>simp add: m\<close>)
    next
      case True
      then show ?thesis unfolding m consume_group.simps tag by (elim disjE) simp_all
    qed
  qed (simp add: m)
qed auto

definition field_shrinks :: "(nat \<Rightarrow> nat \<Rightarrow> string \<Rightarrow> 'm \<Rightarrow> 'm field_result) \<Rightarrow> bool" where
  "field_shrinks field \<longleftrightarrow> (\<forall>num wtyp b m m' r. field num wtyp b m = FieldOk m' r \<longrightarrow> length r \<le> length b)"

lemma unmarshal_fuel:
  assumes "field_shrinks field"
  shows "length b \<le> n \<Longrightarrow> length b \<le> k \<Longrightarrow> unmarshal_loop n field b m = unmarshal_loop k field b m"
proof (induction n arbitrary: b m k)
  case (Suc n)
  show ?case
  proof (cases b)
    case (Cons c b')
    with Suc.prems obtain k' where k: "k = Suc k'" by (cases k) auto
    show ?thesis
    proof (cases "ConsumeVarint b")
      case (Some p)
      then obtain tag r where tag: "ConsumeVarint b = Some (tag, r)" by (cases p) auto
      have r: "length r < length b" by (rule ConsumeVarint_shrinks [OF tag])
      have same: "unmarshal_loop n field r' m' = unmarshal_loop k' field r' m'" if "length r' \<le> length r" for r' m'
        using that r Suc.prems by (intro Suc.IH) (auto simp: k)
      have ok: "length r' \<le> length r" if "field num wtyp r m = FieldOk m' r'" for num wtyp m' r'
        using assms that by (auto simp: field_shrinks_def)
      have skip: "length r' \<le> length r" if "ConsumeFieldValue num wtyp r = Some r'" for num wtyp r'
        by (rule consume_shrinks(1) [OF that [unfolded ConsumeFieldValue_def]])
      show ?thesis
        using tag unfolding Cons k
        by (auto simp: Let_def intro!: same dest: ok skip split: field_result.split option.split)
    qed (simp add: Cons k)
  qed simp
qed (cases b; simp)

lemma consume_string_shrinks:
  "consume_string wtyp b set_field = FieldOk m' r \<Longrightarrow> length r \<le> length b"
  by (auto simp: consume_string_def split: if_splits option.splits dest: ConsumeBytes_shrinks)

lemma fields_shrink: "field_shrinks request_field" "field_shrinks entry_field" "field_shrinks response_field"
  by (auto simp: field_shrinks_def request_field_def entry_field_def response_field_def
      split: if_splits option.splits sum.splits dest: consume_string_shrinks ConsumeBytes_shrinks)

section \<open>What is written is read back\<close>

lemma consume_AppendVarint:
  "v * 2 ^ (7 * i) < 2 ^ 64 \<Longrightarrow> i \<le> 9 \<Longrightarrow>
     consume_varint i a (AppendVarint v @ r) = Some (a + v * 2 ^ (7 * i), r)"
proof (induction v arbitrary: i a rule: AppendVarint.induct)
  case (1 v)
  show ?case
  proof (cases "v < 128")
    case True
    have "v < 2" if "i = 9" using "1.prems" that by simp
    with True "1.prems" show ?thesis by (auto simp: AppendVarint.simps [of v] Let_def)
  next
    case False
    have "i \<noteq> 9" using "1.prems" False by (auto simp: not_less)
    with "1.prems" have i: "i < 9" by simp
    have "v div 128 * 128 \<le> v" by simp
    then have "v div 128 * 2 ^ (7 * Suc i) \<le> v * 2 ^ (7 * i)"
      by (simp add: power_add mult.assoc [symmetric])
    with "1.prems" i have "consume_varint (Suc i) (a + v mod 128 * 2 ^ (7 * i)) (AppendVarint (v div 128) @ r) =
        Some (a + v mod 128 * 2 ^ (7 * i) + v div 128 * 2 ^ (7 * Suc i), r)"
      by (intro "1.IH" [OF False]) auto
    moreover have "v mod 128 * 2 ^ (7 * i) + v div 128 * 2 ^ (7 * Suc i) = (v mod 128 + v div 128 * 128) * 2 ^ (7 * i)"
    proof -
      have "(2 :: nat) ^ (7 * Suc i) = 128 * 2 ^ (7 * i)" by (simp add: power_add)
      then show ?thesis by (simp only: distrib_right mult.assoc)
    qed
    then have "v mod 128 * 2 ^ (7 * i) + v div 128 * 2 ^ (7 * Suc i) = v * 2 ^ (7 * i)"
      by (simp only: mod_div_mult_eq)
    ultimately show ?thesis
      using False i by (simp add: AppendVarint.simps [of v] Let_def add.assoc del: mult_Suc_right)
  qed
qed

lemma ConsumeVarint_Append: "v < 2 ^ 64 \<Longrightarrow> ConsumeVarint (AppendVarint v @ r) = Some (v, r)"
  using consume_AppendVarint [of v 0 0 r] by (simp add: ConsumeVarint_def)

lemma ConsumeBytes_Append:
  "length v < 2 ^ 64 \<Longrightarrow> ConsumeBytes (AppendVarint (length v) @ v @ r) = Some (v, r)"
  by (simp add: ConsumeBytes_def ConsumeVarint_Append)

lemma AppendVarint_Cons: "\<exists>c b. AppendVarint v = c # b"
  by (subst AppendVarint.simps) auto

text \<open>A field that was written is one round of the reader, on the rest of the input.\<close>

lemma unmarshal_append:
  assumes "field_shrinks field" and "1 \<le> num" "num \<le> 15" "length v < 2 ^ 64"
    and "field num 2 (AppendVarint (length v) @ v @ r) m = FieldOk m' r"
  shows "unmarshal_loop (length (append_field num v @ r)) field (append_field num v @ r) m =
    unmarshal_loop (length r) field r m'"
proof -
  let ?b = "append_field num v @ r"
  have b: "?b = AppendVarint (num * 8 + 2) @ AppendVarint (length v) @ v @ r" by (simp add: append_field_def)
  obtain c b' where cb: "AppendVarint (num * 8 + 2) = c # b'" using AppendVarint_Cons by blast
  then have l: "length ?b = Suc (length (b' @ AppendVarint (length v) @ v @ r))" by (simp add: b)
  define T where T: "T = num * 8 + 2"
  have dm: "T div 8 = num" "T mod 8 = 2" unfolding T by presburger+
  have tag: "ConsumeVarint ?b = Some (T, AppendVarint (length v) @ v @ r)"
    using assms unfolding b T by (intro ConsumeVarint_Append) auto
  have "unmarshal_loop (length ?b) field ?b m =
      unmarshal_loop (length (b' @ AppendVarint (length v) @ v @ r)) field r m'"
    using tag assms(2,3,5) unfolding l unfolding b cb append_Cons unmarshal_loop.simps
    by (simp add: MaxValidNumber_def Let_def dm)
  also have "\<dots> = unmarshal_loop (length r) field r m'"
    by (rule unmarshal_fuel [OF assms(1)]) simp_all
  finally show ?thesis .
qed

lemma consume_string_append:
  "length v < 2 ^ 64 \<Longrightarrow> utf8_valid v \<Longrightarrow>
     consume_string 2 (AppendVarint (length v) @ v @ r) set_field = FieldOk (set_field v) r"
  by (simp add: consume_string_def ConsumeBytes_Append)

lemma unmarshal_request_nonempty:
  assumes "length v < 2 ^ 64" "utf8_valid v" "num = 1 \<or> num = 2 \<or> num = 3"
    and "\<And>r. request_field num 2 (AppendVarint (length v) @ v @ r) m = FieldOk m' r"
    and "v = '''' \<Longrightarrow> m' = m"
  shows "unmarshal_loop (length (append_nonempty num v @ r)) request_field (append_nonempty num v @ r) m =
    unmarshal_loop (length r) request_field r m'"
  using unmarshal_append [OF fields_shrink(1), of num v r m m'] assms
  by (cases "v = ''''") (auto simp: append_nonempty_def)

lemma unmarshal_nodes:
  assumes "\<forall>v \<in> set vs. utf8_valid v \<and> length v < 2 ^ 64"
  shows "unmarshal_loop (length (concat (map (append_field 4) vs))) request_field (concat (map (append_field 4) vs)) m =
    Inr (m\<lparr>req_EligibleNodes := req_EligibleNodes m @ vs\<rparr>)"
  using assms
proof (induction vs arbitrary: m)
  case (Cons v vs)
  have "request_field 4 2 (AppendVarint (length v) @ v @ r) m =
      FieldOk (m\<lparr>req_EligibleNodes := req_EligibleNodes m @ [v]\<rparr>) r" for r
    using Cons.prems by (simp add: request_field_def consume_string_append)
  with unmarshal_append [OF fields_shrink(1), of 4 v] Cons show ?case by simp
qed simp

text \<open>A message whose strings a process can hold.\<close>

definition request_fits :: "SchedulePlanRequest \<Rightarrow> bool" where
  "request_fits m \<longleftrightarrow> list_all (\<lambda>v. length v < 2 ^ 64)
     (req_Namespace m # req_PodSet m # req_ScheduledPod m # req_EligibleNodes m)"

lemma request_roundtrip:
  assumes "Marshal_request m = Inr b" and "request_fits m"
  shows "Unmarshal_request b = Inr m"
proof -
  have valid: "utf8_valid (req_Namespace m)" "utf8_valid (req_PodSet m)" "utf8_valid (req_ScheduledPod m)"
      "\<forall>v \<in> set (req_EligibleNodes m). utf8_valid v"
    and b: "b = append_nonempty 1 (req_Namespace m) @ append_nonempty 2 (req_PodSet m) @
      append_nonempty 3 (req_ScheduledPod m) @ concat (map (append_field 4) (req_EligibleNodes m))"
    using assms(1) by (auto simp: Marshal_request_def list_all_iff split: if_splits)
  let ?m1 = "new_request\<lparr>req_Namespace := req_Namespace m\<rparr>"
  let ?m2 = "?m1\<lparr>req_PodSet := req_PodSet m\<rparr>"
  let ?m3 = "?m2\<lparr>req_ScheduledPod := req_ScheduledPod m\<rparr>"
  note fits = assms(2) [unfolded request_fits_def, simplified]
  note step = request_field_def consume_string_append new_request_def
  have 1: "unmarshal_loop (length (append_nonempty 1 (req_Namespace m) @ r)) request_field
      (append_nonempty 1 (req_Namespace m) @ r) new_request = unmarshal_loop (length r) request_field r ?m1" for r
    by (rule unmarshal_request_nonempty) (use valid fits in \<open>auto simp: step\<close>)
  have 2: "unmarshal_loop (length (append_nonempty 2 (req_PodSet m) @ r)) request_field
      (append_nonempty 2 (req_PodSet m) @ r) ?m1 = unmarshal_loop (length r) request_field r ?m2" for r
    by (rule unmarshal_request_nonempty) (use valid fits in \<open>auto simp: step\<close>)
  have 3: "unmarshal_loop (length (append_nonempty 3 (req_ScheduledPod m) @ r)) request_field
      (append_nonempty 3 (req_ScheduledPod m) @ r) ?m2 = unmarshal_loop (length r) request_field r ?m3" for r
    by (rule unmarshal_request_nonempty) (use valid fits in \<open>auto simp: step\<close>)
  have "unmarshal_loop (length b) request_field b new_request =
      Inr (?m3\<lparr>req_EligibleNodes := req_EligibleNodes ?m3 @ req_EligibleNodes m\<rparr>)"
    unfolding b 1 2 3 using valid fits by (intro unmarshal_nodes) (simp add: list_all_iff)
  then show ?thesis by (simp add: Unmarshal_request_def new_request_def)
qed

definition response_fits :: "(string, string) gomap \<Rightarrow> bool" where
  "response_fits as \<longleftrightarrow> list_all (\<lambda>e. length (append_field 1 (fst e) @ append_field 2 (snd e)) < 2 ^ 64) as"

lemma entry_roundtrip:
  assumes "utf8_valid k" "utf8_valid v" "length (append_field 1 k @ append_field 2 v) < 2 ^ 64"
  shows "unmarshal_loop (length (append_field 1 k @ append_field 2 v)) entry_field
    (append_field 1 k @ append_field 2 v) ('''', '''') = Inr (k, v)"
proof -
  have l: "length k < 2 ^ 64" "length v < 2 ^ 64" using assms(3) by (simp_all add: append_field_def)
  have "unmarshal_loop (length (append_field 1 k @ append_field 2 v)) entry_field
      (append_field 1 k @ append_field 2 v) ('''', '''') =
    unmarshal_loop (length (append_field 2 v)) entry_field (append_field 2 v) (k, '''')"
    by (rule unmarshal_append [OF fields_shrink(2)])
      (use assms l in \<open>simp_all add: entry_field_def consume_string_append\<close>)
  moreover have "unmarshal_loop (length (append_field 2 v @ [])) entry_field (append_field 2 v @ []) (k, '''') =
      unmarshal_loop (length ([] :: string)) entry_field [] (k, v)"
    by (rule unmarshal_append [OF fields_shrink(2)])
      (use assms l consume_string_append [of v "[]"] in \<open>simp_all add: entry_field_def\<close>)
  ultimately show ?thesis by simp
qed

lemma unmarshal_entries:
  assumes "\<forall>e \<in> set as. utf8_valid (fst e) \<and> utf8_valid (snd e) \<and>
      length (append_field 1 (fst e) @ append_field 2 (snd e)) < 2 ^ 64"
    and "distinct (map fst (acc @ as))"
  shows "unmarshal_loop (length (concat (map append_entry as))) response_field (concat (map append_entry as)) acc =
    Inr (acc @ as)"
  using assms
proof (induction as arbitrary: acc)
  case (Cons e as)
  let ?v = "append_field 1 (fst e) @ append_field 2 (snd e)"
  have new: "AList.update (fst e) (snd e) acc = acc @ [e]"
    using Cons.prems(2) by (induction acc) auto
  have "response_field 1 2 (AppendVarint (length ?v) @ ?v @ r) acc = FieldOk (acc @ [e]) r" for r
    using Cons.prems(1) entry_roundtrip [of "fst e" "snd e"] ConsumeBytes_Append [of ?v r]
    by (simp add: response_field_def case_prod_beta new)
  with unmarshal_append [OF fields_shrink(3), of 1 ?v] Cons.prems(1)
  have "unmarshal_loop (length (append_entry e @ r)) response_field (append_entry e @ r) acc =
      unmarshal_loop (length r) response_field r (acc @ [e])" for r
    by (simp add: append_entry_def)
  with Cons.IH [of "acc @ [e]"] Cons.prems show ?case by simp
qed simp

lemma response_roundtrip:
  assumes "Marshal_response as = Inr b" and "response_fits as" and "distinct (map fst as)"
  shows "Unmarshal_response b = Inr as"
proof -
  have "b = concat (map append_entry as)" "\<forall>e \<in> set as. utf8_valid (fst e) \<and> utf8_valid (snd e)"
    using assms(1) by (auto simp: Marshal_response_def list_all_iff split: if_splits)
  with unmarshal_entries [of as "[]"] assms(2,3) show ?thesis
    by (simp add: Unmarshal_response_def response_fits_def list_all_iff)
qed

end
