(* ===== verification/Json.thy ===== *)
theory Json
  imports Wire Version
begin

text \<open>
  The JSON form of the version report: \<^verbatim>\<open>json.Marshal\<close> of the standard library on the struct
  \<^verbatim>\<open>version.Spec\<close>, whose fields are left out when empty. Strings are escaped as the encoder does for
  HTML safety; bytes that are not valid UTF-8 become the replacement character.
\<close>

section \<open>Strings\<close>

definition hex_digit :: "nat \<Rightarrow> char" where
  "hex_digit n = ''0123456789abcdef'' ! n"

definition json_byte :: "char \<Rightarrow> string" where
  "json_byte c =
     (let b = of_char c :: nat; bs = CHR 0x5C
      in if c = CHR 0x22 \<or> c = bs then [bs, c]
         else if b = 10 then [bs, CHR ''n'']
         else if b = 13 then [bs, CHR ''r'']
         else if b = 9 then [bs, CHR ''t'']
         else if b < 32 \<or> c \<in> set ''<>&'' then [bs] @ ''u00'' @ [hex_digit (b div 16), hex_digit (b mod 16)]
         else [c])"

text \<open>The bytes of the first character, 0 when it is not valid.\<close>

definition second_of_three :: "char \<Rightarrow> char \<Rightarrow> bool" where
  "second_of_three a b =
     (if byte_in 224 224 a then byte_in 160 191 b
      else if byte_in 237 237 a then byte_in 128 159 b else continuation b)"

definition second_of_four :: "char \<Rightarrow> char \<Rightarrow> bool" where
  "second_of_four a b =
     (if byte_in 240 240 a then byte_in 144 191 b
      else if byte_in 244 244 a then byte_in 128 143 b else continuation b)"

fun rune_size :: "string \<Rightarrow> nat" where
  "rune_size [] = 0"
| "rune_size (a # s) =
     (if of_char a < (128 :: nat) then 1
      else case s of
        [] \<Rightarrow> 0
      | b # t \<Rightarrow>
          if byte_in 194 223 a then (if continuation b then 2 else 0)
          else (case t of
            [] \<Rightarrow> 0
          | c # u \<Rightarrow>
              if byte_in 224 239 a then (if second_of_three a b \<and> continuation c then 3 else 0)
              else (case u of
                [] \<Rightarrow> 0
              | d # v \<Rightarrow>
                  if byte_in 240 244 a \<and> second_of_four a b \<and> continuation c \<and> continuation d then 4 else 0)))"

text \<open>U+2028 and U+2029 are escaped too.\<close>

definition json_rune :: "string \<Rightarrow> string" where
  "json_rune r =
     (if r = [CHR 0xE2, CHR 0x80, CHR 0xA8] then CHR 0x5C # ''u2028''
      else if r = [CHR 0xE2, CHR 0x80, CHR 0xA9] then CHR 0x5C # ''u2029''
      else r)"

function json_chars :: "string \<Rightarrow> string" where
  "json_chars s =
     (case s of
        [] \<Rightarrow> []
      | c # r \<Rightarrow>
          if of_char c < (128 :: nat) then json_byte c @ json_chars r
          else if rune_size s = 0 then (CHR 0x5C # ''ufffd'') @ json_chars r
          else json_rune (take (rune_size s) s) @ json_chars (drop (rune_size s) s))"
  by pat_completeness auto

termination by (relation "measure length") (auto simp del: rune_size.simps)

declare json_chars.simps [simp del]

definition json_string :: "string \<Rightarrow> string" where
  "json_string s = [CHR 0x22] @ json_chars s @ [CHR 0x22]"

section \<open>The report\<close>

definition json_field :: "string \<Rightarrow> string \<Rightarrow> string list" where
  "json_field name s = (if s = '''' then [] else [json_string name @ '':'' @ json_string s])"

definition json_Marshal :: "Spec \<Rightarrow> string" where
  "json_Marshal v =
     ''{'' @ strings_Join
       (json_field ''version'' (Version v) @ json_field ''vcsUrl'' (VcsURL v) @ json_field ''vcsRef'' (VcsRef v) @
        json_field ''vcsCommitDate'' (VcsCommitDate v) @
        (case VcsDirty v of None \<Rightarrow> [] | Some d \<Rightarrow> [json_string ''vcsDirty'' @ '':'' @ sprint_bool d]) @
        json_field ''goVersion'' (GoVersion v) @ json_field ''os'' (OS v) @ json_field ''arch'' (Arch v) @
        json_field ''buildDate'' (BuildDate v)) '','' @ ''}''"

section \<open>The report is one line\<close>

text \<open>No control character is left in the output, so the line that is printed is the whole report.\<close>

abbreviation printable :: "char \<Rightarrow> bool" where
  "printable c \<equiv> 32 \<le> (of_char c :: nat)"

lemma hex_digit_printable: "n < 16 \<Longrightarrow> printable (hex_digit n)"
proof -
  have "list_all printable ''0123456789abcdef''" by code_simp
  then show "n < 16 \<Longrightarrow> printable (hex_digit n)" by (simp only: hex_digit_def list_all_length) simp
qed

lemma json_byte_printable: "list_all printable (json_byte c)"
proof -
  have "(of_char c :: nat) div 16 < 16" using nat_of_char_less_256 [of c] by (intro less_mult_imp_div_less) simp
  then show ?thesis by (simp add: json_byte_def Let_def hex_digit_printable)
qed

lemma byte_in_high: "byte_in lo hi c \<Longrightarrow> 128 \<le> lo \<Longrightarrow> 128 \<le> (of_char c :: nat)"
  by (simp add: byte_in_def)

lemma continuation_high: "continuation c \<Longrightarrow> 128 \<le> (of_char c :: nat)"
  by (simp add: byte_in_def)

lemma second_high:
  "second_of_three a b \<Longrightarrow> 128 \<le> (of_char b :: nat)" "second_of_four a b \<Longrightarrow> 128 \<le> (of_char b :: nat)"
  by (auto simp: second_of_three_def second_of_four_def dest: byte_in_high split: if_splits)

lemma rune_size_high:
  assumes "\<not> of_char c < (128 :: nat)"
  shows "list_all (\<lambda>d. 128 \<le> (of_char d :: nat)) (take (rune_size (c # r)) (c # r))"
proof (cases r)
  case (Cons b t)
  show ?thesis
  proof (cases t)
    case Nil
    then show ?thesis using assms by (auto simp: Cons dest: continuation_high)
  next
    case (Cons c' u)
    then show ?thesis using assms \<open>r = b # t\<close>
      by (cases u) (auto dest: continuation_high second_high)
  qed
qed (use assms in simp)

lemma json_chars_printable: "list_all printable (json_chars s)"
proof (induction s rule: json_chars.induct)
  case (1 s)
  show ?case
  proof (cases s)
    case (Cons c r)
    have "list_all printable (json_rune (take (rune_size s) s))" if "\<not> of_char c < (128 :: nat)" "rune_size s \<noteq> 0"
      using rune_size_high [of c r] that
      by (auto simp: json_rune_def list_all_iff Cons simp del: rune_size.simps intro: order_trans [of 32 128])
    with 1 Cons show ?thesis by (subst json_chars.simps) (auto simp: json_byte_printable)
  qed (simp add: json_chars.simps)
qed

lemma Join_printable:
  "list_all (list_all printable) ls \<Longrightarrow> list_all printable sep \<Longrightarrow> list_all printable (strings_Join ls sep)"
  by (induction ls sep rule: strings_Join.induct) simp_all

lemma json_string_printable: "list_all printable (json_string s)"
  by (simp add: json_string_def json_chars_printable)

lemma json_Marshal_printable: "list_all printable (json_Marshal v)"
proof -
  have f: "list_all (list_all printable) (json_field name s)" for name s
    by (simp add: json_field_def json_string_printable)
  have d: "list_all (list_all printable) (case VcsDirty v of None \<Rightarrow> []
      | Some d \<Rightarrow> [json_string ''vcsDirty'' @ '':'' @ sprint_bool d])"
    by (simp add: json_string_printable sprint_bool_def split: option.split)
  show ?thesis unfolding json_Marshal_def list_all_append
    by (intro conjI Join_printable) (simp_all add: f d)
qed

end
