(* ===== verification/Rpc.thy ===== *)
theory Rpc
  imports Wire
begin

text \<open>
  The planner's gRPC interface: the generated stubs of \<^verbatim>\<open>pkg/apis/planner/planner.pb.go\<close>, the
  server of \<^verbatim>\<open>internal/pkg/planner/api.go\<close>, and between them what the vendored
  \<^verbatim>\<open>google.golang.org/grpc\<close> does with a unary call: it encodes the request, finds the handler by
  the name of the method, decodes, and takes the answer back the same way, with the default
  limit of four MiB on a received message. Connections, deadlines and the framing of messages
  are left out. So is the percent-encoding of a status message by the transport (\<^verbatim>\<open>encodeGrpcMessage\<close> and
  \<^verbatim>\<open>decodeGrpcMessage\<close> of \<^verbatim>\<open>http_util.go\<close>): together they give back every message that is valid UTF-8, and replace
  the other bytes. The theorem is that a call through the stubs is a call of the implementation.

  \<open>wire_text\<close> stands for the texts of the errors of the protocol buffer library.
\<close>

section \<open>Generated accessors\<close>

text \<open>A message is passed by pointer; the accessors accept the nil pointer, \<open>None\<close>.\<close>

definition GetNamespace :: "SchedulePlanRequest option \<Rightarrow> string" where
  "GetNamespace m = (case m of Some r \<Rightarrow> req_Namespace r | None \<Rightarrow> '''')"

definition GetPodSet :: "SchedulePlanRequest option \<Rightarrow> string" where
  "GetPodSet m = (case m of Some r \<Rightarrow> req_PodSet r | None \<Rightarrow> '''')"

definition GetScheduledPod :: "SchedulePlanRequest option \<Rightarrow> string" where
  "GetScheduledPod m = (case m of Some r \<Rightarrow> req_ScheduledPod r | None \<Rightarrow> '''')"

definition GetEligibleNodes :: "SchedulePlanRequest option \<Rightarrow> string list" where
  "GetEligibleNodes m = (case m of Some r \<Rightarrow> req_EligibleNodes r | None \<Rightarrow> [])"

definition GetAssignments :: "(string, string) gomap option \<Rightarrow> (string, string) gomap" where
  "GetAssignments m = (case m of Some r \<Rightarrow> r | None \<Rightarrow> [])"

definition Request_Reset :: "SchedulePlanRequest \<Rightarrow> SchedulePlanRequest" where
  "Request_Reset m = new_request"

section \<open>Servers\<close>

datatype grpc_code = Unknown | Internal | Unimplemented | ResourceExhausted

record rpc_status =
  rs_Code :: grpc_code
  rs_Message :: string

type_synonym 's rpc_result = "(rpc_status + (string, string) gomap) \<times> 's"

text \<open>An implementation of the interface \<^verbatim>\<open>SchedulePlannerServer\<close> on a state \<open>'s\<close>.\<close>

type_synonym 's SchedulePlannerServer = "SchedulePlanRequest \<Rightarrow> 's \<Rightarrow> 's rpc_result"

definition Unimplemented_BuildSchedulePlan :: "'s SchedulePlannerServer" where
  "Unimplemented_BuildSchedulePlan req s =
     (Inl \<lparr>rs_Code = Unimplemented, rs_Message = ''method BuildSchedulePlan not implemented''\<rparr>, s)"

text \<open>The method \<^verbatim>\<open>BuildSchedulePlan\<close> of the API server, on the planner's remembered assignments.\<close>

definition APIServer_service ::
  "PredicateHandler \<Rightarrow> (string \<Rightarrow> string \<Rightarrow> err + Pod list) \<Rightarrow> err + Node list \<Rightarrow> (Pod \<Rightarrow> plan_env) \<Rightarrow>
     assignments SchedulePlannerServer" where
  "APIServer_service ph listPods nodeLister envs req m =
     (case APIServer_BuildSchedulePlan ph listPods nodeLister envs req m of
        (Inl msg, m') \<Rightarrow> (Inl \<lparr>rs_Code = Internal, rs_Message = msg\<rparr>, m')
      | (Inr as, m') \<Rightarrow> (Inr as, m'))"

definition FullMethod :: string where
  "FullMethod = ''/planner.SchedulePlanner/BuildSchedulePlan''"

type_synonym 's interceptor =
  "SchedulePlanRequest \<Rightarrow> string \<Rightarrow> 's SchedulePlannerServer \<Rightarrow> 's \<Rightarrow> 's rpc_result"

text \<open>The generated handler; \<open>dec\<close> is the outcome of decoding into a new request.\<close>

definition BuildSchedulePlan_Handler ::
  "'s SchedulePlannerServer \<Rightarrow> rpc_status + SchedulePlanRequest \<Rightarrow> 's interceptor option \<Rightarrow> 's \<Rightarrow> 's rpc_result" where
  "BuildSchedulePlan_Handler srv dec interceptor s =
     (case dec of
        Inl e \<Rightarrow> (Inl e, s)
      | Inr req \<Rightarrow>
          (case interceptor of
             None \<Rightarrow> srv req s
           | Some f \<Rightarrow> f req FullMethod srv s))"

type_synonym 's method_handler =
  "'s SchedulePlannerServer \<Rightarrow> rpc_status + SchedulePlanRequest \<Rightarrow> 's interceptor option \<Rightarrow> 's \<Rightarrow> 's rpc_result"

record 's service_desc =
  sd_ServiceName :: string
  sd_Methods :: "(string \<times> 's method_handler) list"

definition SchedulePlanner_serviceDesc :: "'s service_desc" where
  "SchedulePlanner_serviceDesc =
     \<lparr>sd_ServiceName = ''planner.SchedulePlanner'',
      sd_Methods = [(''BuildSchedulePlan'', BuildSchedulePlan_Handler)]\<rparr>"

record 's grpc_server =
  gs_serving :: bool
  gs_services :: "string \<rightharpoonup> (('s SchedulePlannerServer) \<times> (string \<rightharpoonup> 's method_handler))"

definition NewServer :: "'s grpc_server" where
  "NewServer = \<lparr>gs_serving = False, gs_services = Map.empty\<rparr>"

text \<open>The vendored \<^verbatim>\<open>register\<close>; \<open>None\<close> is the fatal exit of the process.\<close>

definition RegisterService :: "'s grpc_server \<Rightarrow> 's service_desc \<Rightarrow> 's SchedulePlannerServer \<Rightarrow> 's grpc_server option" where
  "RegisterService s sd srv =
     (if gs_serving s then None
      else if gs_services s (sd_ServiceName sd) \<noteq> None then None
      else Some (s\<lparr>gs_services := (gs_services s)(sd_ServiceName sd \<mapsto> (srv, map_of (sd_Methods sd)))\<rparr>))"

definition RegisterSchedulePlannerServer :: "'s grpc_server \<Rightarrow> 's SchedulePlannerServer \<Rightarrow> 's grpc_server option" where
  "RegisterSchedulePlannerServer s srv = RegisterService s SchedulePlanner_serviceDesc srv"

text \<open>
  \<^verbatim>\<open>reflection.Register\<close> adds a service with one streaming method, which no unary call reaches.
\<close>

definition reflection_Register :: "'s grpc_server \<Rightarrow> 's grpc_server option" where
  "reflection_Register s =
     RegisterService s \<lparr>sd_ServiceName = ''grpc.reflection.v1alpha.ServerReflection'', sd_Methods = []\<rparr>
       Unimplemented_BuildSchedulePlan"

text \<open>
  \<^verbatim>\<open>Run\<close> up to the point where it serves: the error of \<^verbatim>\<open>net.Listen\<close>, the exit of a failed
  registration, or the server that accepts calls.
\<close>

datatype 's run_outcome = RunError err | RunFatal | Serving "'s grpc_server"

definition APIServer_Run :: "(string \<Rightarrow> err option) \<Rightarrow> string \<Rightarrow> 's SchedulePlannerServer \<Rightarrow> 's run_outcome" where
  "APIServer_Run net_Listen address a =
     (case net_Listen address of
        Some e \<Rightarrow> RunError (Wrapped (''error listening on '' @ address @ '': '') e)
      | None \<Rightarrow>
          (case RegisterSchedulePlannerServer NewServer a of
             None \<Rightarrow> RunFatal
           | Some s \<Rightarrow>
               (case reflection_Register s of
                  None \<Rightarrow> RunFatal
                | Some s' \<Rightarrow> Serving (s'\<lparr>gs_serving := True\<rparr>))))"

section \<open>A call\<close>

definition maxReceiveMessageSize :: nat where
  "maxReceiveMessageSize = 1024 * 1024 * 4"

definition too_large :: "string \<Rightarrow> rpc_status" where
  "too_large b = \<lparr>rs_Code = ResourceExhausted,
     rs_Message = ''grpc: received message larger than max ('' @ sprint_nat (length b) @ '' vs. '' @
       sprint_nat maxReceiveMessageSize @ '')''\<rparr>"

text \<open>The service and the method in a path: around its last slash, without a leading one.\<close>

definition split_method :: "string \<Rightarrow> (string \<times> string) option" where
  "split_method path =
     (let sm = (case path of c # r \<Rightarrow> if c = CHR ''/'' then r else path | [] \<Rightarrow> path);
          method = rev (takeWhile (\<lambda>c. c \<noteq> CHR ''/'') (rev sm))
      in if CHR ''/'' \<notin> set sm then None
         else Some (take (length sm - length method - 1) sm, method))"

text \<open>The server's side, \<^verbatim>\<open>handleStream\<close> and \<^verbatim>\<open>processUnaryRPC\<close>, without interceptors.\<close>

definition handleStream ::
  "(wire_error \<Rightarrow> string) \<Rightarrow> 's grpc_server \<Rightarrow> string \<Rightarrow> string \<Rightarrow> 's \<Rightarrow> (rpc_status + string) \<times> 's" where
  "handleStream wire_text server path payload s =
     (case split_method path of
        None \<Rightarrow> (Inl \<lparr>rs_Code = Unimplemented, rs_Message = ''malformed method name: '' @ [CHR 0x22] @ path @ [CHR 0x22]\<rparr>, s)
      | Some (service, method) \<Rightarrow>
          (case gs_services server service of
             None \<Rightarrow> (Inl \<lparr>rs_Code = Unimplemented, rs_Message = ''unknown service '' @ service\<rparr>, s)
           | Some (srv, methods) \<Rightarrow>
               (case methods method of
                  None \<Rightarrow> (Inl \<lparr>rs_Code = Unimplemented,
                     rs_Message = ''unknown method '' @ method @ '' for service '' @ service\<rparr>, s)
                | Some handler \<Rightarrow>
                    if length payload > maxReceiveMessageSize then (Inl (too_large payload), s)
                    else
                      let dec = (case Unmarshal_request payload of
                            Inl e \<Rightarrow> Inl \<lparr>rs_Code = Internal,
                              rs_Message = ''grpc: error unmarshalling request: '' @ wire_text e\<rparr>
                          | Inr req \<Rightarrow> Inr req)
                      in (case handler srv dec None s of
                            (Inl st, s') \<Rightarrow> (Inl st, s')
                          | (Inr as, s') \<Rightarrow>
                              (case Marshal_response as of
                                 Inl e \<Rightarrow> (Inl \<lparr>rs_Code = Internal,
                                   rs_Message = ''grpc: error while marshaling: '' @ wire_text e\<rparr>, s')
                               | Inr b \<Rightarrow> (Inr b, s'))))))"

text \<open>The client's side, \<^verbatim>\<open>ClientConn.Invoke\<close>, over a connection to \<open>server\<close>.\<close>

definition cc_Invoke ::
  "(wire_error \<Rightarrow> string) \<Rightarrow> 's grpc_server \<Rightarrow> string \<Rightarrow> SchedulePlanRequest \<Rightarrow> 's \<Rightarrow> 's rpc_result" where
  "cc_Invoke wire_text server path req s =
     (case Marshal_request req of
        Inl e \<Rightarrow> (Inl \<lparr>rs_Code = Internal, rs_Message = ''grpc: error while marshaling: '' @ wire_text e\<rparr>, s)
      | Inr payload \<Rightarrow>
          (case handleStream wire_text server path payload s of
             (Inl st, s') \<Rightarrow> (Inl st, s')
           | (Inr b, s') \<Rightarrow>
               if length b > maxReceiveMessageSize then (Inl (too_large b), s')
               else (case Unmarshal_response b of
                       Inl e \<Rightarrow> (Inl \<lparr>rs_Code = Internal,
                         rs_Message = ''grpc: failed to unmarshal the received message '' @ wire_text e\<rparr>, s')
                     | Inr as \<Rightarrow> (Inr as, s'))))"

text \<open>The generated client stub.\<close>

definition schedulePlannerClient_BuildSchedulePlan ::
  "(wire_error \<Rightarrow> string) \<Rightarrow> 's grpc_server \<Rightarrow> SchedulePlanRequest \<Rightarrow> 's \<Rightarrow> 's rpc_result" where
  "schedulePlannerClient_BuildSchedulePlan wire_text server req s =
     (case cc_Invoke wire_text server FullMethod req s of
        (Inl err, s') \<Rightarrow> (Inl err, s')
      | (Inr out, s') \<Rightarrow> (Inr out, s'))"

section \<open>The server that runs\<close>

lemma APIServer_Run_serves:
  "APIServer_Run net_Listen address srv =
     (case net_Listen address of
        Some e \<Rightarrow> RunError (Wrapped (''error listening on '' @ address @ '': '') e)
      | None \<Rightarrow> Serving \<lparr>gs_serving = True, gs_services =
          [''planner.SchedulePlanner'' \<mapsto> (srv, [''BuildSchedulePlan'' \<mapsto> BuildSchedulePlan_Handler]),
           ''grpc.reflection.v1alpha.ServerReflection'' \<mapsto> (Unimplemented_BuildSchedulePlan, Map.empty)]\<rparr>)"
  by (simp add: APIServer_Run_def RegisterSchedulePlannerServer_def RegisterService_def NewServer_def
      SchedulePlanner_serviceDesc_def reflection_Register_def split: option.split)

lemma Serving_planner:
  "APIServer_Run net_Listen address srv = Serving server \<Longrightarrow>
     gs_services server ''planner.SchedulePlanner'' =
       Some (srv, [''BuildSchedulePlan'' \<mapsto> BuildSchedulePlan_Handler])"
  by (auto simp: APIServer_Run_serves split: option.splits)

lemma split_FullMethod: "split_method FullMethod = Some (''planner.SchedulePlanner'', ''BuildSchedulePlan'')"
  by code_simp

lemma handleStream_planner:
  assumes "APIServer_Run net_Listen address srv = Serving server"
  shows "handleStream wire_text server FullMethod payload s =
    (if length payload > maxReceiveMessageSize then (Inl (too_large payload), s)
     else case Unmarshal_request payload of
       Inl e \<Rightarrow> (Inl \<lparr>rs_Code = Internal, rs_Message = ''grpc: error unmarshalling request: '' @ wire_text e\<rparr>, s)
     | Inr req \<Rightarrow>
         (case srv req s of
            (Inl st, s') \<Rightarrow> (Inl st, s')
          | (Inr as, s') \<Rightarrow>
              (case Marshal_response as of
                 Inl e \<Rightarrow> (Inl \<lparr>rs_Code = Internal, rs_Message = ''grpc: error while marshaling: '' @ wire_text e\<rparr>, s')
               | Inr b \<Rightarrow> (Inr b, s'))))"
  by (simp add: handleStream_def split_FullMethod Serving_planner [OF assms] BuildSchedulePlan_Handler_def
      Let_def split: sum.split prod.split)

section \<open>A call through the stubs is a call of the implementation\<close>

text \<open>Messages that can be sent: valid strings, and an encoding within the limit of the receiver.\<close>

definition sendable_request :: "SchedulePlanRequest \<Rightarrow> bool" where
  "sendable_request req = (case Marshal_request req of Inl _ \<Rightarrow> False | Inr b \<Rightarrow> length b \<le> maxReceiveMessageSize)"

definition sendable_response :: "(string, string) gomap \<Rightarrow> bool" where
  "sendable_response as = (case Marshal_response as of Inl _ \<Rightarrow> False | Inr b \<Rightarrow> length b \<le> maxReceiveMessageSize)"

lemma length_append_field: "length v \<le> length (append_field num v)"
  by (simp add: append_field_def)

lemma length_append_nonempty: "length v \<le> length (append_nonempty num v)"
  by (simp add: append_nonempty_def length_append_field)

lemma length_concat_member: "x \<in> set xs \<Longrightarrow> length (f x) \<le> length (concat (map f xs))"
  by (induction xs) auto

lemma sendable_request_fits:
  assumes "sendable_request req"
  obtains b where "Marshal_request req = Inr b" "length b \<le> maxReceiveMessageSize" "request_fits req"
proof -
  from assms obtain b where b: "Marshal_request req = Inr b" "length b \<le> maxReceiveMessageSize"
    by (auto simp: sendable_request_def split: sum.splits)
  have "length v \<le> length b" if "v \<in> set (req_Namespace req # req_PodSet req # req_ScheduledPod req # req_EligibleNodes req)" for v
  proof -
    have "length v \<le> length (concat (map (append_field 4) (req_EligibleNodes req)))" if "v \<in> set (req_EligibleNodes req)"
      using length_append_field length_concat_member [OF that, of "append_field 4"] by (rule order_trans)
    with that b(1) length_append_nonempty [of v 1] length_append_nonempty [of v 2] length_append_nonempty [of v 3]
    show ?thesis by (auto simp: Marshal_request_def split: if_splits)
  qed
  then have "request_fits req"
    using b(2) by (fastforce simp: request_fits_def list_all_iff maxReceiveMessageSize_def)
  with b that show thesis by blast
qed

lemma sendable_response_fits:
  assumes "sendable_response as"
  obtains b where "Marshal_response as = Inr b" "length b \<le> maxReceiveMessageSize" "response_fits as"
proof -
  from assms obtain b where b: "Marshal_response as = Inr b" "length b \<le> maxReceiveMessageSize"
    by (auto simp: sendable_response_def split: sum.splits)
  have "length (append_field 1 (fst e) @ append_field 2 (snd e)) \<le> length b" if "e \<in> set as" for e
  proof -
    have "length (append_field 1 (fst e) @ append_field 2 (snd e)) \<le> length (append_entry e)"
      unfolding append_entry_def by (rule length_append_field)
    also have "\<dots> \<le> length b"
      using b(1) length_concat_member [OF that, of append_entry] by (auto simp: Marshal_response_def split: if_splits)
    finally show ?thesis .
  qed
  then have "response_fits as"
    using b(2) by (fastforce simp: response_fits_def list_all_iff maxReceiveMessageSize_def)
  with b that show thesis by blast
qed

lemma remote_call_direct:
  assumes run: "APIServer_Run net_Listen address srv = Serving server"
    and req: "sendable_request req"
    and res: "srv req s = (res, s')"
    and ans: "\<forall>as. res = Inr as \<longrightarrow> sendable_response as \<and> distinct (map fst as)"
  shows "schedulePlannerClient_BuildSchedulePlan wire_text server req s = (res, s')"
proof -
  obtain b where b: "Marshal_request req = Inr b" "length b \<le> maxReceiveMessageSize" "Unmarshal_request b = Inr req"
    using sendable_request_fits [OF req] request_roundtrip by metis
  show ?thesis
  proof (cases res)
    case (Inl st)
    with b res show ?thesis
      by (simp add: schedulePlannerClient_BuildSchedulePlan_def cc_Invoke_def handleStream_planner [OF run])
  next
    case (Inr as)
    then obtain c where c: "Marshal_response as = Inr c" "length c \<le> maxReceiveMessageSize" "Unmarshal_response c = Inr as"
      using ans sendable_response_fits [of as] response_roundtrip by metis
    with b res Inr show ?thesis
      by (simp add: schedulePlannerClient_BuildSchedulePlan_def cc_Invoke_def handleStream_planner [OF run])
  qed
qed

text \<open>
  A call of the generated client stub, to the server that \<^verbatim>\<open>Run\<close> starts, has exactly the
  outcome and the effect of the server's own method on the same request: encoding, dispatch by
  method name, decoding and the way back change nothing, for requests and answers whose strings
  are valid UTF-8 and whose encodings stay within four MiB.
\<close>

theorem remote_call_is_direct:
  assumes run: "APIServer_Run net_Listen address srv = Serving server"
    and req: "sendable_request req"
    and res: "srv req s = (res, s')"
    and ans: "\<forall>as. res = Inr as \<longrightarrow> sendable_response as \<and> distinct (map fst as)"
  shows "schedulePlannerClient_BuildSchedulePlan wire_text server req s = (res, s')"
  using assms by (rule remote_call_direct)

definition ex_request :: SchedulePlanRequest where
  "ex_request = \<lparr>req_Namespace = ''ns'', req_PodSet = ''web'', req_ScheduledPod = '''', req_EligibleNodes = [''n1'', '''']\<rparr>"

definition ex_service :: "nat SchedulePlannerServer" where
  "ex_service req s = (Inr [(''a'', ''n1'')], s + 1)"

definition ex_server :: "nat grpc_server" where
  "ex_server = \<lparr>gs_serving = True, gs_services =
     [''planner.SchedulePlanner'' \<mapsto> (ex_service, [''BuildSchedulePlan'' \<mapsto> BuildSchedulePlan_Handler]),
      ''grpc.reflection.v1alpha.ServerReflection'' \<mapsto> (Unimplemented_BuildSchedulePlan, Map.empty)]\<rparr>"

lemma ex_server_runs: "APIServer_Run (\<lambda>_. None) '':7777'' ex_service = Serving ex_server"
  by (simp add: APIServer_Run_serves ex_server_def)

theorem remote_call_is_direct_witness:
  "schedulePlannerClient_BuildSchedulePlan (\<lambda>_. '''') ex_server ex_request 4 = (Inr [(''a'', ''n1'')], 5)"
proof (rule remote_call_is_direct [OF ex_server_runs])
  have "Marshal_request ex_request = Inr (concat [[CHR 0x0A, CHR 0x02], ''ns'', [CHR 0x12, CHR 0x03], ''web'',
      [CHR 0x22, CHR 0x02], ''n1'', [CHR 0x22, CHR 0x00]])" by code_simp
  then show "sendable_request ex_request" by (simp add: sendable_request_def maxReceiveMessageSize_def)
  show "ex_service ex_request 4 = (Inr [(''a'', ''n1'')], 5)" by (simp add: ex_service_def)
  have "Marshal_response [(''a'', ''n1'')] = Inr (concat [[CHR 0x0A, CHR 0x07, CHR 0x0A, CHR 0x01], ''a'', [CHR 0x12, CHR 0x02], ''n1''])"
    by code_simp
  then show "\<forall>as. Inr [(''a'', ''n1'')] = (Inr as :: rpc_status + (string, string) gomap) \<longrightarrow>
      sendable_response as \<and> distinct (map fst as)"
    by (simp add: sendable_response_def maxReceiveMessageSize_def)
qed

text \<open>
  A request that is too large for the server, or that is not valid UTF-8, is answered with an
  error, and the planner does not see it: its state does not change.
\<close>

theorem unsendable_request_rejected:
  assumes "APIServer_Run net_Listen address srv = Serving server" and "\<not> sendable_request req"
  shows "\<exists>st. schedulePlannerClient_BuildSchedulePlan wire_text server req s = (Inl st, s) \<and>
    rs_Code st \<in> {Internal, ResourceExhausted}"
  using assms(2)
  by (auto simp: sendable_request_def schedulePlannerClient_BuildSchedulePlan_def cc_Invoke_def too_large_def
      handleStream_planner [OF assms(1)] split: sum.splits)

theorem unsendable_request_rejected_witness:
  "\<exists>st. schedulePlannerClient_BuildSchedulePlan (\<lambda>_. '''') ex_server (ex_request\<lparr>req_PodSet := [CHR 0xFF]\<rparr>) 4 =
     (Inl st, 4) \<and> rs_Code st \<in> {Internal, ResourceExhausted}"
proof (rule unsendable_request_rejected [OF ex_server_runs])
  have "\<not> utf8_valid [CHR 0xFF]" by code_simp
  then show "\<not> sendable_request (ex_request\<lparr>req_PodSet := [CHR 0xFF]\<rparr>)"
    by (simp add: sendable_request_def Marshal_request_def)
qed

end
