(* ===== verification/TriggerController.thy ===== *)
theory TriggerController
  imports TriggerClient Duration
begin

text \<open>
  The reconciler of schedule triggers
  (\<^verbatim>\<open>controllers/planner/scheduletrigger_controller.go\<close>) and its quiet timers.

  A \<^verbatim>\<open>triggerReference\<close> lives as long as the goroutine \<^verbatim>\<open>quietTimer\<close> that was started
  with it; references are numbered in the order of their creation. A Go timer is a flag
  \<open>running\<close> and a channel of capacity one, \<open>fired\<close> when it holds a value. Sending on the
  unbuffered channel \<^verbatim>\<open>timerQuit\<close> blocks until the goroutine receives, with the mutex held:
  the reconciler is then \<open>sending\<close>. Time, the goroutines, the requests to reconcile and other
  clients of the API server interleave as the steps of \<open>controller_step\<close>.
\<close>

section \<open>State\<close>

definition Planning :: string where
  "Planning = ''Planning''"

definition Schedule :: string where
  "Schedule = ''Schedule''"

datatype quiet_loop = Selecting | Transitioning | Returned

record triggerReference =
  running :: bool                  \<comment> \<open>timer: will expire\<close>
  fired :: bool                    \<comment> \<open>timer.C holds a value\<close>
  duration :: int
  loop_at :: quiet_loop            \<comment> \<open>where the goroutine quietTimer is\<close>
  loop_trigger :: ScheduleTrigger  \<comment> \<open>the trigger quietTimer was started with\<close>

type_synonym 's callback = "ScheduleTrigger \<Rightarrow> 's \<Rightarrow> 's"

text \<open>\<open>server\<close> is the state of the API server and of whatever the callbacks change.\<close>

record 's ScheduleTriggerReconciler =
  server :: 's
  scheduleTriggerMap :: "NamespacedName \<rightharpoonup> nat"
  refs :: "triggerReference list"
  triggerCallbacks :: "'s callback option list"
  sending :: "(NamespacedName \<times> nat) option"

type_synonym 's reconciler = "'s ScheduleTriggerReconciler"

section \<open>Operations\<close>

text \<open>Move the trigger of a quiet timer to the state \<open>Schedule\<close>, through the API server.\<close>

definition transitionToSchedule :: "'s trigger_kube \<Rightarrow> ScheduleTrigger \<Rightarrow> 's \<Rightarrow> 's" where
  "transitionToSchedule tk triggerRef s =
     (case tk_Get tk (trigger_key triggerRef) s of
        Inl _ \<Rightarrow> s
      | Inr trigger \<Rightarrow>
          if trig_State trigger = Schedule then s
          else snd (tk_Update tk (trigger\<lparr>trig_State := Schedule\<rparr>) s))"

definition with_ref :: "nat \<Rightarrow> (triggerReference \<Rightarrow> triggerReference) \<Rightarrow> 's reconciler \<Rightarrow> 's reconciler" where
  "with_ref i f r = r\<lparr>refs := (refs r)[i := f (refs r ! i)]\<rparr>"

text \<open>\<^verbatim>\<open>timer.Reset\<close> and \<^verbatim>\<open>timer.Stop\<close>: a value already in the channel stays there.\<close>

definition timer_Reset :: "triggerReference \<Rightarrow> triggerReference" where
  "timer_Reset ref = ref\<lparr>running := True\<rparr>"

definition timer_Stop :: "triggerReference \<Rightarrow> triggerReference" where
  "timer_Stop ref = ref\<lparr>running := False\<rparr>"

definition ScheduleTimerReset :: "ScheduleTrigger \<Rightarrow> 's reconciler \<Rightarrow> 's reconciler" where
  "ScheduleTimerReset trigger r =
     (case scheduleTriggerMap r (trigger_key trigger) of
        None \<Rightarrow> r
      | Some i \<Rightarrow> with_ref i timer_Reset r)"

text \<open>
  \<^verbatim>\<open>deleteTimer\<close>, up to the blocking send on \<^verbatim>\<open>timerQuit\<close>; \<open>send_received\<close> is what follows
  when the goroutine receives: it stops its timer and returns, and the entry is deleted.
\<close>

definition deleteTimer :: "NamespacedName \<Rightarrow> 's reconciler \<Rightarrow> 's reconciler" where
  "deleteTimer key r =
     (case scheduleTriggerMap r key of
        None \<Rightarrow> r
      | Some i \<Rightarrow> r\<lparr>sending := Some (key, i)\<rparr>)"

definition send_received :: "NamespacedName \<Rightarrow> nat \<Rightarrow> 's reconciler \<Rightarrow> 's reconciler" where
  "send_received key i r =
     (with_ref i (\<lambda>ref. timer_Stop (ref\<lparr>loop_at := Returned\<rparr>)) r)
       \<lparr>scheduleTriggerMap := (scheduleTriggerMap r)(key := None), sending := None\<rparr>"

definition checkAndAllocateScheduleTimer ::
  "ScheduleTrigger \<Rightarrow> 's reconciler \<Rightarrow> 's reconciler" where
  "checkAndAllocateScheduleTimer trigger r =
     (let durationStr = label_of ''planner.ciena.io/quiet-time'' (trig_Labels trigger);
          key = trigger_key trigger
      in if durationStr = '''' then
           (case scheduleTriggerMap r key of
              None \<Rightarrow> r
            | Some i \<Rightarrow> r\<lparr>sending := Some (key, i)\<rparr>)
         else
           (case ParseDuration durationStr of
              Inl _ \<Rightarrow> r
            | Inr d \<Rightarrow>
                (case scheduleTriggerMap r key of
                   None \<Rightarrow>
                     r\<lparr>refs := refs r @ [\<lparr>running = True, fired = False, duration = d,
                                         loop_at = Selecting, loop_trigger = trigger\<rparr>],
                       scheduleTriggerMap := (scheduleTriggerMap r)(key \<mapsto> length (refs r))\<rparr>
                 | Some i \<Rightarrow>
                     if duration (refs r ! i) \<noteq> d
                     then with_ref i (\<lambda>ref. timer_Reset (ref\<lparr>duration := d\<rparr>)) r
                     else r)))"

definition RegisterScheduleTrigger :: "'s callback option \<Rightarrow> 's reconciler \<Rightarrow> 's reconciler" where
  "RegisterScheduleTrigger cb r =
     (if cb \<noteq> None then r\<lparr>triggerCallbacks := triggerCallbacks r @ [cb]\<rparr> else r)"

fun scheduleTrigger :: "'s callback option list \<Rightarrow> ScheduleTrigger \<Rightarrow> 's \<Rightarrow> 's" where
  "scheduleTrigger [] trigger s = s"
| "scheduleTrigger (cb # cbs) trigger s =
     scheduleTrigger cbs trigger (case cb of None \<Rightarrow> s | Some f \<Rightarrow> f trigger s)"

definition Reconcile ::
  "'s trigger_kube \<Rightarrow> NamespacedName \<Rightarrow> 's reconciler \<Rightarrow> 's reconciler" where
  "Reconcile tk req r =
     (case tk_Get tk req (server r) of
        Inl _ \<Rightarrow> deleteTimer req r
      | Inr trigger \<Rightarrow>
          let r = (if trig_State trigger = Schedule
                   then r\<lparr>server := scheduleTrigger (triggerCallbacks r) trigger (server r)\<rparr> else r)
          in checkAndAllocateScheduleTimer trigger r)"

definition SetupWithManager :: "'s reconciler \<Rightarrow> 's reconciler" where
  "SetupWithManager r = r\<lparr>scheduleTriggerMap := Map.empty\<rparr>"

section \<open>Interleaving\<close>

text \<open>
  The steps: a request is reconciled or a timer reset when the mutex is free; a timer expires;
  a goroutine takes the value of its timer and, later, has made its transition; a goroutine
  takes the value on \<^verbatim>\<open>timerQuit\<close>; the API server changes by itself.
\<close>

inductive controller_step ::
  "'s trigger_kube \<Rightarrow> 's reconciler \<Rightarrow> 's reconciler \<Rightarrow> bool"
  for tk where
  reconcile: "sending r = None \<Longrightarrow> controller_step tk r (Reconcile tk req r)"
| reset: "sending r = None \<Longrightarrow> controller_step tk r (ScheduleTimerReset trigger r)"
| expire: "i < length (refs r) \<Longrightarrow> running (refs r ! i) \<Longrightarrow>
    controller_step tk r (with_ref i (\<lambda>ref. ref\<lparr>running := False, fired := True\<rparr>) r)"
| fire: "i < length (refs r) \<Longrightarrow> loop_at (refs r ! i) = Selecting \<Longrightarrow> fired (refs r ! i) \<Longrightarrow>
    controller_step tk r (with_ref i (\<lambda>ref. ref\<lparr>fired := False, loop_at := Transitioning\<rparr>) r)"
| transition: "i < length (refs r) \<Longrightarrow> loop_at (refs r ! i) = Transitioning \<Longrightarrow>
    controller_step tk r
      ((with_ref i (\<lambda>ref. ref\<lparr>loop_at := Selecting\<rparr>) r)
         \<lparr>server := transitionToSchedule tk (loop_trigger (refs r ! i)) (server r)\<rparr>)"
| quit: "sending r = Some (key, i) \<Longrightarrow> loop_at (refs r ! i) = Selecting \<Longrightarrow>
    controller_step tk r (send_received key i r)"
| others: "controller_step tk r (r\<lparr>server := s'\<rparr>)"

definition controller_start :: "'s reconciler \<Rightarrow> bool" where
  "controller_start r \<longleftrightarrow>
     scheduleTriggerMap r = Map.empty \<and> refs r = [] \<and> sending r = None"

text \<open>
  The invariant: the entries of the map are exactly the goroutines that have not returned, each
  under the name of its trigger; a returned goroutine's timer is stopped; a blocked send is
  for an entry of the map.
\<close>

definition live :: "'s reconciler \<Rightarrow> nat \<Rightarrow> bool" where
  "live r i \<longleftrightarrow> i < length (refs r) \<and> loop_at (refs r ! i) \<noteq> Returned"

definition controller_inv :: "'s reconciler \<Rightarrow> bool" where
  "controller_inv r \<longleftrightarrow>
     (\<forall>key i. scheduleTriggerMap r key = Some i \<longleftrightarrow>
        live r i \<and> trigger_key (loop_trigger (refs r ! i)) = key) \<and>
     (\<forall>i < length (refs r). loop_at (refs r ! i) = Returned \<longrightarrow> \<not> running (refs r ! i)) \<and>
     (\<forall>key i. sending r = Some (key, i) \<longrightarrow> scheduleTriggerMap r key = Some i)"


lemma controller_invD:
  assumes "controller_inv r"
  shows "scheduleTriggerMap r key = Some i \<longleftrightarrow> live r i \<and> trigger_key (loop_trigger (refs r ! i)) = key"
    and "i < length (refs r) \<Longrightarrow> loop_at (refs r ! i) = Returned \<Longrightarrow> \<not> running (refs r ! i)"
    and "sending r = Some (key, i) \<Longrightarrow> scheduleTriggerMap r key = Some i"
  using assms by (auto simp: controller_inv_def)

lemma with_ref_simps [simp]:
  "server (with_ref i f r) = server r"
  "scheduleTriggerMap (with_ref i f r) = scheduleTriggerMap r"
  "triggerCallbacks (with_ref i f r) = triggerCallbacks r"
  "sending (with_ref i f r) = sending r"
  "length (refs (with_ref i f r)) = length (refs r)"
  by (simp_all add: with_ref_def)

lemma with_ref_nth:
  "j < length (refs r) \<Longrightarrow> refs (with_ref i f r) ! j = (if i = j then f (refs r ! j) else refs r ! j)"
  by (simp add: with_ref_def nth_list_update)

lemma with_ref_nth_at:
  "i < length (refs r) \<Longrightarrow> refs (with_ref i f r) ! j = (if i = j then f (refs r ! j) else refs r ! j)"
  by (simp add: with_ref_def nth_list_update)

text \<open>Steps that touch one reference and neither end its goroutine nor revive a stopped one.\<close>

lemma inv_with_ref:
  assumes inv: "controller_inv r" and i: "live r i"
    and f: "\<And>ref. loop_at ref \<noteq> Returned \<Longrightarrow>
      loop_at (f ref) \<noteq> Returned \<and> loop_trigger (f ref) = loop_trigger ref"
  shows "controller_inv (with_ref i f r)"
proof -
  from f i have at: "j < length (refs r) \<Longrightarrow>
      loop_trigger (refs (with_ref i f r) ! j) = loop_trigger (refs r ! j) \<and>
      (loop_at (refs (with_ref i f r) ! j) = Returned \<longleftrightarrow> loop_at (refs r ! j) = Returned) \<and>
      (loop_at (refs r ! j) = Returned \<longrightarrow> refs (with_ref i f r) ! j = refs r ! j)" for j
    by (auto simp: with_ref_nth live_def)
  then have "live (with_ref i f r) j \<longleftrightarrow> live r j" for j by (auto simp: live_def)
  with inv at show ?thesis by (auto simp: controller_inv_def) (auto simp: live_def)
qed

lemma inv_server: "controller_inv (r\<lparr>server := s\<rparr>) \<longleftrightarrow> controller_inv r"
  by (simp add: controller_inv_def live_def)

lemma inv_sending:
  "controller_inv r \<Longrightarrow> scheduleTriggerMap r key = Some i \<Longrightarrow> controller_inv (r\<lparr>sending := Some (key, i)\<rparr>)"
  by (simp add: controller_inv_def live_def)

lemma inv_new_ref:
  assumes "controller_inv r" and "scheduleTriggerMap r (trigger_key (loop_trigger ref)) = None"
    and "loop_at ref \<noteq> Returned"
  shows "controller_inv (r\<lparr>refs := refs r @ [ref],
    scheduleTriggerMap := (scheduleTriggerMap r)(trigger_key (loop_trigger ref) \<mapsto> length (refs r))\<rparr>)"
proof -
  have "\<not> live r i" if "trigger_key (loop_trigger (refs r ! i)) = trigger_key (loop_trigger ref)" for i
    using controller_invD(1) [OF assms(1), of "trigger_key (loop_trigger ref)" i] assms(2) that by simp
  with assms controller_invD [OF assms(1)] show ?thesis
    by (fastforce simp: controller_inv_def live_def nth_append less_Suc_eq)
qed

lemma inv_allocate:
  assumes "controller_inv r"
  shows "controller_inv (checkAndAllocateScheduleTimer trigger r)"
proof (cases "scheduleTriggerMap r (trigger_key trigger)")
  case None
  with inv_new_ref [OF assms, where ref = "\<lparr>running = True, fired = False, duration = d,
      loop_at = Selecting, loop_trigger = trigger\<rparr>" for d] assms
  show ?thesis
    by (auto simp: checkAndAllocateScheduleTimer_def Let_def split: option.splits sum.splits)
next
  case (Some i)
  then have "live r i" using controller_invD(1) [OF assms] by blast
  then have "controller_inv (with_ref i (\<lambda>ref. timer_Reset (ref\<lparr>duration := d\<rparr>)) r)" for d
    by (rule inv_with_ref [OF assms]) (simp add: timer_Reset_def)
  with Some assms inv_sending [OF assms Some] show ?thesis
    by (auto simp: checkAndAllocateScheduleTimer_def Let_def split: option.splits sum.splits)
qed

lemma inv_quit:
  assumes inv: "controller_inv r" and s: "sending r = Some (key, i)"
  shows "controller_inv (send_received key i r)"
proof -
  have m: "scheduleTriggerMap r key = Some i" by (rule controller_invD(3) [OF inv s])
  then have i: "live r i" "trigger_key (loop_trigger (refs r ! i)) = key"
    using controller_invD(1) [OF inv] by auto
  let ?r = "send_received key i r"
  have refs: "refs ?r ! j = (if i = j then timer_Stop ((refs r ! j)\<lparr>loop_at := Returned\<rparr>) else refs r ! j)"
    if "j < length (refs r)" for j
    using that by (simp add: send_received_def with_ref_nth)
  then have "live ?r j \<longleftrightarrow> live r j \<and> j \<noteq> i" for j
    by (auto simp: live_def send_received_def with_ref_nth timer_Stop_def split: if_splits)
  moreover have "scheduleTriggerMap ?r k = Some j \<longleftrightarrow> scheduleTriggerMap r k = Some j \<and> j \<noteq> i" for k j
    using m controller_invD(1) [OF inv] i by (simp add: send_received_def) (metis option.inject)
  ultimately show ?thesis
    using controller_invD [OF inv] refs
    by (auto simp: controller_inv_def) (auto simp: send_received_def live_def timer_Stop_def split: if_splits)
qed

lemma controller_step_inv:
  assumes "controller_inv r" and "controller_step tk r r'"
  shows "controller_inv r'"
  using assms(2)
proof cases
  case (reconcile req)
  show ?thesis
  proof (cases "tk_Get tk req (server r)")
    case (Inl e)
    with reconcile assms(1) inv_sending [OF assms(1)] show ?thesis
      by (auto simp: Reconcile_def deleteTimer_def split: option.splits)
  next
    case (Inr trigger)
    with reconcile assms(1) show ?thesis
      by (auto simp: Reconcile_def Let_def inv_server intro!: inv_allocate)
  qed
next
  case (reset trigger)
  then show ?thesis
    using assms(1) controller_invD(1) [OF assms(1)]
    by (auto simp: ScheduleTimerReset_def timer_Reset_def split: option.splits intro!: inv_with_ref)
next
  case (expire i)
  then have "live r i" using controller_invD(2) [OF assms(1)] by (auto simp: live_def)
  with expire assms(1) show ?thesis by (auto intro!: inv_with_ref)
next
  case (fire i)
  then have "live r i" by (simp add: live_def)
  with fire assms(1) show ?thesis by (auto intro!: inv_with_ref)
next
  case (transition i)
  then have "live r i" by (simp add: live_def)
  with transition assms(1) show ?thesis by (auto simp: inv_server intro!: inv_with_ref)
next
  case (quit key i)
  then show ?thesis using assms(1) by (auto intro: inv_quit)
next
  case (others s')
  then show ?thesis using assms(1) by (simp add: inv_server)
qed


interpretation controller: invariant_system controller_start "controller_step tk" controller_inv
  for tk :: "'s trigger_kube"
proof
  show "controller_start r \<Longrightarrow> controller_inv r" for r :: "'s reconciler"
    by (simp add: controller_start_def controller_inv_def live_def)
qed (rule controller_step_inv)

section \<open>Properties\<close>

text \<open>
  C5: whatever the order of reconcile requests, timer expiries, transitions and outside changes:
  every trigger has at most one quiet timer, and the timers that the reconciler knows are
  exactly the timer goroutines that have not returned, so no goroutine is leaked and no
  timer of a returned one still runs.
\<close>

theorem timers_match_goroutines:
  assumes "reachable controller_start (controller_step tk) r"
  shows "(\<forall>key i. scheduleTriggerMap r key = Some i \<longleftrightarrow>
      i < length (refs r) \<and> loop_at (refs r ! i) \<noteq> Returned \<and>
      trigger_key (loop_trigger (refs r ! i)) = key) \<and>
    (\<forall>i < length (refs r). loop_at (refs r ! i) = Returned \<longrightarrow> \<not> running (refs r ! i))"
  using controller.reachable_inv [OF assms] by (simp add: controller_inv_def live_def)

text \<open>
  A reconciler that has been asked once about a trigger with a quiet time.
\<close>

definition ex_quiet :: ScheduleTrigger where
  "ex_quiet = \<lparr>trig_Namespace = ''ns'', trig_Name = ''t'',
     trig_Labels = [(''planner.ciena.io/quiet-time'', ''5s'')], trig_State = ''Planning''\<rparr>"

definition ex_start :: "ScheduleTrigger list reconciler" where
  "ex_start = \<lparr>server = [ex_quiet], scheduleTriggerMap = Map.empty, refs = [],
     triggerCallbacks = [], sending = None\<rparr>"

lemma parse_5s: "ParseDuration ''5s'' = Inr 5000000000"
  by code_simp

definition ex_one :: "ScheduleTrigger list reconciler" where
  "ex_one = Reconcile list_trigger_kube (trigger_key ex_quiet) ex_start"

lemma ex_one_simps:
  "scheduleTriggerMap ex_one = [trigger_key ex_quiet \<mapsto> 0]"
  "refs ex_one = [\<lparr>running = True, fired = False, duration = 5000000000, loop_at = Selecting,
     loop_trigger = ex_quiet\<rparr>]"
  "sending ex_one = None" "server ex_one = [ex_quiet]"
  by (simp_all add: ex_one_def Reconcile_def list_trigger_kube_def ex_start_def ex_quiet_def
      Schedule_def checkAndAllocateScheduleTimer_def Let_def label_of_def parse_5s trigger_key_def)

lemma ex_one_reachable: "reachable controller_start (controller_step list_trigger_kube) ex_one"
proof -
  have "reachable controller_start (controller_step list_trigger_kube) ex_start"
    by (rule reachable_start) (simp add: controller_start_def ex_start_def)
  then show ?thesis
    unfolding ex_one_def by (rule reachable_step) (rule reconcile, simp add: ex_start_def)
qed

theorem timers_match_goroutines_witness:
  "scheduleTriggerMap ex_one (trigger_key ex_quiet) = Some 0 \<and> length (refs ex_one) = 1"
  using timers_match_goroutines [OF ex_one_reachable] by (simp add: ex_one_simps)

text \<open>
  While the reconciler is blocked on a quit channel: every step of that goroutine, and every
  expiry of its timer, uses up fuel, and nobody can rearm it.
\<close>

definition quit_fuel :: "triggerReference \<Rightarrow> nat" where
  "quit_fuel ref =
     (if running ref then 4 else 0) + (if fired ref then 2 else 0) +
     (if loop_at ref = Transitioning then 1 else 0)"

text \<open>
  C6: the blocking send on the quit channel of a timer cannot hang. While the reconciler is
  blocked, some step of the timer's goroutine is possible; every step either completes the
  send, or leaves this timer as it is, or uses up fuel of which there are at most seven
  units; and nothing else can happen to the map meanwhile. The goroutine's calls to the API server are
  taken to return.
\<close>

theorem quit_send_completes:
  assumes "reachable controller_start (controller_step tk) r"
    and "sending r = Some (key, i)"
  shows "(\<exists>r'. controller_step tk r r' \<and>
      (r' = send_received key i r \<or> quit_fuel (refs r' ! i) < quit_fuel (refs r ! i))) \<and>
    (\<forall>r'. controller_step tk r r' \<longrightarrow>
      r' = send_received key i r \<or>
      sending r' = sending r \<and> scheduleTriggerMap r' = scheduleTriggerMap r \<and>
      (refs r' ! i = refs r ! i \<or> quit_fuel (refs r' ! i) < quit_fuel (refs r ! i))) \<and>
    quit_fuel (refs r ! i) \<le> 7"
proof (intro conjI allI impI)
  have inv: "controller_inv r" by (rule controller.reachable_inv [OF assms(1)])
  then have i: "i < length (refs r)" "loop_at (refs r ! i) \<noteq> Returned"
    using controller_invD(1,3) [OF inv] assms(2) by (auto simp: live_def)
  show "\<exists>r'. controller_step tk r r' \<and>
      (r' = send_received key i r \<or> quit_fuel (refs r' ! i) < quit_fuel (refs r ! i))"
  proof (cases "loop_at (refs r ! i)")
    case Selecting
    then show ?thesis using controller_step.quit [OF assms(2)] by blast
  next
    case Transitioning
    then have "quit_fuel (refs (with_ref i (\<lambda>ref. ref\<lparr>loop_at := Selecting\<rparr>) r) ! i) < quit_fuel (refs r ! i)"
      using i by (simp add: with_ref_nth quit_fuel_def)
    then show ?thesis
      using controller_step.transition [OF i(1) Transitioning, of tk] by fastforce
  qed (use i in simp)
next
  fix r'
  assume "controller_step tk r r'"
  then show "r' = send_received key i r \<or>
      sending r' = sending r \<and> scheduleTriggerMap r' = scheduleTriggerMap r \<and>
      (refs r' ! i = refs r ! i \<or> quit_fuel (refs r' ! i) < quit_fuel (refs r ! i))"
    using assms(2) by cases (auto simp: with_ref_nth_at quit_fuel_def)
qed (simp add: quit_fuel_def)


text \<open>The same reconciler, asked again after the trigger was deleted: it is blocked.\<close>

definition ex_blocked :: "ScheduleTrigger list reconciler" where
  "ex_blocked = Reconcile list_trigger_kube (trigger_key ex_quiet) (ex_one\<lparr>server := []\<rparr>)"

lemma ex_blocked_sending: "sending ex_blocked = Some (trigger_key ex_quiet, 0)"
  by (simp add: ex_blocked_def Reconcile_def deleteTimer_def list_trigger_kube_def ex_one_simps)

lemma ex_blocked_reachable:
  "reachable controller_start (controller_step list_trigger_kube) ex_blocked"
proof -
  have "reachable controller_start (controller_step list_trigger_kube) (ex_one\<lparr>server := []\<rparr>)"
    using ex_one_reachable by (rule reachable_step) (rule others)
  then show ?thesis
    unfolding ex_blocked_def by (rule reachable_step) (rule reconcile, simp add: ex_one_simps)
qed

theorem quit_send_completes_witness: "quit_fuel (refs ex_blocked ! 0) \<le> 7"
  using quit_send_completes [OF ex_blocked_reachable ex_blocked_sending] by simp

text \<open>
  When a quiet timer has fired and the API server accepts the write, the trigger of the
  timer is in the state \<open>Schedule\<close>; nothing else of it and no other trigger changes. A trigger
  that is gone or cannot be read is left alone.
\<close>

theorem transitionToSchedule_correct:
  assumes "trigger_kube_ok tk triggers"
    and "\<And>t e. fst (tk_Update tk t s) \<noteq> Some e"
  shows "triggers (transitionToSchedule tk trigger s) =
    (case tk_Get tk (trigger_key trigger) s of
       Inl _ \<Rightarrow> triggers s
     | Inr t \<Rightarrow> (triggers s)(trigger_key trigger \<mapsto> t\<lparr>trig_State := Schedule\<rparr>))"
proof (cases "tk_Get tk (trigger_key trigger) s")
  case (Inr t)
  then have t: "triggers s (trigger_key trigger) = Some t" "trigger_key t = trigger_key trigger"
    using assms(1) by (auto simp: trigger_kube_ok_def)
  obtain s' where "tk_Update tk (t\<lparr>trig_State := Schedule\<rparr>) s = (None, s')"
    using assms(2) [of "t\<lparr>trig_State := Schedule\<rparr>"] by (metis not_Some_eq prod.collapse)
  with assms(1) t have "triggers (snd (tk_Update tk (t\<lparr>trig_State := Schedule\<rparr>) s)) =
      (triggers s)(trigger_key trigger \<mapsto> t\<lparr>trig_State := Schedule\<rparr>)"
    by (auto simp: trigger_kube_ok_def)
  with Inr t show ?thesis
    by (cases "trig_State t = Schedule") (auto simp: transitionToSchedule_def fun_upd_idem)
qed (simp add: transitionToSchedule_def)

theorem transitionToSchedule_correct_witness:
  "list_triggers (transitionToSchedule list_trigger_kube (ex_trigger ''Planning'') [ex_trigger ''Planning''])
     (trigger_key (ex_trigger ''Planning'')) = Some (ex_trigger ''Schedule'')"
proof -
  have "fst (tk_Update list_trigger_kube t [ex_trigger ''Planning'']) \<noteq> Some e" for t e
    by (simp add: list_trigger_kube_def)
  from transitionToSchedule_correct [OF list_trigger_kube_ok this, of "ex_trigger ''Planning''"]
  show ?thesis
    by (simp add: list_trigger_kube_def ex_trigger_def trigger_key_def Schedule_def)
qed

text \<open>
  C31: a quiet timer is a one-shot. Once it has expired and its value has been taken, no step of
  the reconciler, of the goroutines or of the API server makes it run or fire again, except
  an explicit timer reset, which no part of the program calls, and a change of the quiet
  time itself. So when the transition failed, or the trigger is set back to planning, or
  further pods are created, the trigger is not scheduled again by its quiet time.
\<close>

theorem quiet_timer_one_shot:
  assumes "controller_step tk r r'" and "i < length (refs r)"
    and "\<not> running (refs r ! i)" and "\<not> fired (refs r ! i)"
    and "running (refs r' ! i) \<or> fired (refs r' ! i)"
  shows "(\<exists>trigger. r' = ScheduleTimerReset trigger r) \<or> duration (refs r' ! i) \<noteq> duration (refs r ! i)"
  using assms(1)
proof cases
  case (reconcile req)
  then show ?thesis
    using assms(2-5) by (auto simp: Reconcile_def deleteTimer_def checkAndAllocateScheduleTimer_def Let_def
        with_ref_nth timer_Reset_def nth_append split: sum.splits option.splits if_splits)
qed (use assms(2-5) in \<open>auto simp: with_ref_nth send_received_def timer_Stop_def split: if_splits\<close>)

text \<open>The reconciler of the example with its timer spent, and then a change of the quiet time.\<close>

definition ex_spent :: "ScheduleTrigger list reconciler" where
  "ex_spent = with_ref 0 (\<lambda>ref. ref\<lparr>running := False, duration := 1\<rparr>) ex_one"

theorem quiet_timer_one_shot_witness:
  "let r = ex_spent; r' = Reconcile list_trigger_kube (trigger_key ex_quiet) ex_spent
   in \<not> running (refs r ! 0) \<and> running (refs r' ! 0) \<and>
      ((\<exists>trigger. r' = ScheduleTimerReset trigger r) \<or> duration (refs r' ! 0) \<noteq> duration (refs r ! 0))"
proof -
  let ?r = ex_spent and ?r' = "Reconcile list_trigger_kube (trigger_key ex_quiet) ex_spent"
  have step: "controller_step list_trigger_kube ?r ?r'"
    by (rule reconcile) (simp add: ex_spent_def ex_one_simps)
  have r: "0 < length (refs ?r)" "\<not> running (refs ?r ! 0)" "\<not> fired (refs ?r ! 0)"
    by (simp_all add: ex_spent_def ex_one_simps with_ref_def)
  have r': "running (refs ?r' ! 0)"
    by (simp add: ex_spent_def ex_one_simps with_ref_def Reconcile_def list_trigger_kube_def
        ex_quiet_def Schedule_def checkAndAllocateScheduleTimer_def Let_def label_of_def parse_5s
        trigger_key_def timer_Reset_def)
  show ?thesis
    using quiet_timer_one_shot [OF step r] r r' by simp
qed

text \<open>
  Reconciling a trigger in the state \<open>Schedule\<close> runs every registered callback once, in the
  order of registration; registering nothing does nothing; and a trigger in another state
  runs none.
\<close>

theorem Reconcile_runs_callbacks:
  assumes "tk_Get tk req (server r) = Inr trigger"
  shows "server (Reconcile tk req (fold (\<lambda>cb. RegisterScheduleTrigger cb) cbs r)) =
    (if trig_State trigger = Schedule
     then fold (\<lambda>cb. cb trigger) (List.map_filter id (triggerCallbacks r @ cbs)) (server r)
     else server r)"
proof -
  let ?r = "fold (\<lambda>cb. RegisterScheduleTrigger cb) cbs r"
  have sched: "scheduleTrigger fs trigger s = fold (\<lambda>cb. cb trigger) (List.map_filter id fs) s" for fs s
    by (induction fs arbitrary: s) (auto simp: List.map_filter_simps split: option.splits)
  have "server ?r = server r \<and>
      List.map_filter id (triggerCallbacks ?r) = List.map_filter id (triggerCallbacks r @ cbs)"
    by (induction cbs arbitrary: r)
      (auto simp: RegisterScheduleTrigger_def List.map_filter_simps List.map_filter_def)
  moreover have "server (checkAndAllocateScheduleTimer trigger q) = server q" for q :: "'a reconciler"
    by (auto simp: checkAndAllocateScheduleTimer_def Let_def split: option.splits sum.splits)
  ultimately show ?thesis using assms by (simp add: Reconcile_def Let_def sched)
qed

theorem Reconcile_runs_callbacks_witness:
  "server (Reconcile list_trigger_kube (trigger_key (ex_trigger ''Schedule''))
     (fold (\<lambda>cb. RegisterScheduleTrigger cb) [None, Some (\<lambda>t s. s @ [t])]
       (ex_start\<lparr>server := [ex_trigger ''Schedule'']\<rparr>))) =
   [ex_trigger ''Schedule'', ex_trigger ''Schedule'']"
proof -
  have "tk_Get list_trigger_kube (trigger_key (ex_trigger ''Schedule''))
      (server (ex_start\<lparr>server := [ex_trigger ''Schedule'']\<rparr>)) = Inr (ex_trigger ''Schedule'')"
    by (simp add: list_trigger_kube_def ex_start_def)
  then show ?thesis
    by (subst Reconcile_runs_callbacks) (assumption, simp add: ex_start_def ex_trigger_def Schedule_def List.map_filter_simps)
qed

text \<open>
  A trigger without a quiet timer whose label asks for a quiet time written as whole numbers
  with units gets one goroutine with a running timer of exactly that duration, stored under its
  name; a quiet time that does not fit an \<^verbatim>\<open>int64\<close> changes nothing.
\<close>

theorem quiet_time_label_starts_timer:
  assumes "label_of ''planner.ciena.io/quiet-time'' (trig_Labels trigger) = segments_text ps"
    and "ps \<noteq> []" "segments_ok ps" "(\<Sum>p \<leftarrow> ps. segment_val p) < 2 ^ 64"
    and "scheduleTriggerMap r (trigger_key trigger) = None"
  shows "checkAndAllocateScheduleTimer trigger r =
    (if (\<Sum>p \<leftarrow> ps. segment_val p) < 2 ^ 63
     then r\<lparr>refs := refs r @ [\<lparr>running = True, fired = False, duration = (\<Sum>p \<leftarrow> ps. segment_val p),
                              loop_at = Selecting, loop_trigger = trigger\<rparr>],
            scheduleTriggerMap := (scheduleTriggerMap r)(trigger_key trigger \<mapsto> length (refs r))\<rparr>
     else r)"
  using assms ParseDuration_whole(1) [OF assms(2-4)] segments_text_start(1) [OF assms(2,3)]
  by (simp add: checkAndAllocateScheduleTimer_def Let_def)

theorem quiet_time_label_starts_timer_witness:
  "map duration (refs (checkAndAllocateScheduleTimer ex_quiet ex_start)) = [5000000000]"
proof -
  have str: "segments_text [(5, ''s'')] = ''5s''" by code_simp
  have sum: "(\<Sum>p \<leftarrow> [(5, ''s'')]. segment_val p) = 5000000000" by code_simp
  show ?thesis
    using quiet_time_label_starts_timer [of ex_quiet "[(5, ''s'')]" ex_start] str sum
    by (simp add: segments_ok_def unitMap_def ex_quiet_def ex_start_def label_of_def)
qed

end
