(* ===== verification/Executables.thy ===== *)
theory Executables
  imports Flags Json Schemes Rpc TriggerController
begin

text \<open>
  The programs: \<^verbatim>\<open>cmd/planner/podset_planner.go\<close>, \<^verbatim>\<open>cmd/manager/main.go\<close> and
  \<^verbatim>\<open>cmd/scheduler/podset_scheduler.go\<close>. A run gives the status and output with which the process
  exits, the panic that ends it, or what is running. The libraries that connect to the cluster are
  fields of a record; log output is left out. Other packages may have registered flags or after
  those of \<^verbatim>\<open>main\<close>: \<open>others\<close>.
\<close>

section \<open>Outcomes and flags\<close>

datatype 'r outcome =
    Exit nat string      \<comment> \<open>the status and what was printed\<close>
  | Panicked string
  | Running 'r

text \<open>\<^verbatim>\<open>flag.Var\<close> panics for a name that is taken.\<close>

definition flag_Var :: "string \<times> flag_value \<Rightarrow> formal \<Rightarrow> formal option" where
  "flag_Var nv m = (if m (fst nv) \<noteq> None then None else Some (m(fst nv \<mapsto> snd nv)))"

fun define_flags :: "(string \<times> flag_value) list \<Rightarrow> formal \<Rightarrow> formal option" where
  "define_flags [] m = Some m"
| "define_flags (nv # nvs) m = (case flag_Var nv m of None \<Rightarrow> None | Some m' \<Rightarrow> define_flags nvs m')"

definition string_flag :: "formal \<Rightarrow> string \<Rightarrow> string" where
  "string_flag m name = (case m name of Some (StringValue s) \<Rightarrow> s | _ \<Rightarrow> '''')"

definition bool_flag :: "formal \<Rightarrow> string \<Rightarrow> bool" where
  "bool_flag m name = (case m name of Some (BoolValue b) \<Rightarrow> b | _ \<Rightarrow> False)"

definition int_flag :: "formal \<Rightarrow> string \<Rightarrow> int" where
  "int_flag m name = (case m name of Some (IntValue i) \<Rightarrow> i | _ \<Rightarrow> 0)"

definition duration_flag :: "formal \<Rightarrow> string \<Rightarrow> int" where
  "duration_flag m name = (case m name of Some (DurationValue d) \<Rightarrow> d | _ \<Rightarrow> 0)"

text \<open>What \<^verbatim>\<open>--version\<close> prints.\<close>

definition print_version :: "bool \<Rightarrow> build_info \<Rightarrow> string" where
  "print_version as_json b =
     (if as_json then json_Marshal (get_Version b) else Spec_String (get_Version b)) @ nl"

section \<open>The planner\<close>

record configSpec =
  cfg_KubeConfig :: string
  cfg_Listen :: string
  cfg_ShowVersion :: bool
  cfg_ShowVersionAsJSON :: bool
  cfg_Debug :: bool
  cfg_CallTimeout :: int
  cfg_Parallelism :: int
  cfg_UpdateWorkerPeriod :: int

definition defaultCallTimeout :: int where
  "defaultCallTimeout = 15 * 1000000000"

definition defaultUpdateWorkerPeriod :: int where
  "defaultUpdateWorkerPeriod = 15 * 1000000000"

definition planner_flags :: "(string \<times> flag_value) list" where
  "planner_flags =
     [(''kubeconfig'', StringValue ''''),
      (''debug'', BoolValue True),
      (''call-timeout'', DurationValue defaultCallTimeout),
      (''update-worker-period'', DurationValue defaultUpdateWorkerPeriod),
      (''paralleism'', IntValue (int DefaultParallelism)),
      (''version'', BoolValue False),
      (''json'', BoolValue False),
      (''listen'', StringValue '':7777'')]"

definition planner_config :: "formal \<Rightarrow> configSpec" where
  "planner_config m =
     \<lparr>cfg_KubeConfig = string_flag m ''kubeconfig'', cfg_Listen = string_flag m ''listen'',
      cfg_ShowVersion = bool_flag m ''version'', cfg_ShowVersionAsJSON = bool_flag m ''json'',
      cfg_Debug = bool_flag m ''debug'', cfg_CallTimeout = duration_flag m ''call-timeout'',
      cfg_Parallelism = int_flag m ''paralleism'',
      cfg_UpdateWorkerPeriod = duration_flag m ''update-worker-period''\<rparr>"

text \<open>
  The libraries the planner calls when it starts, and what a client set gives it later: the pods
  of a set, the list of nodes and the environment of the predicates.
\<close>

record ('cfg, 'cs, 'c) planner_host =
  zap_New :: "bool \<Rightarrow> err option"     \<comment> \<open>\<^verbatim>\<open>zap.NewDevelopment\<close> or \<^verbatim>\<open>zap.NewProduction\<close>\<close>
  InClusterConfig :: "err + 'cfg"
  BuildConfigFromFlags :: "string \<Rightarrow> string \<Rightarrow> err + 'cfg"
  NewForConfig :: "'cfg \<Rightarrow> err + 'cs"
  ctlrclient_New :: "'cfg \<Rightarrow> Scheme \<Rightarrow> err + 'c"
  net_Listen :: "string \<Rightarrow> err option"
  cs_listPods :: "'cs \<Rightarrow> string \<Rightarrow> string \<Rightarrow> err + Pod list"
  cs_nodes :: "'cs \<Rightarrow> err + Node list"
  cs_envs :: "'cs \<Rightarrow> Pod \<Rightarrow> plan_env"

definition getClients ::
  "('cfg, 'cs, 'c) planner_host \<Rightarrow> Scheme \<Rightarrow> string \<Rightarrow> err + 'cs \<times> 'c" where
  "getClients h plannerScheme kubeconfig =
     (case (if kubeconfig = '''' then
              (case InClusterConfig h of
                 Inl e \<Rightarrow> Inl (Wrapped ''could not get cluster config: '' e) | Inr config \<Rightarrow> Inr config)
            else
              (case BuildConfigFromFlags h '''' kubeconfig of
                 Inl e \<Rightarrow> Inl (Wrapped ''could not build config from flags: '' e) | Inr config \<Rightarrow> Inr config)) of
        Inl e \<Rightarrow> Inl e
      | Inr config \<Rightarrow>
          (case NewForConfig h config of
             Inl e \<Rightarrow> Inl (Wrapped ''could not get k8s clientset: '' e)
           | Inr clientset \<Rightarrow>
               (case NewSchedulePlannerClient (ctlrclient_New h) plannerScheme config of
                  Inl e \<Rightarrow> Inl (Wrapped ''could not get planner client: '' e)
                | Inr plannerClient \<Rightarrow> Inr (clientset, plannerClient))))"

record ('cs, 'c) planner_process =
  pp_clientset :: 'cs
  pp_client :: 'c
  pp_handler :: PredicateHandler
  pp_server :: "assignments grpc_server"
  pp_period :: int

text \<open>\<^verbatim>\<open>main\<close> after the version; \<open>s\<close> is the state of the API server.\<close>

definition start_planner ::
  "('cfg, 'cs, 'c) planner_host \<Rightarrow> Scheme \<Rightarrow> 's \<Rightarrow> configSpec \<Rightarrow> ('cs, 'c) planner_process outcome" where
  "start_planner h plannerScheme s config =
     (case zap_New h (cfg_Debug config) of
        Some e \<Rightarrow> Panicked (''who watches the watchmen ('' @ err_Error e @ '')?'')
      | None \<Rightarrow>
          (case getClients h plannerScheme (cfg_KubeConfig config) of
             Inl e \<Rightarrow> Exit 1 ''''
           | Inr (k8sClient, plannerClient) \<Rightarrow>
               (case NewPlanner (cfg_CallTimeout config) (cfg_Parallelism config) s of
                  Inl e \<Rightarrow> Panicked (err_Error e)
                | Inr (predicateHandler, _) \<Rightarrow>
                    (case APIServer_Run (net_Listen h) (cfg_Listen config)
                        (APIServer_service predicateHandler (cs_listPods h k8sClient) (cs_nodes h k8sClient)
                          (cs_envs h k8sClient)) of
                       RunError e \<Rightarrow> Exit 1 ''''
                     | RunFatal \<Rightarrow> Exit 1 ''''
                     | Serving gs \<Rightarrow>
                         Running \<lparr>pp_clientset = k8sClient, pp_client = plannerClient, pp_handler = predicateHandler,
                           pp_server = gs, pp_period = cfg_UpdateWorkerPeriod config\<rparr>))))"

definition planner_main ::
  "build_info \<Rightarrow> formal \<Rightarrow> ('cfg, 'cs, 'c) planner_host \<Rightarrow> Scheme \<Rightarrow> 's \<Rightarrow> string list \<Rightarrow>
     ('cs, 'c) planner_process outcome" where
  "planner_main b others h plannerScheme s args =
     (case define_flags planner_flags others of
        None \<Rightarrow> Panicked ''flag redefined''
      | Some m \<Rightarrow>
          (case flag_Parse m args of
             Inl e \<Rightarrow> Exit (exit_status e) ''''
           | Inr (m', _) \<Rightarrow>
               let config = planner_config m'
               in if cfg_ShowVersion config then Exit 0 (print_version (cfg_ShowVersionAsJSON config) b)
                  else start_planner h plannerScheme s config))"

section \<open>The manager\<close>

record ctrl_options =
  opt_Scheme :: Scheme
  opt_LeaderElection :: bool
  opt_LeaderElectionID :: string

text \<open>What a configuration file says about the election of a leader.\<close>

record file_config =
  fc_LeaderElect :: "bool option"
  fc_ResourceName :: string

definition setLeaderElectionConfig :: "ctrl_options \<Rightarrow> file_config \<Rightarrow> ctrl_options" where
  "setLeaderElectionConfig opts obj =
     (let opts = (case fc_LeaderElect obj of
                    Some elect \<Rightarrow> if \<not> opt_LeaderElection opts then opts\<lparr>opt_LeaderElection := elect\<rparr> else opts
                  | None \<Rightarrow> opts)
      in if opt_LeaderElectionID opts = '''' \<and> fc_ResourceName obj \<noteq> ''''
         then opts\<lparr>opt_LeaderElectionID := fc_ResourceName obj\<rparr> else opts)"

record ('cfg, 'mgr) manager_host =
  mh_config_file :: "string \<Rightarrow> err + file_config"
  mh_GetConfig :: "err + 'cfg"
  mh_NewManager :: "'cfg \<Rightarrow> ctrl_options \<Rightarrow> err + 'mgr"
  mh_Complete :: "go_type \<Rightarrow> 'mgr \<Rightarrow> err + 'mgr"   \<comment> \<open>a controller for a type\<close>
  mh_AddHealthzCheck :: "string \<Rightarrow> 'mgr \<Rightarrow> err + 'mgr"
  mh_AddReadyzCheck :: "string \<Rightarrow> 'mgr \<Rightarrow> err + 'mgr"

record manager_configSpec =
  mc_ConfigurationFile :: string
  mc_EnableLeaderElection :: bool
  mc_ShowVersion :: bool
  mc_ShowVersionAsJSON :: bool

definition manager_flags :: "(string \<times> flag_value) list" where
  "manager_flags =
     [(''config'', StringValue ''''), (''enable-leader-election'', BoolValue False),
      (''version'', BoolValue False), (''json'', BoolValue False)]"

definition manager_config :: "formal \<Rightarrow> manager_configSpec" where
  "manager_config m =
     \<lparr>mc_ConfigurationFile = string_flag m ''config'',
      mc_EnableLeaderElection = bool_flag m ''enable-leader-election'',
      mc_ShowVersion = bool_flag m ''version'', mc_ShowVersionAsJSON = bool_flag m ''json''\<rparr>"

definition leaderElectionID :: string where
  "leaderElectionID = ''64e1845a-5786-11ec-bf63-0242ac130002.ciena.com''"

definition manager_options ::
  "('cfg, 'mgr) manager_host \<Rightarrow> Scheme \<Rightarrow> manager_configSpec \<Rightarrow> err + ctrl_options" where
  "manager_options h scheme config =
     (let opts = \<lparr>opt_Scheme = scheme, opt_LeaderElection = mc_EnableLeaderElection config,
                     opt_LeaderElectionID = leaderElectionID\<rparr>
      in if mc_ConfigurationFile config \<noteq> '''' then
           (case mh_config_file h (mc_ConfigurationFile config) of
              Inl e \<Rightarrow> Inl e | Inr obj \<Rightarrow> Inr (setLeaderElectionConfig opts obj))
         else Inr opts)"

text \<open>The controllers: \<^verbatim>\<open>SetupWithManager\<close> of both reconcilers, and \<^verbatim>\<open>Reconcile\<close> of plans.\<close>

definition SchedulePlan_Reconcile :: "NamespacedName \<Rightarrow> 's \<Rightarrow> err option \<times> 's" where
  "SchedulePlan_Reconcile req s = (None, s)"

definition SchedulePlan_SetupWithManager :: "('cfg, 'mgr) manager_host \<Rightarrow> 'mgr \<Rightarrow> err + 'mgr" where
  "SchedulePlan_SetupWithManager h mgr = mh_Complete h (v1alpha1 ''SchedulePlan'') mgr"

definition ScheduleTrigger_SetupWithManager ::
  "('cfg, 'mgr) manager_host \<Rightarrow> 's reconciler \<Rightarrow> 'mgr \<Rightarrow> err + 'mgr \<times> 's reconciler" where
  "ScheduleTrigger_SetupWithManager h r mgr =
     (case mh_Complete h (v1alpha1 ''ScheduleTrigger'') mgr of
        Inl e \<Rightarrow> Inl e | Inr mgr' \<Rightarrow> Inr (mgr', SetupWithManager r))"

definition run_manager ::
  "('cfg, 'mgr) manager_host \<Rightarrow> 's reconciler \<Rightarrow> ctrl_options \<Rightarrow> ('mgr \<times> 's reconciler) outcome" where
  "run_manager h r opts =
     (case mh_GetConfig h of
        Inl _ \<Rightarrow> Exit 1 ''''
      | Inr cfg \<Rightarrow>
     (case mh_NewManager h cfg opts of
        Inl _ \<Rightarrow> Exit 1 ''''
      | Inr mgr \<Rightarrow>
     (case SchedulePlan_SetupWithManager h mgr of
        Inl _ \<Rightarrow> Exit 1 ''''
      | Inr mgr \<Rightarrow>
     (case ScheduleTrigger_SetupWithManager h r mgr of
        Inl _ \<Rightarrow> Exit 1 ''''
      | Inr (mgr, r) \<Rightarrow>
     (case mh_AddHealthzCheck h ''healthz'' mgr of
        Inl _ \<Rightarrow> Exit 1 ''''
      | Inr mgr \<Rightarrow>
     (case mh_AddReadyzCheck h ''readyz'' mgr of
        Inl _ \<Rightarrow> Exit 1 ''''
      | Inr mgr \<Rightarrow> Running (mgr, r)))))))"

text \<open>The process ends when the manager's \<^verbatim>\<open>Start\<close> returns: after a signal, or with an error.\<close>

definition manager_exit :: "err option \<Rightarrow> 'r outcome" where
  "manager_exit err = (case err of Some _ \<Rightarrow> Exit 1 '''' | None \<Rightarrow> Exit 0 '''')"

definition manager_main ::
  "build_info \<Rightarrow> formal \<Rightarrow> ('cfg, 'mgr) manager_host \<Rightarrow> Scheme \<Rightarrow> 's reconciler \<Rightarrow> string list \<Rightarrow>
     ('mgr \<times> 's reconciler) outcome" where
  "manager_main b others h scheme r args =
     (case define_flags manager_flags others of
        None \<Rightarrow> Panicked ''flag redefined''
      | Some m \<Rightarrow>
          (case flag_Parse m args of
             Inl e \<Rightarrow> Exit (exit_status e) ''''
           | Inr (m', _) \<Rightarrow>
               let config = manager_config m'
               in if mc_ShowVersion config
                  then Exit 0 ((if mc_ShowVersionAsJSON config then json_Marshal (controllers_Version b)
                                  else VersionSpec_String (controllers_Version b)) @ nl)
                  else
                    (case manager_options h scheme config of
                       Inl _ \<Rightarrow> Exit 1 ''''
                     | Inr opts \<Rightarrow> run_manager h r opts)))"

section \<open>The scheduler\<close>

text \<open>The command of kube-scheduler runs with the plugin registered under its name.\<close>

definition scheduler_main :: "((string \<times> 'new) list \<Rightarrow> err option) \<Rightarrow> string \<Rightarrow> 'new \<Rightarrow> unit outcome" where
  "scheduler_main execute plugin_name plugin_New =
     (case execute [(plugin_name, plugin_New)] of
        Some e \<Rightarrow> Exit 1 ''''
      | None \<Rightarrow> Exit 0 '''')"

definition ex_build :: build_info where
  "ex_build = \<lparr>bi_version = ''1.0'', bi_vcsURL = '''', bi_vcsRef = '''', bi_vcsCommitDate = '''', bi_vcsDirty = ''false'',
     bi_goVersion = '''', bi_os = ''linux'', bi_arch = '''', bi_buildDate = ''''\<rparr>"

section \<open>The command line decides the configuration\<close>

lemma define_flags_fresh:
  "distinct (map fst nvs) \<Longrightarrow> \<forall>nv \<in> set nvs. m (fst nv) = None \<Longrightarrow> define_flags nvs m = Some (m ++ map_of nvs)"
proof (induction nvs arbitrary: m)
  case (Cons nv nvs)
  have "define_flags nvs (m(fst nv \<mapsto> snd nv)) = Some (m(fst nv \<mapsto> snd nv) ++ map_of nvs)"
    by (rule Cons.IH) (use Cons.prems in \<open>auto simp: rev_image_eqI\<close>)
  moreover have "map_of nvs (fst nv) = None" using Cons.prems(1) by (simp add: map_of_eq_None_iff)
  then have "m(fst nv \<mapsto> snd nv) ++ map_of nvs = m ++ map_of (nv # nvs)"
    by (intro ext) (auto simp: map_add_def split: option.split)
  ultimately have "define_flags nvs (m(fst nv \<mapsto> snd nv)) = Some (m ++ map_of (nv # nvs))" by (simp only:)
  then show ?case using Cons.prems(2) by (simp add: flag_Var_def del: map_of.simps)
qed simp

lemma planner_flags_defined:
  assumes "\<forall>nv \<in> set planner_flags. others (fst nv) = None"
  shows "define_flags planner_flags others = Some (others ++ map_of planner_flags)"
  by (rule define_flags_fresh) (use assms in \<open>simp_all add: planner_flags_def\<close>)

lemma manager_flags_defined:
  assumes "\<forall>nv \<in> set manager_flags. others (fst nv) = None"
  shows "define_flags manager_flags others = Some (others ++ map_of manager_flags)"
  by (rule define_flags_fresh) (use assms in \<open>simp_all add: manager_flags_def\<close>)

lemma ParseBool_sprint: "ParseBool (sprint_bool d) = Some d"
  by (simp add: ParseBool_def sprint_bool_def)

lemmas flag_simps = set_flag_def string_flag_def bool_flag_def int_flag_def duration_flag_def

text \<open>A duration that is written in whole units and fits.\<close>

definition duration_ok :: "(nat \<times> string) list \<Rightarrow> bool" where
  "duration_ok ps \<longleftrightarrow> ps \<noteq> [] \<and> segments_ok ps \<and> (\<Sum>p \<leftarrow> ps. segment_val p) < 2 ^ 63"

lemma ParseDuration_ok: "duration_ok ps \<Longrightarrow> ParseDuration (segments_text ps) = Inr (\<Sum>p \<leftarrow> ps. segment_val p)"
  using ParseDuration_whole(1) [of ps] by (simp add: duration_ok_def)

lemma planner_main_settings:
  assumes "\<forall>nv \<in> set planner_flags. others (fst nv) = None" "\<forall>nv \<in> set nvs. plain_name (fst nv)"
  shows "planner_main b others h sch s (map setting nvs) =
    (case apply_settings (others ++ map_of planner_flags) nvs of
       Inl e \<Rightarrow> Exit (exit_status e) ''''
     | Inr m \<Rightarrow>
         if cfg_ShowVersion (planner_config m)
         then Exit 0 (print_version (cfg_ShowVersionAsJSON (planner_config m)) b)
         else start_planner h sch s (planner_config m))"
  using assms
  by (simp add: planner_main_def planner_flags_defined flag_Parse_settings Let_def split: sum.split)

text \<open>
  C39: what is written on the planner's command line is what the planner runs with: the kubeconfig
  path, the log mode, the address, the two durations in whole units and the number of workers
  arrive unchanged at the start of the planner, provided no other package has taken the names
  of its flags.
\<close>

theorem planner_configured_by_flags:
  assumes "\<forall>nv \<in> set planner_flags. others (fst nv) = None"
    and "duration_ok timeout" "duration_ok period" "threads < 2 ^ 63"
  shows "planner_main b others h sch s (map setting
      [(''kubeconfig'', kubeconfig), (''debug'', sprint_bool dbg), (''listen'', address),
       (''call-timeout'', segments_text timeout), (''update-worker-period'', segments_text period),
       (''paralleism'', sprint_nat threads)]) =
    start_planner h sch s
      \<lparr>cfg_KubeConfig = kubeconfig, cfg_Listen = address, cfg_ShowVersion = False, cfg_ShowVersionAsJSON = False,
       cfg_Debug = dbg, cfg_CallTimeout = (\<Sum>p \<leftarrow> timeout. segment_val p), cfg_Parallelism = int threads,
       cfg_UpdateWorkerPeriod = (\<Sum>p \<leftarrow> period. segment_val p)\<rparr>"
proof -
  have "apply_settings (others ++ map_of planner_flags)
      [(''kubeconfig'', kubeconfig), (''debug'', sprint_bool dbg), (''listen'', address),
       (''call-timeout'', segments_text timeout), (''update-worker-period'', segments_text period),
       (''paralleism'', sprint_nat threads)] =
    Inr ((others ++ map_of planner_flags)(''kubeconfig'' \<mapsto> StringValue kubeconfig, ''debug'' \<mapsto> BoolValue dbg,
      ''listen'' \<mapsto> StringValue address, ''call-timeout'' \<mapsto> DurationValue (\<Sum>p \<leftarrow> timeout. segment_val p),
      ''update-worker-period'' \<mapsto> DurationValue (\<Sum>p \<leftarrow> period. segment_val p),
      ''paralleism'' \<mapsto> IntValue (int threads)))"
    using assms(2-4)
    by (simp add: planner_flags_def set_flag_def ParseBool_sprint ParseDuration_ok ParseInt_sprint)
  then show ?thesis
    by (subst planner_main_settings [OF assms(1)])
      (simp_all add: plain_name_def planner_config_def flag_simps planner_flags_def)
qed

text \<open>A planner with everything at hand, whose only node and pod are those of the example.\<close>

definition ex_host :: "(unit, unit, unit) planner_host" where
  "ex_host =
     \<lparr>zap_New = (\<lambda>_. None), InClusterConfig = Inr (), BuildConfigFromFlags = (\<lambda>_ _. Inl (External ''no file'')),
      NewForConfig = Inr, ctlrclient_New = (\<lambda>_ _. Inr ()), net_Listen = (\<lambda>_. None),
      cs_listPods = (\<lambda>_ _ _. Inr [ex_pod ''a'']), cs_nodes = (\<lambda>_. Inr [ex_node ''n1'', ex_node ''n2'']),
      cs_envs = (\<lambda>_ _. ex_env)\<rparr>"

theorem planner_configured_by_flags_witness:
  "\<exists>p. planner_main ex_build Map.empty ex_host NewScheme () (map setting
      [(''kubeconfig'', ''''), (''debug'', ''false''), (''listen'', '':8080''), (''call-timeout'', ''1m30s''),
       (''update-worker-period'', ''5s''), (''paralleism'', ''12'')]) = Running p \<and> pp_period p = 5000000000"
proof -
  have "segments_text [(1, ''m''), (30, ''s'')] = ''1m30s''" "segments_text [(5, ''s'')] = ''5s''"
    "sprint_nat 12 = ''12''" "sprint_bool False = ''false''" by code_simp+
  moreover have "duration_ok [(1, ''m''), (30, ''s'')]" "duration_ok [(5, ''s'')]"
    by code_simp+
  ultimately show ?thesis
    using planner_configured_by_flags [of Map.empty "[(1, ''m''), (30, ''s'')]" "[(5, ''s'')]" 12 ex_build ex_host
        NewScheme "()" "''''" False "'':8080''"]
      New_in_tree [of 90000000000 12]
    by (auto simp: start_planner_def ex_host_def getClients_def NewSchedulePlannerClient_def NewPlanner_def
        APIServer_Run_serves segment_val_def unitMap_def)
qed

text \<open>
  C38: the number of workers cannot be set under its own name, as the planner registers the flag as
  \<^verbatim>\<open>paralleism\<close>. When no other package registers a flag \<^verbatim>\<open>parallelism\<close>, and the argument \<^verbatim>\<open>--parallelism=n\<close>
  follows flags that are accepted, with no other arguments and no terminator \<^verbatim>\<open>--\<close> before it, the planner exits with
  status 2 before it does anything, whatever comes after it and whatever the cluster. (After \<^verbatim>\<open>-h\<close>
  it would exit with 0, and after a flag that lacks its value it would be that value.)
\<close>

theorem parallelism_flag_rejected:
  assumes "\<forall>nv \<in> set planner_flags. others (fst nv) = None" "others ''parallelism'' = None"
    and "flag_Parse (others ++ map_of planner_flags) before = Inr (m, [])" "''--'' \<notin> set before"
  shows "planner_main b others h sch s (before @ setting (''parallelism'', n) # args) = Exit 2 ''''"
proof -
  have "(others ++ map_of planner_flags) ''parallelism'' = None"
    by (simp add: assms(2) planner_flags_def map_add_def)
  then have "m ''parallelism'' = None"
    using flag_Parse_append [OF assms(3,4)] by (metis domIff)
  then have "flag_Parse m (setting (''parallelism'', n) # args) = Inl (NotDefined ''parallelism'')"
    by (intro flag_Parse_unknown) (simp_all add: plain_name_def)
  then show ?thesis
    using flag_Parse_append [OF assms(3,4), of "setting (''parallelism'', n) # args"]
    by (simp add: planner_main_def planner_flags_defined [OF assms(1)] exit_status_def del: flag_Parse.simps)
qed

theorem parallelism_flag_rejected_witness:
  "planner_main ex_build Map.empty ex_host NewScheme () [''-debug'', ''--listen'', '':80'', ''--parallelism=4'', ''x''] =
     Exit 2 ''''"
proof -
  have "flag_Parse (Map.empty ++ map_of planner_flags) [''-debug'', ''--listen'', '':80''] =
      Inr ((map_of planner_flags)(''debug'' \<mapsto> BoolValue True, ''listen'' \<mapsto> StringValue '':80''), [])"
    by (simp add: flag_name_value_def planner_flags_def set_flag_def ParseBool_def Let_def)
  from parallelism_flag_rejected [OF _ _ this, of ex_build ex_host NewScheme "()" "''4''" "[''x'']"]
  show ?thesis by (simp add: setting_def)
qed

text \<open>
  Asking for the version needs nothing of the cluster: with \<^verbatim>\<open>--version --json\<close> both the planner and
  the manager print the same report and exit with status 0, whatever the libraries they would call
  do; the report is a single line, with no control character before its final newline.
\<close>

theorem version_needs_no_cluster:
  assumes "\<forall>nv \<in> set planner_flags. others (fst nv) = None" "\<forall>nv \<in> set manager_flags. others' (fst nv) = None"
  shows "planner_main b others h sch s [''--version'', ''--json''] = Exit 0 (print_version True b) \<and>
    manager_main b others' h' sch' r [''--version'', ''--json''] = Exit 0 (print_version True b) \<and>
    (\<exists>line. print_version True b = line @ nl \<and> list_all printable line)"
proof (intro conjI)
  show "planner_main b others h sch s [''--version'', ''--json''] = Exit 0 (print_version True b)"
    unfolding planner_main_def planner_flags_defined [OF assms(1)]
    by (simp add: flag_name_value_def planner_flags_def planner_config_def flag_simps ParseBool_def Let_def)
  have "controllers_Version b = get_Version b" by (simp add: controllers_Version_def get_Version_def)
  then show "manager_main b others' h' sch' r [''--version'', ''--json''] = Exit 0 (print_version True b)"
    unfolding manager_main_def manager_flags_defined [OF assms(2)]
    by (simp add: flag_name_value_def manager_flags_def manager_config_def flag_simps ParseBool_def
        print_version_def Let_def)
  show "\<exists>line. print_version True b = line @ nl \<and> list_all printable line"
    using json_Marshal_printable by (auto simp: print_version_def)
qed

definition ex_manager :: "(unit, unit) manager_host" where
  "ex_manager =
     \<lparr>mh_config_file = (\<lambda>path. if path = ''c.yaml'' then Inr \<lparr>fc_LeaderElect = Some True, fc_ResourceName = ''id''\<rparr>
         else Inl (External ''no such file'')),
      mh_GetConfig = Inr (), mh_NewManager = (\<lambda>_ _. Inr ()), mh_Complete = (\<lambda>_. Inr),
      mh_AddHealthzCheck = (\<lambda>_. Inr), mh_AddReadyzCheck = (\<lambda>_. Inr)\<rparr>"

theorem version_needs_no_cluster_witness:
  "planner_main ex_build Map.empty ex_host NewScheme () [''--version'', ''--json''] =
     Exit 0 (concat [''{'', [CHR 0x22], ''version'', [CHR 0x22], '':'', [CHR 0x22], ''1.0'', [CHR 0x22], '','',
       [CHR 0x22], ''vcsDirty'', [CHR 0x22], '':false,'', [CHR 0x22], ''os'', [CHR 0x22], '':'', [CHR 0x22], ''linux'',
       [CHR 0x22], ''}'', nl])"
proof -
  have "print_version True ex_build =
      concat [''{'', [CHR 0x22], ''version'', [CHR 0x22], '':'', [CHR 0x22], ''1.0'', [CHR 0x22], '','',
       [CHR 0x22], ''vcsDirty'', [CHR 0x22], '':false,'', [CHR 0x22], ''os'', [CHR 0x22], '':'', [CHR 0x22], ''linux'',
       [CHR 0x22], ''}'', nl]" by code_simp
  then show ?thesis
    using version_needs_no_cluster [of Map.empty Map.empty ex_build ex_host NewScheme "()" ex_manager NewScheme ex_start]
    by simp
qed

section \<open>The planner serves\<close>

text \<open>
  C21: a planner that can log, reach the cluster and listen comes up and serves: its handler has the
  three built-in filters and the configured number of workers (16 unless it is positive), and every
  call a client then makes through stubs, wire and server is answered as the planner itself answers
  it, with the same new state, when the request and the answer can be sent.
\<close>

theorem planner_process_serves:
  assumes "zap_New h (cfg_Debug c) = None" "getClients h sch (cfg_KubeConfig c) = Inr (cs, pc)"
    and "net_Listen h (cfg_Listen c) = None"
  shows "\<exists>p. start_planner h sch s c = Running p \<and> pp_clientset p = cs \<and> pp_client p = pc \<and>
    filterPredicates (pp_handler p) = in_tree_filters \<and>
    parallelism (pp_handler p) = (if cfg_Parallelism c \<le> 0 then 16 else nat (cfg_Parallelism c)) \<and>
    (\<forall>req m res m'. sendable_request req \<longrightarrow>
       APIServer_service (pp_handler p) (cs_listPods h cs) (cs_nodes h cs) (cs_envs h cs) req m = (res, m') \<longrightarrow>
       (\<forall>as. res = Inr as \<longrightarrow> sendable_response as) \<longrightarrow>
       schedulePlannerClient_BuildSchedulePlan wire_text (pp_server p) req m = (res, m'))"
proof -
  obtain ph where ph: "New [WithCallTimeout (cfg_CallTimeout c), WithParallelism (cfg_Parallelism c)] = Inr ph"
    "parallelism ph = (if cfg_Parallelism c \<le> 0 then 16 else nat (cfg_Parallelism c))"
    using New_in_tree by blast
  let ?srv = "APIServer_service ph (cs_listPods h cs) (cs_nodes h cs) (cs_envs h cs)"
  obtain gs where run: "APIServer_Run (net_Listen h) (cfg_Listen c) ?srv = Serving gs"
    using assms(3) by (simp add: APIServer_Run_serves)
  have answer: "schedulePlannerClient_BuildSchedulePlan wire_text gs req m = (res, m')"
    if "sendable_request req" "?srv req m = (res, m')" "\<forall>as. res = Inr as \<longrightarrow> sendable_response as" for req m res m'
  proof (rule remote_call_direct [OF run that(1,2)])
    show "\<forall>as. res = Inr as \<longrightarrow> sendable_response as \<and> distinct (map fst as)"
      using that(2,3)
      by (auto simp: APIServer_service_def APIServer_BuildSchedulePlan_def split: sum.splits prod.splits
          dest: BuildSchedulePlan_distinct)
  qed
  let ?p = "\<lparr>pp_clientset = cs, pp_client = pc, pp_handler = ph, pp_server = gs, pp_period = cfg_UpdateWorkerPeriod c\<rparr>"
  have "start_planner h sch s c = Running ?p"
    by (simp add: start_planner_def assms(1,2) NewPlanner_def ph(1) run)
  then show ?thesis using ph(2) New_planner(1) [OF ph(1)] answer by (intro exI [of _ ?p]) auto
qed

lemma ex_request_sendable: "sendable_request ex_request"
proof -
  have "Marshal_request ex_request = Inr (concat [[CHR 0x0A, CHR 0x02], ''ns'', [CHR 0x12, CHR 0x03], ''web'',
      [CHR 0x22, CHR 0x02], ''n1'', [CHR 0x22, CHR 0x00]])" by code_simp
  then show ?thesis by (simp add: sendable_request_def maxReceiveMessageSize_def)
qed

lemma empty_response_sendable: "sendable_response []"
proof -
  have "Marshal_response [] = Inr []" by code_simp
  then show ?thesis by (simp add: sendable_response_def)
qed

definition ex_idle_host :: "(unit, unit, unit) planner_host" where
  "ex_idle_host = ex_host\<lparr>cs_listPods := (\<lambda>_ _ _. Inr []), cs_nodes := (\<lambda>_. Inr [])\<rparr>"

lemma ex_idle_answer:
  "APIServer_service ph (cs_listPods ex_idle_host ()) (cs_nodes ex_idle_host ()) (cs_envs ex_idle_host ()) ex_request m =
     (Inr [], m)"
  by (simp add: APIServer_service_def APIServer_BuildSchedulePlan_def BuildSchedulePlan_def ex_idle_host_def ex_host_def
      ex_request_def BuildPlan_def getEligibleNodes_def swap_front_def Let_def)

theorem planner_process_serves_witness:
  "\<exists>p. start_planner ex_idle_host NewScheme () (planner_config (map_of planner_flags)) = Running p \<and>
     parallelism (pp_handler p) = 16 \<and>
     schedulePlannerClient_BuildSchedulePlan (\<lambda>_. '''') (pp_server p) ex_request Map.empty = (Inr [], Map.empty)"
proof -
  let ?c = "planner_config (map_of planner_flags)"
  have cfg: "cfg_Parallelism ?c = 16" "cfg_KubeConfig ?c = ''''"
    by (simp_all add: planner_config_def planner_flags_def flag_simps DefaultParallelism_def)
  have "getClients ex_idle_host NewScheme (cfg_KubeConfig ?c) = Inr ((), ())" "zap_New ex_idle_host (cfg_Debug ?c) = None"
    "net_Listen ex_idle_host (cfg_Listen ?c) = None"
    by (simp_all add: cfg getClients_def ex_idle_host_def ex_host_def NewSchedulePlannerClient_def)
  from planner_process_serves [OF this(2,1,3), of "()" "\<lambda>_. ''''"] ex_idle_answer ex_request_sendable
    empty_response_sendable
  show ?thesis by (auto simp: cfg)
qed

section \<open>The manager\<close>

lemma manager_main_settings:
  assumes "\<forall>nv \<in> set manager_flags. others (fst nv) = None" "\<forall>nv \<in> set nvs. plain_name (fst nv)"
    and "apply_settings (others ++ map_of manager_flags) nvs = Inr m" "\<not> mc_ShowVersion (manager_config m)"
  shows "manager_main b others h sch r (map setting nvs) =
    (case manager_options h sch (manager_config m) of Inl _ \<Rightarrow> Exit 1 '''' | Inr opts \<Rightarrow> run_manager h r opts)"
  using assms
  by (simp add: manager_main_def manager_flags_defined flag_Parse_settings Let_def)

text \<open>
  A leader is elected when the command line or the configuration file asks for it: the flag
  cannot switch the election off again that the file switches on, and the name of the lock is always
  the one compiled into the manager, never the one in the file.
\<close>

theorem leader_election_flag_or_file:
  assumes "\<forall>nv \<in> set manager_flags. others (fst nv) = None" "path \<noteq> ''''" "mh_config_file h path = Inr file"
  shows "manager_main b others h sch r (map setting [(''config'', path), (''enable-leader-election'', sprint_bool flag)]) =
    run_manager h r \<lparr>opt_Scheme = sch, opt_LeaderElection = (flag \<or> fc_LeaderElect file = Some True),
      opt_LeaderElectionID = leaderElectionID\<rparr>"
proof -
  let ?m = "(others ++ map_of manager_flags)(''config'' \<mapsto> StringValue path, ''enable-leader-election'' \<mapsto> BoolValue flag)"
  have "apply_settings (others ++ map_of manager_flags)
      [(''config'', path), (''enable-leader-election'', sprint_bool flag)] = Inr ?m"
    by (simp add: manager_flags_def set_flag_def ParseBool_sprint)
  from manager_main_settings [OF assms(1) _ this, of b h sch r] assms(2,3)
  show ?thesis
    by (cases "fc_LeaderElect file"; cases flag)
      (simp_all add: plain_name_def manager_config_def flag_simps manager_flags_def manager_options_def
        setLeaderElectionConfig_def leaderElectionID_def Let_def)
qed

theorem leader_election_flag_or_file_witness:
  "manager_main ex_build Map.empty ex_manager NewScheme ex_start [''--config=c.yaml'', ''--enable-leader-election=false''] =
     run_manager ex_manager ex_start \<lparr>opt_Scheme = NewScheme, opt_LeaderElection = True, opt_LeaderElectionID = leaderElectionID\<rparr>"
  using leader_election_flag_or_file [of Map.empty "''c.yaml''" ex_manager "\<lparr>fc_LeaderElect = Some True, fc_ResourceName = ''id''\<rparr>"
      ex_build NewScheme ex_start False]
  by (simp add: ex_manager_def setting_def sprint_bool_def)

text \<open>
  Whatever the command line, a manager that gets as far as running has registered a controller
  for each of its two kinds, its two health checks last, and starts its trigger controller with no
  timers, so in every state the controller then reaches the timers it knows are exactly the timer
  goroutines that have not returned.
\<close>

theorem running_manager_keeps_timers:
  assumes "manager_main b others h sch r args = Running (mgr, r')" "refs r = []" "sending r = None"
    and "reachable (\<lambda>r. r = r') (controller_step tk) r''"
  shows "(\<exists>m0 m1 m2 m3. mh_Complete h (v1alpha1 ''SchedulePlan'') m0 = Inr m1 \<and>
      mh_Complete h (v1alpha1 ''ScheduleTrigger'') m1 = Inr m2 \<and>
      mh_AddHealthzCheck h ''healthz'' m2 = Inr m3 \<and> mh_AddReadyzCheck h ''readyz'' m3 = Inr mgr) \<and>
    (\<forall>key i. scheduleTriggerMap r'' key = Some i \<longleftrightarrow>
      i < length (refs r'') \<and> loop_at (refs r'' ! i) \<noteq> Returned \<and> trigger_key (loop_trigger (refs r'' ! i)) = key)"
proof -
  obtain opts where "run_manager h r opts = Running (mgr, r')"
    using assms(1) by (auto simp: manager_main_def Let_def split: option.splits sum.splits if_splits)
  then have steps: "\<exists>m0 m1 m2 m3. mh_Complete h (v1alpha1 ''SchedulePlan'') m0 = Inr m1 \<and>
      mh_Complete h (v1alpha1 ''ScheduleTrigger'') m1 = Inr m2 \<and>
      mh_AddHealthzCheck h ''healthz'' m2 = Inr m3 \<and> mh_AddReadyzCheck h ''readyz'' m3 = Inr mgr"
    and r': "r' = SetupWithManager r"
    by (auto simp: run_manager_def SchedulePlan_SetupWithManager_def ScheduleTrigger_SetupWithManager_def
        split: sum.splits) blast
  from r' assms(2,3) have "controller_start r'" by (simp add: controller_start_def SetupWithManager_def)
  with assms(4) have "reachable controller_start (controller_step tk) r''"
    by (induction rule: reachable.induct) (auto intro: reachable.intros)
  from controller.reachable_inv [OF this] steps show ?thesis by (simp add: controller_inv_def live_def)
qed

lemma ex_manager_runs:
  "manager_main ex_build Map.empty ex_manager NewScheme ex_start [] = Running ((), ex_start)"
proof -
  have fresh: "\<forall>nv \<in> set manager_flags. (Map.empty :: formal) (fst nv) = None" by simp
  show ?thesis
    unfolding manager_main_def manager_flags_defined [OF fresh]
    by (simp add: manager_config_def flag_simps manager_flags_def manager_options_def run_manager_def ex_manager_def
        SchedulePlan_SetupWithManager_def ScheduleTrigger_SetupWithManager_def SetupWithManager_def ex_start_def Let_def)
qed

theorem running_manager_keeps_timers_witness:
  "scheduleTriggerMap ex_one (trigger_key ex_quiet) = Some 0 \<and> loop_at (refs ex_one ! 0) = Selecting"
proof -
  have "reachable (\<lambda>r. r = ex_start) (controller_step list_trigger_kube) ex_start" by (rule reachable_start) simp
  then have "reachable (\<lambda>r. r = ex_start) (controller_step list_trigger_kube) ex_one"
    unfolding ex_one_def by (rule reachable_step) (rule reconcile, simp add: ex_start_def)
  from running_manager_keeps_timers [OF ex_manager_runs _ _ this]
  show ?thesis by (simp add: ex_one_simps ex_start_def)
qed

end
