(* ===== verification/UpdateWorker.thy ===== *)
theory UpdateWorker
  imports Planner
begin

text \<open>
  The retries of the planner as they run: the queue of client-go with its sets and delays, the
  goroutine that \<^verbatim>\<open>listenForUpdateEvents\<close> starts with \<^verbatim>\<open>wait.Until\<close>, and \<^verbatim>\<open>Stop\<close>. Theory Planner
  has the queue as a list of removals; here that list is refined: items are pointers, which wait for
  their delay, are queued once, and are being processed by the worker while other events arrive.
\<close>

section \<open>The queue\<close>

text \<open>
  \<^verbatim>\<open>workqueue.Type\<close> with the delaying queue on top. An item is the address of its \<^verbatim>\<open>workWrapper\<close>; the
  delays of the rate limiter are positive, and when one ends is left open.
\<close>

record WorkQueue =
  q_queue :: "nat list"
  q_dirty :: "nat set"
  q_processing :: "nat set"
  q_shuttingDown :: bool
  q_waiting :: "nat set"

definition NewRateLimitingQueue :: WorkQueue where
  "NewRateLimitingQueue =
     \<lparr>q_queue = [], q_dirty = {}, q_processing = {}, q_shuttingDown = False, q_waiting = {}\<rparr>"

definition queue_Add :: "nat \<Rightarrow> WorkQueue \<Rightarrow> WorkQueue" where
  "queue_Add item q =
     (if q_shuttingDown q then q
      else if item \<in> q_dirty q then q
      else
        let q = q\<lparr>q_dirty := insert item (q_dirty q)\<rparr>
        in if item \<in> q_processing q then q else q\<lparr>q_queue := q_queue q @ [item]\<rparr>)"

text \<open>\<^verbatim>\<open>Get\<close> when it does not block: the item, or \<open>None\<close> when the queue is shut down and empty.\<close>

definition queue_Get :: "WorkQueue \<Rightarrow> (nat option \<times> WorkQueue) option" where
  "queue_Get q =
     (case q_queue q of
        [] \<Rightarrow> if q_shuttingDown q then Some (None, q) else None
      | item # items \<Rightarrow>
          Some (Some item, q\<lparr>q_queue := items, q_processing := insert item (q_processing q),
             q_dirty := q_dirty q - {item}\<rparr>))"

definition queue_Done :: "nat \<Rightarrow> WorkQueue \<Rightarrow> WorkQueue" where
  "queue_Done item q =
     (let q = q\<lparr>q_processing := q_processing q - {item}\<rparr>
      in if item \<in> q_dirty q then q\<lparr>q_queue := q_queue q @ [item]\<rparr> else q)"

definition queue_ShutDown :: "WorkQueue \<Rightarrow> WorkQueue" where
  "queue_ShutDown q = q\<lparr>q_shuttingDown := True\<rparr>"

definition AddRateLimited :: "nat \<Rightarrow> WorkQueue \<Rightarrow> WorkQueue" where
  "AddRateLimited item q = (if q_shuttingDown q then q else q\<lparr>q_waiting := insert item (q_waiting q)\<rparr>)"

text \<open>The loop of the delaying queue finds that the delay of an item has ended.\<close>

definition delay_ends :: "nat \<Rightarrow> WorkQueue \<Rightarrow> WorkQueue" where
  "delay_ends item q = queue_Add item (q\<lparr>q_waiting := q_waiting q - {item}\<rparr>)"

section \<open>The worker\<close>

text \<open>Where the goroutine of \<^verbatim>\<open>wait.Until\<close> is.\<close>

datatype worker_at =
    AtTop             \<comment> \<open>before the check of the stop channel\<close>
  | Getting           \<comment> \<open>in \<^verbatim>\<open>Get\<close>\<close>
  | Working nat       \<comment> \<open>in \<^verbatim>\<open>processUpdate\<close>\<close>
  | Finishing nat     \<comment> \<open>before the deferred \<^verbatim>\<open>Done\<close>\<close>
  | Sleeping          \<comment> \<open>in the select of the period and the stop channel\<close>
  | Stopped

record 's update_system =
  us_map :: assignments
  us_api :: 's
  us_items :: "workWrapper list"
  us_queue :: WorkQueue
  us_worker :: worker_at
  us_quit :: bool
  us_listening :: bool     \<comment> \<open>\<^verbatim>\<open>listenForUpdateEvents\<close> waits for \<^verbatim>\<open>quit\<close>\<close>

text \<open>The queue and the goroutine that \<^verbatim>\<open>NewPlanner\<close> makes.\<close>

definition new_system :: "'s \<Rightarrow> 's update_system" where
  "new_system s =
     \<lparr>us_map = Map.empty, us_api = s, us_items = [], us_queue = NewRateLimitingQueue, us_worker = AtTop,
      us_quit = False, us_listening = True\<rparr>"

text \<open>A removal that failed is queued under a new address.\<close>

definition retry_later :: "'s update_system \<Rightarrow> workWrapper \<Rightarrow> 's update_system" where
  "retry_later us w =
     us\<lparr>us_items := us_items us @ [w], us_queue := AddRateLimited (length (us_items us)) (us_queue us)\<rparr>"

text \<open>The informer's update event, with the handler of theory Planner.\<close>

definition updateFunc :: "'s kube \<Rightarrow> Pod \<Rightarrow> Pod \<Rightarrow> 's update_system \<Rightarrow> 's update_system" where
  "updateFunc kc oldPod newPod us =
     (let p = handlePodUpdate kc oldPod newPod \<lparr>podToNodeMap = us_map us, updateQueue = [], api = us_api us\<rparr>
      in foldl retry_later (us\<lparr>us_map := podToNodeMap p, us_api := api p\<rparr>) (updateQueue p))"

definition system_processUpdate :: "'s kube \<Rightarrow> nat \<Rightarrow> 's update_system \<Rightarrow> 's update_system" where
  "system_processUpdate kc item us =
     (case doUpdate kc (us_items us ! item) (us_api us) of
        (None, s') \<Rightarrow> us\<lparr>us_api := s'\<rparr>
      | (Some e, s') \<Rightarrow> us\<lparr>us_api := s', us_queue := AddRateLimited item (us_queue us)\<rparr>)"

definition system_Stop :: "'s update_system \<Rightarrow> 's update_system" where
  "system_Stop us = us\<lparr>us_quit := True\<rparr>"

text \<open>The steps of the worker, and the steps around it.\<close>

inductive worker_step :: "'s kube \<Rightarrow> 's update_system \<Rightarrow> 's update_system \<Rightarrow> bool" for kc where
  stop_seen: "us_worker us = AtTop \<Longrightarrow> us_quit us \<Longrightarrow> worker_step kc us (us\<lparr>us_worker := Stopped\<rparr>)"
| call: "us_worker us = AtTop \<Longrightarrow> \<not> us_quit us \<Longrightarrow> worker_step kc us (us\<lparr>us_worker := Getting\<rparr>)"
| get: "us_worker us = Getting \<Longrightarrow> queue_Get (us_queue us) = Some (Some item, q) \<Longrightarrow>
    worker_step kc us (us\<lparr>us_queue := q, us_worker := Working item\<rparr>)"
| get_quit: "us_worker us = Getting \<Longrightarrow> queue_Get (us_queue us) = Some (None, q) \<Longrightarrow>
    worker_step kc us (us\<lparr>us_queue := q, us_worker := Sleeping\<rparr>)"
| work: "us_worker us = Working item \<Longrightarrow>
    worker_step kc us ((system_processUpdate kc item us)\<lparr>us_worker := Finishing item\<rparr>)"
| finish: "us_worker us = Finishing item \<Longrightarrow>
    worker_step kc us (us\<lparr>us_queue := queue_Done item (us_queue us), us_worker := Sleeping\<rparr>)"
| wake: "us_worker us = Sleeping \<Longrightarrow> worker_step kc us (us\<lparr>us_worker := AtTop\<rparr>)"
| stop_asleep: "us_worker us = Sleeping \<Longrightarrow> us_quit us \<Longrightarrow> worker_step kc us (us\<lparr>us_worker := Stopped\<rparr>)"

inductive update_step :: "'s kube \<Rightarrow> 's update_system \<Rightarrow> 's update_system \<Rightarrow> bool" for kc where
  worker: "worker_step kc us us' \<Longrightarrow> update_step kc us us'"
| pod: "update_step kc us (updateFunc kc oldPod newPod us)"
| planned: "update_step kc us (us\<lparr>us_map := m\<rparr>)"
| outside: "update_step kc us (us\<lparr>us_api := s'\<rparr>)"
| ready: "item \<in> q_waiting (us_queue us) \<Longrightarrow> \<not> q_shuttingDown (us_queue us) \<Longrightarrow>
    update_step kc us (us\<lparr>us_queue := delay_ends item (us_queue us)\<rparr>)"
| stop: "update_step kc us (system_Stop us)"
| shutdown: "us_quit us \<Longrightarrow> us_listening us \<Longrightarrow>
    update_step kc us (us\<lparr>us_queue := queue_ShutDown (us_queue us), us_listening := False\<rparr>)"

inductive_cases worker_stepE: "worker_step kc us us'"
inductive_cases update_stepE: "update_step kc us us'"

section \<open>The invariant\<close>

definition busy :: "worker_at \<Rightarrow> nat set" where
  "busy w = (case w of Working i \<Rightarrow> {i} | Finishing i \<Rightarrow> {i} | _ \<Rightarrow> {})"

definition queue_inv :: "'s update_system \<Rightarrow> bool" where
  "queue_inv us \<longleftrightarrow> (let q = us_queue us in
     distinct (q_queue q) \<and> q_processing q = busy (us_worker us) \<and>
     set (q_queue q) = q_dirty q - q_processing q \<and> q_dirty q \<inter> q_waiting q = {} \<and>
     (\<forall>i. us_worker us = Working i \<longrightarrow> i \<notin> q_dirty q \<union> q_waiting q) \<and>
     q_dirty q \<union> q_waiting q \<union> q_processing q \<subseteq> {..<length (us_items us)} \<and>
     (us_listening us \<longleftrightarrow> \<not> q_shuttingDown q) \<and> (q_shuttingDown q \<longrightarrow> us_quit us) \<and>
     (us_worker us = Stopped \<longrightarrow> us_quit us))"

text \<open>The removals that are still to be made.\<close>

definition due :: "'s update_system \<Rightarrow> nat set" where
  "due us = q_dirty (us_queue us) \<union> q_waiting (us_queue us) \<union>
     (case us_worker us of Working i \<Rightarrow> {i} | _ \<Rightarrow> {})"

lemmas queue_defs = queue_Add_def queue_Done_def queue_ShutDown_def AddRateLimited_def delay_ends_def Let_def

lemma new_system_inv: "queue_inv (new_system s)"
  by (simp add: queue_inv_def new_system_def NewRateLimitingQueue_def busy_def)

lemma retry_later_inv:
  assumes "queue_inv us"
  shows "queue_inv (retry_later us w)"
proof -
  have "length (us_items us) \<notin> q_dirty (us_queue us)" "us_worker us = Working i \<Longrightarrow> i \<noteq> length (us_items us)" for i
    using assms by (auto simp: queue_inv_def Let_def busy_def)
  with assms show ?thesis
    by (auto simp: queue_inv_def retry_later_def AddRateLimited_def Let_def less_Suc_eq)
qed

lemma retry_later_frame [simp]:
  "us_map (foldl retry_later us ws) = us_map us" "us_api (foldl retry_later us ws) = us_api us"
  "us_worker (foldl retry_later us ws) = us_worker us" "us_quit (foldl retry_later us ws) = us_quit us"
  "q_shuttingDown (us_queue (foldl retry_later us ws)) = q_shuttingDown (us_queue us)"
  by (induction ws arbitrary: us) (simp_all add: retry_later_def AddRateLimited_def)

lemma retry_all_inv: "queue_inv us \<Longrightarrow> queue_inv (foldl retry_later us ws)"
  by (induction ws arbitrary: us) (simp_all add: retry_later_inv)

lemma queue_inv_frame:
  "queue_inv (us\<lparr>us_map := m\<rparr>) = queue_inv us" "queue_inv (us\<lparr>us_api := s'\<rparr>) = queue_inv us"
  by (simp_all add: queue_inv_def)

lemma updateFunc_inv: "queue_inv us \<Longrightarrow> queue_inv (updateFunc kc oldPod newPod us)"
  unfolding updateFunc_def Let_def by (rule retry_all_inv) (simp add: queue_inv_frame)

lemma processUpdate_frame [simp]:
  "us_worker (system_processUpdate kc i us) = us_worker us" "us_quit (system_processUpdate kc i us) = us_quit us"
  "us_items (system_processUpdate kc i us) = us_items us" "us_map (system_processUpdate kc i us) = us_map us"
  "us_listening (system_processUpdate kc i us) = us_listening us"
  "q_shuttingDown (us_queue (system_processUpdate kc i us)) = q_shuttingDown (us_queue us)"
  by (simp_all add: system_processUpdate_def AddRateLimited_def split: prod.split option.split)

lemma work_inv:
  assumes "queue_inv us" "us_worker us = Working item"
  shows "queue_inv ((system_processUpdate kc item us)\<lparr>us_worker := Finishing item\<rparr>)"
  using assms
  by (auto simp: queue_inv_def system_processUpdate_def AddRateLimited_def busy_def Let_def
      split: prod.split option.split)

lemma get_inv:
  assumes "queue_inv us" "us_worker us = Getting" "queue_Get (us_queue us) = Some (Some item, q)"
  shows "queue_inv (us\<lparr>us_queue := q, us_worker := Working item\<rparr>)"
  using assms
  by (auto simp: queue_inv_def queue_Get_def busy_def Let_def split: list.splits if_splits)

lemma finish_inv:
  assumes "queue_inv us" "us_worker us = Finishing item"
  shows "queue_inv (us\<lparr>us_queue := queue_Done item (us_queue us), us_worker := Sleeping\<rparr>)"
  using assms by (auto simp: queue_inv_def queue_Done_def busy_def Let_def)

lemma worker_step_inv: "worker_step kc us us' \<Longrightarrow> queue_inv us \<Longrightarrow> queue_inv us'"
  by (erule worker_stepE; (simp add: work_inv get_inv finish_inv; fail)?)
    (auto simp: queue_inv_def queue_Get_def busy_def Let_def split: list.splits if_splits)

lemma delay_ends_inv:
  assumes "queue_inv us" "item \<in> q_waiting (us_queue us)"
  shows "queue_inv (us\<lparr>us_queue := delay_ends item (us_queue us)\<rparr>)"
  using assms by (auto simp: queue_inv_def delay_ends_def queue_Add_def busy_def Let_def split: worker_at.splits)

lemma update_step_inv: "update_step kc us us' \<Longrightarrow> queue_inv us \<Longrightarrow> queue_inv us'"
  by (erule update_stepE)
    (auto simp: worker_step_inv updateFunc_inv queue_inv_frame delay_ends_inv,
     auto simp: queue_inv_def system_Stop_def queue_ShutDown_def Let_def)

interpretation update_worker: invariant_system "\<lambda>us. \<exists>s. us = new_system s" "update_step kc" queue_inv
  for kc :: "'s kube"
proof
  show "\<exists>s. us = new_system s \<Longrightarrow> queue_inv us" for us :: "'s update_system"
    by (auto simp: new_system_inv)
qed (rule update_step_inv)

section \<open>Stopping\<close>

text \<open>How many steps the worker has left once the planner is stopped.\<close>

definition steps_left :: "worker_at \<Rightarrow> nat" where
  "steps_left w =
     (case w of Stopped \<Rightarrow> 0 | AtTop \<Rightarrow> 1 | Sleeping \<Rightarrow> 2 | Finishing _ \<Rightarrow> 3 | Working _ \<Rightarrow> 4 | Getting \<Rightarrow> 5)"

lemma worker_step_left:
  "worker_step kc us us' \<Longrightarrow> us_quit us \<Longrightarrow> us_quit us' \<and> steps_left (us_worker us') < steps_left (us_worker us)"
  by (erule worker_stepE) (simp_all add: steps_left_def)

lemma update_step_left:
  "update_step kc us us' \<Longrightarrow> us_quit us \<Longrightarrow> us_quit us' \<and> steps_left (us_worker us') \<le> steps_left (us_worker us)"
  by (erule update_stepE)
    (use worker_step_left in \<open>fastforce simp: updateFunc_def system_Stop_def Let_def\<close>)+

lemma worker_shut_down: "worker_step kc us us' \<Longrightarrow> q_shuttingDown (us_queue us') = q_shuttingDown (us_queue us)"
  by (erule worker_stepE) (auto simp: queue_Get_def queue_Done_def Let_def split: list.splits if_splits)

lemma worker_enabled:
  assumes "queue_inv us" "us_quit us" "us_worker us \<noteq> Stopped" "q_shuttingDown (us_queue us)"
  shows "\<exists>us'. worker_step kc us us'"
proof (cases "us_worker us")
  case Getting
  then show ?thesis
    by (cases "q_queue (us_queue us)") (use assms(4) get [OF Getting] get_quit [OF Getting] in \<open>auto simp: queue_Get_def\<close>)
qed (use assms in \<open>auto intro: worker_step.intros\<close>)

text \<open>A queue that is shut down: the worker goes on until it has stopped.\<close>

definition closing :: "'s update_system \<Rightarrow> bool" where
  "closing us \<longleftrightarrow> queue_inv us \<and> us_quit us \<and> q_shuttingDown (us_queue us)"

interpretation worker_end: progress_system closing "worker_step kc" closing "\<lambda>us. us_worker us = Stopped" "\<lambda>us. steps_left (us_worker us)"
  for kc :: "'s kube"
proof
  show "closing us'" if "closing us" "worker_step kc us us'" for us us' :: "'s update_system"
    using that worker_step_inv [OF that(2)] worker_step_left [OF that(2)] worker_shut_down [OF that(2)] by (simp add: closing_def)
  show "\<exists>us'. worker_step kc us us' \<and> steps_left (us_worker us') < steps_left (us_worker us)"
    if "closing us" "us_worker us \<noteq> Stopped" for us :: "'s update_system"
    using that worker_enabled worker_step_left unfolding closing_def by blast
qed

lemma worker_run: "(worker_step kc)\<^sup>*\<^sup>* us us' \<Longrightarrow> (update_step kc)\<^sup>*\<^sup>* us us'"
  using rtranclp_mono [of "worker_step kc" "update_step kc"] by (auto intro: worker)

lemma worker_finishes:
  assumes "queue_inv us" "us_quit us" "q_shuttingDown (us_queue us)"
  shows "\<exists>us'. (update_step kc)\<^sup>*\<^sup>* us us' \<and> us_worker us' = Stopped"
  using worker_end.inv_reaches_goal [of us kc] assms worker_run unfolding closing_def by blast

text \<open>
  C23: after \<^verbatim>\<open>Stop\<close> the worker comes to its end: from every reachable state a run of the system
  takes it there, for a worker that waits for an item is woken by the queue being shut down;
  every step of the worker uses up one of at most five, and nothing else gives it new ones.
\<close>

theorem worker_stops:
  assumes "reachable (\<lambda>us. \<exists>s. us = new_system s) (update_step kc) us" "us_quit us"
  shows "(\<exists>us'. (update_step kc)\<^sup>*\<^sup>* us us' \<and> us_worker us' = Stopped) \<and>
    steps_left (us_worker us) \<le> 5 \<and>
    (\<forall>us'. worker_step kc us us' \<longrightarrow> us_quit us' \<and> steps_left (us_worker us') < steps_left (us_worker us)) \<and>
    (\<forall>us'. update_step kc us us' \<longrightarrow> us_quit us' \<and> steps_left (us_worker us') \<le> steps_left (us_worker us))"
proof (intro conjI)
  have inv: "queue_inv us" by (rule update_worker.reachable_inv [OF assms(1)])
  show "\<exists>us'. (update_step kc)\<^sup>*\<^sup>* us us' \<and> us_worker us' = Stopped"
  proof (cases "q_shuttingDown (us_queue us)")
    case False
    let ?u = "us\<lparr>us_queue := queue_ShutDown (us_queue us), us_listening := False\<rparr>"
    have down: "update_step kc us ?u" using assms(2) inv False by (intro shutdown) (auto simp: queue_inv_def Let_def)
    have "queue_inv ?u" by (rule update_step_inv [OF down inv])
    from worker_finishes [OF this] assms(2) obtain us' where
      "(update_step kc)\<^sup>*\<^sup>* ?u us'" "us_worker us' = Stopped" by (auto simp: queue_ShutDown_def)
    then show ?thesis using converse_rtranclp_into_rtranclp [of "update_step kc" us ?u us'] down by blast
  qed (use worker_finishes [OF inv assms(2)] in blast)
  show "steps_left (us_worker us) \<le> 5" by (simp add: steps_left_def split: worker_at.split)
qed (use worker_step_left update_step_left assms(2) in blast)+

text \<open>A planner stopped while its worker waits for an item.\<close>

definition ex_waiting :: "(NamespacedName, SchedulePlan) gomap update_system" where
  "ex_waiting = (new_system [])\<lparr>us_worker := Getting\<rparr>"

lemma ex_waiting_reachable:
  "reachable (\<lambda>us. \<exists>s. us = new_system s) (update_step kc) ex_waiting"
proof -
  have "reachable (\<lambda>us. \<exists>s. us = new_system s) (update_step kc) (new_system [])" by (rule reachable_start) blast
  then show ?thesis
    unfolding ex_waiting_def by (rule reachable_step) (intro worker call; simp add: new_system_def)
qed

theorem worker_stops_witness:
  "\<exists>us'. (update_step map_kube)\<^sup>*\<^sup>* (system_Stop ex_waiting) us' \<and> us_worker us' = Stopped"
proof -
  have "reachable (\<lambda>us. \<exists>s. us = new_system s) (update_step map_kube) (system_Stop ex_waiting)"
    using ex_waiting_reachable by (rule reachable_step) (rule stop)
  from worker_stops [OF this] show ?thesis by (simp add: system_Stop_def)
qed

section \<open>The queue refines the list of removals\<close>

text \<open>
  The abstract planner of theory Planner: pods change, a removal that is due is tried, plans are
  made, and the API server changes. Which removal is due is left open.
\<close>

inductive retry_step :: "'s kube \<Rightarrow> 's PodSetPlanner \<Rightarrow> 's PodSetPlanner \<Rightarrow> bool" for kc where
  pod_changes: "retry_step kc p (handlePodUpdate kc oldPod newPod p)"
| retry: "w \<in> set (updateQueue p) \<Longrightarrow>
    retry_step kc p (processUpdate kc w (p\<lparr>updateQueue := remove1 w (updateQueue p)\<rparr>))"
| plans: "retry_step kc p (p\<lparr>podToNodeMap := m\<rparr>)"
| server: "retry_step kc p (p\<lparr>api := s'\<rparr>)"

definition pending_items :: "'s update_system \<Rightarrow> workWrapper multiset" where
  "pending_items us = image_mset ((!) (us_items us)) (mset_set (due us))"

definition represents :: "'s update_system \<Rightarrow> 's PodSetPlanner \<Rightarrow> bool" where
  "represents us p \<longleftrightarrow>
     podToNodeMap p = us_map us \<and> api p = us_api us \<and> mset (updateQueue p) = pending_items us"

lemma pending_bounded: "queue_inv us \<Longrightarrow> due us \<subseteq> {..<length (us_items us)}"
  by (auto simp: queue_inv_def due_def busy_def Let_def split: worker_at.splits)

lemma pending_finite: "queue_inv us \<Longrightarrow> finite (due us)"
  using pending_bounded finite_subset by blast

text \<open>The events the worker is not concerned with do not change what is pending.\<close>

lemma retry_later_pending:
  assumes "queue_inv us" "\<not> q_shuttingDown (us_queue us)"
  shows "pending_items (retry_later us w) = add_mset w (pending_items us)"
proof -
  let ?n = "length (us_items us)"
  have p: "due (retry_later us w) = insert ?n (due us)"
    using assms(2) by (auto simp: due_def retry_later_def AddRateLimited_def)
  have "?n \<notin> due us" using pending_bounded [OF assms(1)] by auto
  moreover have "image_mset ((!) (us_items us @ [w])) (mset_set (due us)) =
      image_mset ((!) (us_items us)) (mset_set (due us))"
    using pending_bounded [OF assms(1)] pending_finite [OF assms(1)]
    by (intro image_mset_cong) (auto simp: nth_append)
  ultimately show ?thesis
    using pending_finite [OF assms(1)] by (simp add: pending_items_def p) (simp add: retry_later_def)
qed

lemma retry_all_pending:
  "queue_inv us \<Longrightarrow> \<not> q_shuttingDown (us_queue us) \<Longrightarrow>
     pending_items (foldl retry_later us ws) = pending_items us + mset ws"
proof (induction ws arbitrary: us)
  case (Cons w ws)
  have "\<not> q_shuttingDown (us_queue (retry_later us w))"
    using Cons.prems(2) by (simp add: retry_later_def AddRateLimited_def)
  with Cons retry_later_inv [OF Cons.prems(1)] show ?case by (simp add: retry_later_pending)
qed simp

lemma handlePodUpdate_queue:
  "updateQueue (handlePodUpdate kc oldPod newPod p) =
     updateQueue p @ updateQueue (handlePodUpdate kc oldPod newPod (p\<lparr>updateQueue := []\<rparr>))"
  "podToNodeMap (handlePodUpdate kc oldPod newPod (p\<lparr>updateQueue := []\<rparr>)) =
     podToNodeMap (handlePodUpdate kc oldPod newPod p)"
  "api (handlePodUpdate kc oldPod newPod (p\<lparr>updateQueue := []\<rparr>)) = api (handlePodUpdate kc oldPod newPod p)"
  by (simp_all add: handlePodUpdate_def handlePodDeleteWithLock_def removePodFromPlanner_def Let_def
      split: option.split prod.split)

lemma updateFunc_refines:
  assumes "queue_inv us" "\<not> q_shuttingDown (us_queue us)" "represents us p"
  shows "represents (updateFunc kc oldPod newPod us) (handlePodUpdate kc oldPod newPod p)"
proof -
  have "p\<lparr>updateQueue := []\<rparr> = \<lparr>podToNodeMap = us_map us, updateQueue = [], api = us_api us\<rparr>"
    using assms(3) by (cases p) (simp add: represents_def)
  moreover have "pending_items (us\<lparr>us_map := m, us_api := s'\<rparr>) = pending_items us" for m s'
    by (simp add: pending_items_def due_def)
  ultimately show ?thesis
    using assms handlePodUpdate_queue [of kc oldPod newPod p]
    by (simp add: represents_def updateFunc_def Let_def retry_all_pending queue_inv_frame)
qed

lemma work_refines:
  assumes "queue_inv us" "us_worker us = Working i" "\<not> q_shuttingDown (us_queue us)" "represents us p"
  shows "retry_step kc p (processUpdate kc (us_items us ! i) (p\<lparr>updateQueue := remove1 (us_items us ! i) (updateQueue p)\<rparr>)) \<and>
    represents ((system_processUpdate kc i us)\<lparr>us_worker := Finishing i\<rparr>)
      (processUpdate kc (us_items us ! i) (p\<lparr>updateQueue := remove1 (us_items us ! i) (updateQueue p)\<rparr>))"
proof -
  let ?w = "us_items us ! i" and ?us = "(system_processUpdate kc i us)\<lparr>us_worker := Finishing i\<rparr>"
  let ?rest = "q_dirty (us_queue us) \<union> q_waiting (us_queue us)"
  have i: "due us = insert i ?rest" "i \<notin> ?rest"
    using assms(1,2) by (auto simp: due_def queue_inv_def Let_def)
  then have fin: "finite ?rest" using pending_finite [OF assms(1)] by simp
  have all: "pending_items us = add_mset ?w (image_mset ((!) (us_items us)) (mset_set ?rest))"
    by (simp add: pending_items_def i(1) mset_set.insert [OF fin i(2)])
  have p: "mset (updateQueue p) = pending_items us" "api p = us_api us" "podToNodeMap p = us_map us"
    using assms(4) by (simp_all add: represents_def)
  then have mem: "?w \<in> set (updateQueue p)" by (simp add: all flip: set_mset_mset)
  have "represents ?us (processUpdate kc ?w (p\<lparr>updateQueue := remove1 ?w (updateQueue p)\<rparr>))"
  proof (cases "doUpdate kc ?w (us_api us)")
    case (Pair e s')
    have "due ?us = (if e = None then ?rest else insert i ?rest)"
      using assms(3) by (auto simp: due_def system_processUpdate_def AddRateLimited_def Pair split: option.split)
    then show ?thesis
      using p all mset_set.insert [OF fin i(2)]
      by (cases e) (simp_all add: represents_def processUpdate_def system_processUpdate_def Pair pending_items_def)
  qed
  with retry [OF mem] show ?thesis by blast
qed

text \<open>The other steps of the worker leave what is pending as it is.\<close>

lemma worker_step_pending:
  assumes "queue_inv us" "worker_step kc us us'" "\<And>i. us_worker us \<noteq> Working i"
  shows "due us' = due us \<and> us_items us' = us_items us \<and> us_map us' = us_map us \<and> us_api us' = us_api us"
  using assms(2)
proof (cases rule: worker_step.cases)
  case (get item q)
  with assms(1) show ?thesis
    by (auto simp: due_def queue_inv_def queue_Get_def busy_def Let_def split: list.splits if_splits)
next
  case (work item)
  with assms(3) [of item] show ?thesis by simp
qed (use assms(1) in \<open>auto simp: due_def queue_Get_def queue_Done_def Let_def split: list.splits if_splits\<close>)

lemma delay_ends_pending:
  "item \<in> q_waiting (us_queue us) \<Longrightarrow> \<not> q_shuttingDown (us_queue us) \<Longrightarrow>
     due (us\<lparr>us_queue := delay_ends item (us_queue us)\<rparr>) = due us"
  by (auto simp: due_def delay_ends_def queue_Add_def Let_def)

lemma shut_down_for_good:
  "update_step kc us us' \<Longrightarrow> q_shuttingDown (us_queue us) \<Longrightarrow> q_shuttingDown (us_queue us')"
  by (erule update_stepE)
    (simp_all add: worker_shut_down updateFunc_def system_Stop_def queue_ShutDown_def Let_def)

lemma represents_frame:
  "due us' = due us \<Longrightarrow> us_items us' = us_items us \<Longrightarrow> us_map us' = us_map us \<Longrightarrow> us_api us' = us_api us \<Longrightarrow>
     represents us' p = represents us p"
  by (simp add: represents_def pending_items_def)

lemma worker_step_refines:
  assumes "queue_inv us" "worker_step kc us us'" "\<not> q_shuttingDown (us_queue us)" "represents us p"
  shows "\<exists>p'. (p' = p \<or> retry_step kc p p') \<and> represents us' p'"
proof (cases "\<exists>i. us_worker us = Working i")
  case True
  then obtain i where i: "us_worker us = Working i" ..
  with assms(2) have "us' = (system_processUpdate kc i us)\<lparr>us_worker := Finishing i\<rparr>"
    by (auto elim: worker_stepE)
  with work_refines [OF assms(1) i assms(3,4)] show ?thesis by blast
next
  case False
  then show ?thesis
    using worker_step_pending [OF assms(1,2)] represents_frame [of us' us p] assms(4) by blast
qed

text \<open>
  C14: the queue, its delays and the worker implement the planner's list of removals: while the queue
  is open, every step of the running system is matched by a step of the abstract planner (a pod
  event, one retry of one due removal, a new plan, a change of the API server) or by none, and
  afterwards the same removals are pending on both sides, with the same plans and the same API
  server. So nothing is retried that did not fail, and nothing that failed is forgotten.
\<close>

theorem update_queue_refines:
  assumes "reachable (\<lambda>us. \<exists>s. us = new_system s) (update_step kc) us" "represents us p"
    and "update_step kc us us'" "\<not> q_shuttingDown (us_queue us')"
  shows "\<exists>p'. (p' = p \<or> retry_step kc p p') \<and> represents us' p'"
proof -
  have inv: "queue_inv us" by (rule update_worker.reachable_inv [OF assms(1)])
  have open_before: "\<not> q_shuttingDown (us_queue us)" using shut_down_for_good [OF assms(3)] assms(4) by blast
  from assms(3) show ?thesis
  proof (cases rule: update_step.cases)
    case worker
    then show ?thesis by (rule worker_step_refines [OF inv _ open_before assms(2)])
  next
    case (pod oldPod newPod)
    with updateFunc_refines [OF inv open_before assms(2), of kc oldPod newPod]
    show ?thesis by (intro exI [of _ "handlePodUpdate kc oldPod newPod p"]) (simp add: pod_changes)
  next
    case (planned m)
    then show ?thesis
      using assms(2) plans [of kc p m]
      by (intro exI [of _ "p\<lparr>podToNodeMap := m\<rparr>"]) (simp add: represents_def pending_items_def due_def)
  next
    case (outside s')
    then show ?thesis
      using assms(2) retry_step.server [of kc p s']
      by (intro exI [of _ "p\<lparr>api := s'\<rparr>"]) (simp add: represents_def pending_items_def due_def)
  next
    case (ready item)
    then show ?thesis
      using assms(2) delay_ends_pending [OF ready(2) open_before] by (intro exI [of _ p]) (simp add: represents_def pending_items_def)
  next
    case stop
    then show ?thesis
      using assms(2) by (intro exI [of _ p]) (simp add: represents_def pending_items_def system_Stop_def due_def)
  next
    case shutdown
    then show ?thesis using assms(4) by (simp add: queue_ShutDown_def)
  qed
qed

text \<open>A removal that fails because the API server is down, and is tried again when it is up.\<close>

lemma represents_new: "represents (new_system s) \<lparr>podToNodeMap = Map.empty, updateQueue = [], api = s\<rparr>"
  by (simp add: represents_def new_system_def pending_items_def due_def NewRateLimitingQueue_def)

definition ex_broken :: "(NamespacedName, SchedulePlan) gomap kube" where
  "ex_broken = map_kube\<lparr>kc_Update := (\<lambda>p s. (Some (External ''down''), s)), kc_Delete := (\<lambda>k s. (Some (External ''down''), s))\<rparr>"

definition ex_member_pod :: Pod where
  "ex_member_pod = (ex_pod ''a'')\<lparr>pod_Namespace := ''ns'', pod_Labels := [(''planner.ciena.io/pod-set'', ''web'')]\<rparr>"

definition ex_removal :: workWrapper where
  "ex_removal = \<lparr>w_name = ''a'', w_namespace = ''ns'', w_podset = ''web''\<rparr>"

lemma ex_removal_fails: "\<exists>e. doUpdate ex_broken ex_removal ex_store = (Some e, ex_store)"
proof -
  have "client_Get ex_broken ''ns'' ''web'' ex_store =
      Inr (new_SchedulePlan ''ns'' ''web'' (plan_specs [(''a'', ''n1''), (''b'', ''n2'')]))"
    by (simp add: client_Get_def ex_broken_def map_kube_def ex_store_def)
  then show ?thesis
    by (simp add: doUpdate_def client_Delete_def ex_removal_def new_SchedulePlan_def plan_specs_def ex_broken_def)
qed

lemma ex_event:
  "updateFunc ex_broken ex_member_pod (ex_member_pod\<lparr>pod_DeletionTimestamp := Some 1\<rparr>) (new_system ex_store) =
     retry_later (new_system ex_store) ex_removal"
  using ex_removal_fails
  by (auto simp: updateFunc_def handlePodUpdate_def handlePodDeleteWithLock_def removePodFromPlanner_def
      ex_member_pod_def ex_pod_def blank_pod_def ex_removal_def label_of_def new_system_def Let_def)

theorem update_queue_refines_witness:
  "\<exists>p'. represents (retry_later (new_system ex_store) ex_removal) p' \<and> mset (updateQueue p') = {#ex_removal#}"
proof -
  have start: "reachable (\<lambda>us. \<exists>s. us = new_system s) (update_step ex_broken) (new_system ex_store)"
    by (rule reachable_start) blast
  have "update_step ex_broken (new_system ex_store) (retry_later (new_system ex_store) ex_removal)"
    unfolding ex_event [symmetric] by (rule pod)
  from update_queue_refines [OF start represents_new this]
  obtain p' where p': "represents (retry_later (new_system ex_store) ex_removal) p'"
    by (auto simp: retry_later_def AddRateLimited_def new_system_def NewRateLimitingQueue_def)
  moreover have "pending_items (retry_later (new_system ex_store) ex_removal) = {#ex_removal#}"
    by (simp add: retry_later_pending [OF new_system_inv] new_system_def NewRateLimitingQueue_def pending_items_def due_def
        retry_later_def AddRateLimited_def)
  ultimately show ?thesis by (auto simp: represents_def)
qed

end
