(* ===== verification/Informers.thy ===== *)
theory Informers
  imports UpdateWorker
begin

text \<open>
  How the planner hears of the cluster: \<^verbatim>\<open>initInformers\<close> and the handler that \<^verbatim>\<open>NewPlanner\<close> passes to it.
  The informers of client-go keep the objects of a kind in a cache and call the registered
  handlers when one is added, updated or deleted; an object arrives as an interface value, which a
  handler has to assert to its type. Only the update handler for pods is given; the others are nil.
\<close>

section \<open>Handlers\<close>

datatype k8s_object = PodObject Pod | NodeObject Node | OtherObject

text \<open>\<^verbatim>\<open>cache.ResourceEventHandlerFuncs\<close>: a missing function is not called.\<close>

record 'p ResourceEventHandlerFuncs =
  AddFunc :: "(k8s_object \<Rightarrow> 'p \<Rightarrow> 'p) option"
  UpdateFunc :: "(k8s_object \<Rightarrow> k8s_object \<Rightarrow> 'p \<Rightarrow> 'p) option"
  DeleteFunc :: "(k8s_object \<Rightarrow> 'p \<Rightarrow> 'p) option"

datatype notification =
    AddNotification k8s_object
  | UpdateNotification k8s_object k8s_object
  | DeleteNotification k8s_object

definition notify :: "'p ResourceEventHandlerFuncs \<Rightarrow> notification \<Rightarrow> 'p \<Rightarrow> 'p" where
  "notify h n p =
     (case n of
        AddNotification obj \<Rightarrow> (case AddFunc h of None \<Rightarrow> p | Some f \<Rightarrow> f obj p)
      | UpdateNotification oldObj newObj \<Rightarrow> (case UpdateFunc h of None \<Rightarrow> p | Some f \<Rightarrow> f oldObj newObj p)
      | DeleteNotification obj \<Rightarrow> (case DeleteFunc h of None \<Rightarrow> p | Some f \<Rightarrow> f obj p))"

text \<open>The two informers of the factory, with the handlers added to them. The handler for new nodes only logs.\<close>

record 'p informer_factory =
  nodeInformer :: "'p ResourceEventHandlerFuncs"
  podInformer :: "'p ResourceEventHandlerFuncs"

definition initInformers ::
  "(k8s_object \<Rightarrow> 'p \<Rightarrow> 'p) option \<Rightarrow> (k8s_object \<Rightarrow> k8s_object \<Rightarrow> 'p \<Rightarrow> 'p) option \<Rightarrow>
     (k8s_object \<Rightarrow> 'p \<Rightarrow> 'p) option \<Rightarrow> 'p informer_factory" where
  "initInformers add update del =
     \<lparr>nodeInformer = \<lparr>AddFunc = Some (\<lambda>obj p. p), UpdateFunc = None, DeleteFunc = None\<rparr>,
      podInformer = \<lparr>AddFunc = add, UpdateFunc = update, DeleteFunc = del\<rparr>\<rparr>"

datatype informer_event = NodeEvent notification | PodEvent notification

definition deliver :: "'p informer_factory \<Rightarrow> 'p \<Rightarrow> informer_event \<Rightarrow> 'p" where
  "deliver fac p ev =
     (case ev of NodeEvent n \<Rightarrow> notify (nodeInformer fac) n p | PodEvent n \<Rightarrow> notify (podInformer fac) n p)"

text \<open>The handlers of the planner: \<^verbatim>\<open>NewPlanner\<close> leaves \<^verbatim>\<open>addFunc\<close> and \<^verbatim>\<open>deleteFunc\<close> nil.\<close>

definition planner_updateFunc ::
  "(Pod \<Rightarrow> Pod \<Rightarrow> 'p \<Rightarrow> 'p) \<Rightarrow> k8s_object \<Rightarrow> k8s_object \<Rightarrow> 'p \<Rightarrow> 'p" where
  "planner_updateFunc handler oldObj newObj p =
     (case oldObj of
        PodObject oldPod \<Rightarrow> (case newObj of PodObject newPod \<Rightarrow> handler oldPod newPod p | _ \<Rightarrow> p)
      | _ \<Rightarrow> p)"

definition planner_informers :: "(Pod \<Rightarrow> Pod \<Rightarrow> 'p \<Rightarrow> 'p) \<Rightarrow> 'p informer_factory" where
  "planner_informers handler = initInformers None (Some (planner_updateFunc handler)) None"

section \<open>What reaches the planner\<close>

fun pod_updates :: "informer_event list \<Rightarrow> (Pod \<times> Pod) list" where
  "pod_updates [] = []"
| "pod_updates (PodEvent (UpdateNotification (PodObject oldPod) (PodObject newPod)) # evs) =
     (oldPod, newPod) # pod_updates evs"
| "pod_updates (ev # evs) = pod_updates evs"

lemma pod_updates_append: "pod_updates (evs @ evs') = pod_updates evs @ pod_updates evs'"
  by (induction evs rule: pod_updates.induct) simp_all

lemma deliver_all:
  "foldl (deliver (planner_informers h)) p evs = foldl (\<lambda>p (oldPod, newPod). h oldPod newPod p) p (pod_updates evs)"
  by (induction evs arbitrary: p rule: pod_updates.induct)
    (simp_all add: deliver_def planner_informers_def initInformers_def notify_def planner_updateFunc_def
      split: notification.split k8s_object.split)

text \<open>The changes of a pod after which its assignment is not needed any more.\<close>

definition starts_running :: "Pod \<Rightarrow> Pod \<Rightarrow> bool" where
  "starts_running oldPod newPod \<longleftrightarrow> pod_Phase oldPod \<noteq> PodRunning \<and> pod_Phase newPod = PodRunning"

definition starts_terminating :: "Pod \<Rightarrow> Pod \<Rightarrow> bool" where
  "starts_terminating oldPod newPod \<longleftrightarrow> pod_DeletionTimestamp oldPod = None \<and> pod_DeletionTimestamp newPod \<noteq> None"

fun released :: "(Pod \<times> Pod) list \<Rightarrow> NamespacedName set" where
  "released [] = {}"
| "released ((oldPod, newPod) # us) =
     (if starts_running oldPod newPod \<or> starts_terminating oldPod newPod then {pod_key newPod} else {}) \<union> released us"

lemma removePod_map: "podToNodeMap (removePodFromPlanner kc pod p) = podToNodeMap p"
  by (simp add: removePodFromPlanner_def Let_def split: prod.split option.split)

lemma handlePodUpdate_map:
  "podToNodeMap (handlePodUpdate kc oldPod newPod p) = podToNodeMap p |` (- released [(oldPod, newPod)])"
  by (auto simp: handlePodUpdate_def handlePodDeleteWithLock_def removePod_map starts_running_def
      starts_terminating_def restrict_map_def fun_eq_iff)

text \<open>
  The assignments the planner remembers over any sequence of events of its informers. An
  assignment is dropped exactly when an update shows that its pod has begun to run or has got
  a deletion timestamp. Events about nodes, objects of another type, new pods, and the deletion of
  a pod itself drop nothing and add nothing: a pod that is deleted without an update that
  announces it stays remembered.
\<close>

theorem remembered_until_released:
  "podToNodeMap (foldl (deliver (planner_informers (handlePodUpdate kc))) p evs) =
     podToNodeMap p |` (- released (pod_updates evs))"
proof -
  have "podToNodeMap (foldl (\<lambda>p (oldPod, newPod). handlePodUpdate kc oldPod newPod p) p us) =
      podToNodeMap p |` (- released us)" for us
  proof (induction us arbitrary: p)
    case Nil
    then show ?case by (simp add: restrict_map_def)
  next
    case (Cons u us)
    obtain oldPod newPod where u: "u = (oldPod, newPod)" by force
    have "released (u # us) = released [u] \<union> released us" by (simp add: u)
    then show ?case by (simp add: Cons.IH u handlePodUpdate_map Compl_Un Int_commute del: released.simps)
  qed
  then show ?thesis by (simp only: deliver_all)
qed

text \<open>The running system has the same handlers: an event of an informer is a step of it, or nothing.\<close>

theorem informer_event_is_step:
  "deliver (planner_informers (updateFunc kc)) us ev = us \<or>
     update_step kc us (deliver (planner_informers (updateFunc kc)) us ev)"
proof (cases "pod_updates [ev]")
  case Nil
  then show ?thesis using deliver_all [of "updateFunc kc" us "[ev]"] by simp
next
  case (Cons u us')
  then obtain oldPod newPod where "ev = PodEvent (UpdateNotification (PodObject oldPod) (PodObject newPod))"
    by (cases "[ev]" rule: pod_updates.cases) simp_all
  then show ?thesis
    by (simp add: deliver_def planner_informers_def initInformers_def notify_def planner_updateFunc_def pod)
qed

end
