(* ===== verification/ResourceLists.thy ===== *)
theory ResourceLists
  imports Resources
begin

text \<open>
  Resources as Kubernetes resource lists: \<^verbatim>\<open>Resource.ResourceList\<close> of
  \<^verbatim>\<open>pkg/podpredicates/nodefit.go\<close> and \<^verbatim>\<open>HugePageResourceName\<close> of \<^verbatim>\<open>helpers.go\<close>, with the
  vendored constructors of quantities and the division that reads a milli quantity as a whole
  number. The theorems relate the list to the resource it was made from, by way of
  \<^verbatim>\<open>NewResource\<close>, and bound the rounding.
\<close>

section \<open>Quantities\<close>

text \<open>
  The vendored \<^verbatim>\<open>negativeScaleInt64\<close>, on the signed reading of its argument: Go divides towards
  zero, and a digit that is lost is rounded away from zero.
\<close>

definition go_quot :: "int \<Rightarrow> int" where
  "go_quot v = (if v < 0 then - (- v div 10) else v div 10)"

fun negativeScale_loop :: "nat \<Rightarrow> int \<Rightarrow> bool \<Rightarrow> int \<Rightarrow> int" where
  "negativeScale_loop 0 base fraction value =
     (if fraction then (if base > 0 then value + 1 else value - 1) else value)"
| "negativeScale_loop (Suc n) base fraction value =
     (let fraction = fraction \<or> value mod 10 \<noteq> 0; value = go_quot value
      in if value = 0 then (if fraction then (if base > 0 then 1 else - 1) else 0)
         else negativeScale_loop n base fraction value)"

definition negativeScaleInt64 :: "int64 \<Rightarrow> nat \<Rightarrow> int64" where
  "negativeScaleInt64 base scale = word_of_int (negativeScale_loop scale (sint base) False (sint base))"

text \<open>
  \<^verbatim>\<open>MilliValue\<close> of a whole quantity multiplies by 1000 and wraps; the vendored special case for
  the least number gives the wrapped product too.
\<close>

definition NewQuantity :: "int64 \<Rightarrow> Quantity" where
  "NewQuantity value = \<lparr>q_Value = value, q_MilliValue = value * 1000\<rparr>"

definition NewMilliQuantity :: "int64 \<Rightarrow> Quantity" where
  "NewMilliQuantity value = \<lparr>q_Value = negativeScaleInt64 value 3, q_MilliValue = value\<rparr>"

section \<open>Resource lists\<close>

text \<open>
  The format of a quantity, \<^verbatim>\<open>DecimalSI\<close> or \<^verbatim>\<open>BinarySI\<close>, only matters for printing; both branches
  of the test for huge pages store the same amount.
\<close>

definition ResourceList_step :: "ResourceList \<Rightarrow> string \<times> int64 \<Rightarrow> ResourceList" where
  "ResourceList_step result e =
     (case e of (rName, rQuant) \<Rightarrow>
        if IsHugePageResourceName rName then AList.update rName (NewQuantity rQuant) result
        else AList.update rName (NewQuantity rQuant) result)"

definition Resource_ResourceList :: "Resource \<Rightarrow> ResourceList" where
  "Resource_ResourceList r =
     foldl ResourceList_step
       [(''cpu'', NewMilliQuantity (MilliCPU r)), (''memory'', NewQuantity (Memory r)),
        (''pods'', NewQuantity (AllowedPodNumber r)),
        (''ephemeral-storage'', NewQuantity (EphemeralStorage r))]
       (ScalarResources r)"

text \<open>The first argument is the vendored \<^verbatim>\<open>Quantity.String\<close>.\<close>

definition HugePageResourceName :: "(Quantity \<Rightarrow> string) \<Rightarrow> Quantity \<Rightarrow> string" where
  "HugePageResourceName q_String pageSize = ResourceHugePagesPrefix @ q_String pageSize"

lemma ResourceList_step: "ResourceList_step result (k, v) = AList.update k (NewQuantity v) result"
  by (simp add: ResourceList_step_def)

lemma update_fresh: "k \<notin> fst ` set m \<Longrightarrow> AList.update k v m = m @ [(k, v)]"
  by (induction m) auto

lemma ResourceList_scalars:
  assumes "distinct (map fst base @ map fst ss)"
  shows "foldl ResourceList_step base ss = base @ map (\<lambda>(k, v). (k, NewQuantity v)) ss"
  using assms
proof (induction ss arbitrary: base)
  case (Cons e ss)
  obtain k v where e: "e = (k, v)" by force
  from Cons.IH [of "base @ [(k, NewQuantity v)]"] Cons.prems show ?case
    by (auto simp: e ResourceList_step update_fresh)
qed simp

lemma base_not_scalar:
  "\<not> IsScalarResourceName ''cpu''" "\<not> IsScalarResourceName ''memory''" "\<not> IsScalarResourceName ''pods''"
  "\<not> IsScalarResourceName ''ephemeral-storage''"
  by code_simp+

lemma add_scalars_view:
  assumes "\<forall>k \<in> fst ` set ss. IsScalarResourceName k" "distinct (map fst ss)" "fst ` set ss \<inter> dom s = {}"
  shows "fold add_view (map (\<lambda>(k, v). (k, NewQuantity v)) ss) (c, m, e, a, s) = (c, m, e, a, s ++ map_of ss)"
  using assms
proof (induction ss arbitrary: s)
  case (Cons p ss)
  obtain k v where p: "p = (k, v)" by force
  have k: "IsScalarResourceName k" and s: "s k = None" using Cons.prems by (auto simp: p)
  then have "k \<noteq> ''cpu''" "k \<noteq> ''memory''" "k \<noteq> ''pods''" "k \<noteq> ''ephemeral-storage''"
    using base_not_scalar by auto
  with k s have "add_view (k, NewQuantity v) (c, m, e, a, s) = (c, m, e, a, s(k \<mapsto> v))"
    by (simp add: NewQuantity_def)
  moreover have "s(k \<mapsto> v) ++ map_of ss = s ++ (map_of ss)(k \<mapsto> v)"
  proof -
    have "map_of ss k = None" using Cons.prems by (simp add: p map_of_eq_None_iff)
    then show ?thesis by (auto simp: map_add_def fun_eq_iff split: option.split)
  qed
  moreover have "fst ` set ss \<inter> dom (s(k \<mapsto> v)) = {}" using Cons.prems by (auto simp: p)
  with Cons.prems have "fold add_view (map (\<lambda>(k, v). (k, NewQuantity v)) ss) (c, m, e, a, s(k \<mapsto> v)) =
      (c, m, e, a, s(k \<mapsto> v) ++ map_of ss)" by (intro Cons.IH) (simp_all only: p list.simps distinct.simps ball_simps image_insert, auto)
  ultimately show ?case
    by (simp add: p del: add_view.simps) (auto simp: fun_eq_iff map_add_def split: option.split)
qed simp

text \<open>
  A resource written as a resource list and read back with \<^verbatim>\<open>NewResource\<close> is the same
  resource, except that its ephemeral storage is lost: \<^verbatim>\<open>Add\<close> ignores that entry of the list.
\<close>

theorem ResourceList_roundtrip:
  assumes "list_all (\<lambda>(k, _). IsScalarResourceName k) (ScalarResources r)"
    and "distinct (map fst (ScalarResources r))"
  shows "res_view (NewResource (Resource_ResourceList r)) = res_view (r\<lparr>EphemeralStorage := 0\<rparr>)"
proof -
  have names: "\<forall>k \<in> fst ` set (ScalarResources r). IsScalarResourceName k"
    using assms(1) by (auto simp: list_all_iff)
  with base_not_scalar assms(2) have "distinct (map fst
      [(''cpu'', NewMilliQuantity (MilliCPU r)), (''memory'', NewQuantity (Memory r)),
       (''pods'', NewQuantity (AllowedPodNumber r)), (''ephemeral-storage'', NewQuantity (EphemeralStorage r))] @
      map fst (ScalarResources r))"
    by auto
  then show ?thesis
    using add_scalars_view [OF names assms(2), of Map.empty]
    by (simp add: NewResource_def view_Resource_Add Resource_ResourceList_def ResourceList_scalars)
      (simp add: res_view_def emptyResource_def NewMilliQuantity_def NewQuantity_def)
qed

theorem ResourceList_roundtrip_witness:
  "let r = \<lparr>MilliCPU = 1500, Memory = 64, EphemeralStorage = 7, AllowedPodNumber = 2,
            ScalarResources = [(''hugepages-2Mi'', 4)]\<rparr>
   in res_view (NewResource (Resource_ResourceList r)) = (1500, 64, 0, 2, [''hugepages-2Mi'' \<mapsto> 4])"
proof -
  have "IsScalarResourceName ''hugepages-2Mi''" by code_simp
  then show ?thesis
    using ResourceList_roundtrip [of "\<lparr>MilliCPU = 1500, Memory = 64, EphemeralStorage = 7, AllowedPodNumber = 2,
            ScalarResources = [(''hugepages-2Mi'', 4)]\<rparr>"]
    by (simp add: res_view_def)
qed

section \<open>Rounding of milli quantities\<close>

lemma negativeScale_loop_pos:
  "0 < base \<Longrightarrow> 0 \<le> v \<Longrightarrow>
     negativeScale_loop n base fraction v = v div 10 ^ n + (if fraction \<or> v mod 10 ^ n \<noteq> 0 then 1 else 0)"
proof (induction n arbitrary: fraction v)
  case (Suc n)
  have q: "go_quot v = v div 10" using Suc.prems by (simp add: go_quot_def)
  have dm: "v div 10 ^ Suc n = v div 10 div 10 ^ n" by (simp add: zdiv_zmult2_eq)
  have "v mod 10 ^ Suc n = 10 * (v div 10 mod 10 ^ n) + v mod 10" by (simp add: zmod_zmult2_eq)
  moreover have "0 \<le> v div 10 mod 10 ^ n" "0 \<le> v mod 10" by simp_all
  ultimately have md: "v mod 10 ^ Suc n = 0 \<longleftrightarrow> v mod 10 = 0 \<and> v div 10 mod 10 ^ n = 0" by linarith
  from Suc.IH [of "v div 10"] Suc.prems show ?case
    unfolding dm md by (auto simp: q Let_def)
qed simp

text \<open>
  The whole number of a CPU amount is rounded up: reading \<open>n\<close> milli units as units gives the
  least number of units that covers them, and it never overflows.
\<close>

theorem NewMilliQuantity_rounds_up:
  assumes "0 \<le> sint m"
  shows "sint (q_Value (NewMilliQuantity m)) = (sint m + 999) div 1000"
proof -
  define x where "x = sint m"
  have x: "0 \<le> x" "x < 2 ^ 63" using assms sint_lt [of m] by (simp_all add: x_def)
  have up: "x div 1000 + (if x mod 1000 \<noteq> 0 then 1 else 0) = (x + 999) div 1000"
  proof -
    define q r where qr: "q = x div 1000" "r = x mod 1000"
    have "x = q * 1000 + r" "0 \<le> r" "r < 1000" by (simp_all add: qr)
    then have "(x + 999) div 1000 = q + (r + 999) div 1000" by (simp add: add.assoc)
    moreover have "(r + 999) div 1000 = (if r \<noteq> 0 then 1 else 0)"
      using \<open>0 \<le> r\<close> \<open>r < 1000\<close> by (auto intro: int_div_pos_eq [where r = "r - 1"])
    ultimately show ?thesis by (simp add: qr)
  qed
  have loop: "negativeScale_loop 3 x False x = (x + 999) div 1000"
  proof (cases "x = 0")
    case True
    then show ?thesis by (simp add: numeral_3_eq_3 go_quot_def)
  next
    case False
    with x negativeScale_loop_pos [of x x 3 False] show ?thesis unfolding up [symmetric] by simp
  qed
  define y where "y = (x + 999) div 1000"
  have "- (2 ^ 63) \<le> y" "y < 2 ^ 63" using x by (auto simp: y_def)
  then have "sint (word_of_int y :: int64) = y" by (simp add: sint_sbintrunc' signed_take_bit_int_eq_self)
  then show ?thesis
    by (simp add: NewMilliQuantity_def negativeScaleInt64_def loop y_def flip: x_def)
qed

theorem NewMilliQuantity_rounds_up_witness:
  "sint (q_Value (NewMilliQuantity 1500)) = 2"
  using NewMilliQuantity_rounds_up [of 1500] by simp

text \<open>The page size that a huge page resource was named after is read back from the name.\<close>

lemma HugePage_roundtrip:
  "IsHugePageResourceName (HugePageResourceName q_String q) \<and>
   HugePageSizeFromResourceName ParseQuantity (HugePageResourceName q_String q) = ParseQuantity (q_String q)"
  by (simp add: HugePageSizeFromResourceName_def HugePageResourceName_def IsHugePageResourceName_def HasPrefix_iff)

end
