(* ===== verification/Memory.thy ===== *)
theory Memory
  imports Kube
begin

text \<open>
  Go's memory, as far as the copying of API objects needs it: cells that hold the backing array of
  a slice, a map, or a number, under addresses that are handed out in order. A slice is a window
  on an array, a pointer to a struct the window of length one; \<^verbatim>\<open>nil\<close> is \<open>None\<close>.

  The interface \<open>deep_copier\<close> is what a function \<^verbatim>\<open>DeepCopyInto\<close> promises: it only allocates, the
  copy reads like the original, and everything the copy reaches is new. From it follows, once for
  all types, that writing through the copy leaves the original alone. The sublocale lifts the
  contract from the elements to the slices that hold them.
\<close>

section \<open>Objects and cells\<close>

record slice =
  sl_addr :: nat
  sl_off :: nat
  sl_len :: nat

text \<open>
  The metadata of the API objects, with all their fields (meta/v1/types.go). A reference is the address of a cell: a
  map, or the value behind a pointer. A time is a value: the location it points to is never changed.
\<close>

type_synonym Time = int

record TypeMeta =
  tm_Kind :: string
  tm_APIVersion :: string

record OwnerRef =
  ow_APIVersion :: string
  ow_Kind :: string
  ow_Name :: string
  ow_UID :: string
  ow_Controller :: "nat option"
  ow_BlockOwnerDeletion :: "nat option"

record ManagedFieldsEntry =
  mf_Manager :: string
  mf_Operation :: string
  mf_APIVersion :: string
  mf_Time :: "nat option"
  mf_FieldsType :: string
  mf_FieldsV1 :: "slice option"   \<comment> \<open>a pointer to \<^verbatim>\<open>FieldsV1\<close>, whose only field is the slice \<^verbatim>\<open>Raw\<close>\<close>
  mf_Subresource :: string

record ObjectMeta =
  om_Name :: string
  om_GenerateName :: string
  om_Namespace :: string
  om_SelfLink :: string
  om_UID :: string
  om_ResourceVersion :: string
  om_Generation :: int64
  om_CreationTimestamp :: Time
  om_DeletionTimestamp :: "nat option"
  om_DeletionGracePeriodSeconds :: "nat option"
  om_Labels :: "nat option"
  om_Annotations :: "nat option"
  om_OwnerReferences :: "slice option"
  om_Finalizers :: "slice option"
  om_ClusterName :: string
  om_ManagedFields :: "slice option"

record ListMeta =
  lm_SelfLink :: string
  lm_ResourceVersion :: string
  lm_Continue :: string
  lm_RemainingItemCount :: "nat option"

record plan_obj =
  po_TypeMeta :: TypeMeta
  po_ObjectMeta :: ObjectMeta
  po_Spec :: "slice option"      \<comment> \<open>\<^verbatim>\<open>SchedulePlanSpec\<close>, whose only field is the slice \<^verbatim>\<open>Plan\<close>\<close>

record trigger_obj =
  to_TypeMeta :: TypeMeta
  to_ObjectMeta :: ObjectMeta
  to_Spec :: string              \<comment> \<open>\<^verbatim>\<open>ScheduleTriggerSpec\<close>, whose only field is \<^verbatim>\<open>State\<close>\<close>

record plan_list =
  pll_TypeMeta :: TypeMeta
  pll_ListMeta :: ListMeta
  pll_Items :: "slice option"

record trigger_list =
  tll_TypeMeta :: TypeMeta
  tll_ListMeta :: ListMeta
  tll_Items :: "slice option"

datatype cell =
    LabelMap "(string, string) gomap"
  | Int64 int64
  | TimeCell Time
  | BoolCell bool
  | Strings "string list"
  | Bytes "8 word list"
  | FieldsV1s "slice option list"
  | OwnerRefs "OwnerRef list"
  | ManagedFields "ManagedFieldsEntry list"
  | PlanSpecs "PlanSpec list"
  | Plans "plan_obj list"
  | SchedulePlanSpecs "slice option list"
  | Statuses "unit list"
  | PlanLists "plan_list list"
  | Triggers "trigger_obj list"
  | TriggerSpecs "string list"
  | TriggerLists "trigger_list list"
  | PluginArgs "PodSetPlannerArgs list"

record memory =
  heap :: "nat \<rightharpoonup> cell"
  next_addr :: nat

definition mem_ok :: "memory \<Rightarrow> bool" where
  "mem_ok m \<longleftrightarrow> (\<forall>a. heap m a \<noteq> None \<longrightarrow> a < next_addr m)"

text \<open>One memory extends another: what was there is unchanged.\<close>

definition extends :: "memory \<Rightarrow> memory \<Rightarrow> bool" where
  "extends m m' \<longleftrightarrow> next_addr m \<le> next_addr m' \<and> (\<forall>a < next_addr m. heap m' a = heap m a)"

definition alloc :: "cell \<Rightarrow> memory \<Rightarrow> nat \<times> memory" where
  "alloc c m = (next_addr m, m\<lparr>heap := (heap m)(next_addr m \<mapsto> c), next_addr := Suc (next_addr m)\<rparr>)"

definition store :: "nat \<Rightarrow> cell \<Rightarrow> memory \<Rightarrow> memory" where
  "store a c m = m\<lparr>heap := (heap m)(a \<mapsto> c)\<rparr>"

lemma alloc_simps [simp]:
  "fst (alloc c m) = next_addr m" "next_addr (snd (alloc c m)) = Suc (next_addr m)"
  "heap (snd (alloc c m)) a = (if a = next_addr m then Some c else heap m a)"
  by (simp_all add: alloc_def)

lemma store_simps [simp]:
  "next_addr (store a c m) = next_addr m" "heap (store a c m) b = (if b = a then Some c else heap m b)"
  by (simp_all add: store_def)

lemma extends_refl [simp]: "extends m m"
  by (simp add: extends_def)

lemma extends_trans: "extends m1 m2 \<Longrightarrow> extends m2 m3 \<Longrightarrow> extends m1 m3"
  by (auto simp: extends_def)

lemma extends_alloc [simp]: "extends m (snd (alloc c m))"
  by (simp add: extends_def)

lemma extends_store: "extends m m' \<Longrightarrow> next_addr m \<le> a \<Longrightarrow> extends m (store a c m')"
  by (auto simp: extends_def)

lemma mem_ok_alloc [simp]: "mem_ok m \<Longrightarrow> mem_ok (snd (alloc c m))"
  by (auto simp: mem_ok_def less_Suc_eq)

lemma mem_ok_store: "mem_ok m \<Longrightarrow> a < next_addr m \<Longrightarrow> mem_ok (store a c m)"
  by (auto simp: mem_ok_def)

text \<open>Two memories agree on a set of addresses.\<close>

definition agree :: "nat set \<Rightarrow> memory \<Rightarrow> memory \<Rightarrow> bool" where
  "agree A m m' \<longleftrightarrow> (\<forall>a \<in> A. heap m' a = heap m a)"

lemma extends_agree: "extends m m' \<Longrightarrow> A \<subseteq> {..<next_addr m} \<Longrightarrow> agree A m m'"
  by (auto simp: extends_def agree_def)

section \<open>The contract of a deep copy\<close>

text \<open>
  A type of values \<open>'a\<close> that may refer to the memory: \<open>reads\<close> is the pure value they stand for,
  \<open>foot\<close> the addresses they reach, \<open>valid\<close> that they are well formed; \<open>copy_into\<close> is its
  \<^verbatim>\<open>DeepCopyInto\<close>, from the value that is read to the value that is written.
\<close>

locale mem_value =
  fixes reads :: "memory \<Rightarrow> 'a \<Rightarrow> 'v" and foot :: "memory \<Rightarrow> 'a \<Rightarrow> nat set" and valid :: "memory \<Rightarrow> 'a \<Rightarrow> bool"
  assumes frame: "valid m v \<Longrightarrow> agree (foot m v) m m' \<Longrightarrow> reads m' v = reads m v \<and> foot m' v = foot m v \<and> valid m' v"
    and bounded: "mem_ok m \<Longrightarrow> valid m v \<Longrightarrow> foot m v \<subseteq> {..<next_addr m}"
begin

lemma extends_frame:
  "mem_ok m \<Longrightarrow> valid m v \<Longrightarrow> extends m m' \<Longrightarrow> reads m' v = reads m v \<and> foot m' v = foot m v \<and> valid m' v"
  by (rule frame) (assumption, erule extends_agree, erule (1) bounded)

end

locale deep_copier = mem_value reads foot valid
  for reads :: "memory \<Rightarrow> 'a \<Rightarrow> 'v" and foot :: "memory \<Rightarrow> 'a \<Rightarrow> nat set" and valid :: "memory \<Rightarrow> 'a \<Rightarrow> bool" +
  fixes copy_into :: "'a \<Rightarrow> memory \<Rightarrow> 'a \<times> memory"
  assumes only_allocates: "mem_ok m \<Longrightarrow> valid m v \<Longrightarrow> copy_into v m = (v', m') \<Longrightarrow> extends m m' \<and> mem_ok m'"
    and same_value: "mem_ok m \<Longrightarrow> valid m v \<Longrightarrow> copy_into v m = (v', m') \<Longrightarrow> valid m' v' \<and> reads m' v' = reads m v"
    and all_new: "mem_ok m \<Longrightarrow> valid m v \<Longrightarrow> copy_into v m = (v', m') \<Longrightarrow> foot m' v' \<inter> {..<next_addr m} = {}"
begin

text \<open>Whatever is written through the copy, the original reads as before; and the other way round.\<close>

lemma independent:
  assumes "mem_ok m" "valid m v" "copy_into v m = (v', m')" and "agree (- foot m' v') m' m''"
  shows "reads m'' v = reads m v"
proof -
  have "foot m v \<subseteq> {..<next_addr m}" by (rule bounded [OF assms(1,2)])
  with all_new [OF assms(1-3)] have "foot m v \<inter> foot m' v' = {}" by auto
  moreover have "agree (foot m v) m m'"
    using only_allocates [OF assms(1-3)] bounded [OF assms(1,2)] by (auto intro: extends_agree)
  ultimately have "agree (foot m v) m m''" 
    using assms(4) unfolding agree_def by (metis ComplI disjoint_iff)
  with frame [OF assms(2)] show ?thesis by blast
qed

lemma independent_copy:
  assumes "mem_ok m" "valid m v" "copy_into v m = (v', m')" and "agree (- foot m v) m' m''"
  shows "reads m'' v' = reads m v"
proof -
  have "foot m v \<subseteq> {..<next_addr m}" by (rule bounded [OF assms(1,2)])
  with all_new [OF assms(1-3)] have "foot m' v' \<subseteq> - foot m v" by auto
  with assms(4) have "agree (foot m' v') m' m''" by (auto simp: agree_def)
  with frame [of m' v' m''] same_value [OF assms(1-3)] show ?thesis by simp
qed

end

section \<open>Slices of copied elements\<close>

text \<open>
  The elements of a slice; \<open>dest\<close> reads the array out of a cell of the right kind. Go's types keep
  a slice from pointing to a cell of another kind or beyond its array.
\<close>

definition elements :: "(cell \<Rightarrow> 'a list option) \<Rightarrow> memory \<Rightarrow> slice \<Rightarrow> 'a list" where
  "elements dest m s =
     (case heap m (sl_addr s) of
        None \<Rightarrow> []
      | Some c \<Rightarrow> (case dest c of None \<Rightarrow> [] | Some xs \<Rightarrow> take (sl_len s) (drop (sl_off s) xs)))"

definition slice_ok :: "(cell \<Rightarrow> 'a list option) \<Rightarrow> memory \<Rightarrow> slice \<Rightarrow> bool" where
  "slice_ok dest m s \<longleftrightarrow> heap m (sl_addr s) \<noteq> None \<and> length (elements dest m s) = sl_len s"

definition set_element :: "(cell \<Rightarrow> 'a list option) \<Rightarrow> ('a list \<Rightarrow> cell) \<Rightarrow> nat \<Rightarrow> nat \<Rightarrow> 'a \<Rightarrow> memory \<Rightarrow> memory" where
  "set_element dest wrap a i v m =
     (case heap m a of
        None \<Rightarrow> m
      | Some c \<Rightarrow> (case dest c of None \<Rightarrow> m | Some xs \<Rightarrow> store a (wrap (xs[i := v])) m))"

text \<open>
  The loop of the generated code: \<^verbatim>\<open>make\<close> a new array, then \<^verbatim>\<open>DeepCopyInto\<close> for every index.
\<close>

definition copy_element ::
  "(cell \<Rightarrow> 'a list option) \<Rightarrow> ('a list \<Rightarrow> cell) \<Rightarrow> ('a \<Rightarrow> memory \<Rightarrow> 'a \<times> memory) \<Rightarrow> slice \<Rightarrow> nat \<Rightarrow> nat \<Rightarrow>
     memory \<Rightarrow> memory" where
  "copy_element dest wrap copy_into s a i m =
     (let (v', m') = copy_into (elements dest m s ! i) m in set_element dest wrap a i v' m')"

definition copy_slice ::
  "(cell \<Rightarrow> 'a list option) \<Rightarrow> ('a list \<Rightarrow> cell) \<Rightarrow> 'a \<Rightarrow> ('a \<Rightarrow> memory \<Rightarrow> 'a \<times> memory) \<Rightarrow>
     slice option \<Rightarrow> memory \<Rightarrow> slice option \<times> memory" where
  "copy_slice dest wrap zero copy_into s m =
     (case s of
        None \<Rightarrow> (None, m)
      | Some s \<Rightarrow>
          let (a, m1) = alloc (wrap (replicate (sl_len s) zero)) m
          in (Some \<lparr>sl_addr = a, sl_off = 0, sl_len = sl_len s\<rparr>,
              foldl (\<lambda>m i. copy_element dest wrap copy_into s a i m) m1 [0..<sl_len s]))"

definition slice_reads :: "(cell \<Rightarrow> 'a list option) \<Rightarrow> (memory \<Rightarrow> 'a \<Rightarrow> 'v) \<Rightarrow> memory \<Rightarrow> slice option \<Rightarrow> 'v list option" where
  "slice_reads dest reads m s = map_option (\<lambda>s. map (reads m) (elements dest m s)) s"

definition slice_foot :: "(cell \<Rightarrow> 'a list option) \<Rightarrow> (memory \<Rightarrow> 'a \<Rightarrow> nat set) \<Rightarrow> memory \<Rightarrow> slice option \<Rightarrow> nat set" where
  "slice_foot dest foot m s =
     (case s of None \<Rightarrow> {} | Some s \<Rightarrow> insert (sl_addr s) (\<Union>v \<in> set (elements dest m s). foot m v))"

definition slice_wf :: "(cell \<Rightarrow> 'a list option) \<Rightarrow> (memory \<Rightarrow> 'a \<Rightarrow> bool) \<Rightarrow> memory \<Rightarrow> slice option \<Rightarrow> bool" where
  "slice_wf dest valid m s =
     (case s of None \<Rightarrow> True | Some s \<Rightarrow> slice_ok dest m s \<and> list_all (valid m) (elements dest m s))"

lemma elements_cong: "heap m' (sl_addr s) = heap m (sl_addr s) \<Longrightarrow> elements dest m' s = elements dest m s"
  by (simp add: elements_def)

context mem_value
begin

lemma slice_value: "mem_value (slice_reads dest reads) (slice_foot dest foot) (slice_wf dest valid)"
proof
  fix m m' s
  assume valid: "slice_wf dest valid m s" and agree: "agree (slice_foot dest foot m s) m m'"
  show "slice_reads dest reads m' s = slice_reads dest reads m s \<and>
      slice_foot dest foot m' s = slice_foot dest foot m s \<and> slice_wf dest valid m' s"
  proof (cases s)
    case (Some t)
    have e: "elements dest m' t = elements dest m t"
      using agree by (intro elements_cong) (simp add: Some slice_foot_def agree_def)
    have "reads m' v = reads m v \<and> foot m' v = foot m v \<and> valid m' v" if "v \<in> set (elements dest m t)" for v
      using valid agree that by (intro frame) (auto simp: Some slice_wf_def slice_foot_def list_all_iff agree_def)
    with valid agree show ?thesis
      by (auto simp: Some slice_reads_def slice_foot_def slice_wf_def slice_ok_def e list_all_iff agree_def)
  qed (simp_all add: slice_reads_def slice_foot_def slice_wf_def)
next
  fix m s
  assume "mem_ok m" "slice_wf dest valid m s"
  then show "slice_foot dest foot m s \<subseteq> {..<next_addr m}"
    using bounded by (fastforce simp: slice_foot_def slice_wf_def slice_ok_def mem_ok_def list_all_iff split: option.splits)
qed

end

locale item_copier = deep_copier reads foot valid copy_into
  for reads :: "memory \<Rightarrow> 'a \<Rightarrow> 'v" and foot :: "memory \<Rightarrow> 'a \<Rightarrow> nat set" and valid :: "memory \<Rightarrow> 'a \<Rightarrow> bool"
    and copy_into :: "'a \<Rightarrow> memory \<Rightarrow> 'a \<times> memory" +
  fixes dest :: "cell \<Rightarrow> 'a list option" and wrap :: "'a list \<Rightarrow> cell" and zero :: 'a
  assumes dest_wrap: "dest (wrap xs) = Some xs"
begin

abbreviation copied :: "memory \<Rightarrow> slice \<Rightarrow> nat \<Rightarrow> memory \<Rightarrow> bool" where
  "copied m s k mk \<equiv> extends m mk \<and> mem_ok mk \<and> next_addr m < next_addr mk \<and>
     (\<exists>xs. heap mk (next_addr m) = Some (wrap xs) \<and> length xs = sl_len s \<and>
       (\<forall>j < k. valid mk (xs ! j) \<and> reads mk (xs ! j) = reads m (elements dest m s ! j) \<and>
          foot mk (xs ! j) \<inter> {..next_addr m} = {}))"

lemma copy_element_step:
  assumes m: "mem_ok m" "slice_wf dest valid m (Some s)" and k: "k < sl_len s" and mk: "copied m s k mk"
  shows "copied m s (Suc k) (copy_element dest wrap copy_into s (next_addr m) k mk)"
proof -
  let ?a = "next_addr m" and ?es = "elements dest m s"
  from mk obtain xs where ext: "extends m mk" "mem_ok mk" "?a < next_addr mk"
      and xs: "heap mk ?a = Some (wrap xs)" "length xs = sl_len s"
      and old: "\<And>j. j < k \<Longrightarrow> valid mk (xs ! j) \<and> reads mk (xs ! j) = reads m (?es ! j) \<and> foot mk (xs ! j) \<inter> {..?a} = {}"
    by auto
  have s: "heap m (sl_addr s) \<noteq> None" "length ?es = sl_len s" "list_all (valid m) ?es"
    using m(2) by (simp_all add: slice_wf_def slice_ok_def)
  then have "sl_addr s < next_addr m" using m(1) by (simp add: mem_ok_def)
  then have es: "elements dest mk s = ?es" using ext(1) by (intro elements_cong) (simp add: extends_def)
  have v: "valid m (?es ! k)" using s k by (simp add: list_all_length)
  obtain v' m' where copy: "copy_into (?es ! k) mk = (v', m')" by fastforce
  have vk: "valid mk (?es ! k)" "reads mk (?es ! k) = reads m (?es ! k)"
    using extends_frame [OF m(1) v ext(1)] by simp_all
  note new = only_allocates [OF ext(2) vk(1) copy] same_value [OF ext(2) vk(1) copy] all_new [OF ext(2) vk(1) copy]
  have at: "heap m' ?a = Some (wrap xs)" using new(1) ext(3) xs(1) by (simp add: extends_def)
  let ?m = "store ?a (wrap (xs[k := v'])) m'"
  have step: "copy_element dest wrap copy_into s ?a k mk = ?m"
    by (simp add: copy_element_def es copy set_element_def at dest_wrap)
  have "extends m ?m" using extends_trans [OF ext(1)] new(1) by (intro extends_store) auto
  moreover have lt: "?a < next_addr m'" using new(1) ext(3) by (simp add: extends_def)
  then have "mem_ok ?m" using new(1) by (intro mem_ok_store) auto
  moreover have "foot m' v' \<inter> {..?a} = {}" using new(3) ext(3) by (auto simp: disjoint_iff)
  then have "agree (foot m' v') m' ?m" by (auto simp: agree_def)
  from frame [OF _ this] new(2) \<open>foot m' v' \<inter> {..?a} = {}\<close> vk(2)
  have "valid ?m v' \<and> reads ?m v' = reads m (?es ! k) \<and> foot ?m v' \<inter> {..?a} = {}" by simp
  moreover have "valid ?m (xs ! j) \<and> reads ?m (xs ! j) = reads m (?es ! j) \<and> foot ?m (xs ! j) \<inter> {..?a} = {}"
    if "j < k" for j
  proof -
    have "foot mk (xs ! j) \<subseteq> {..<next_addr mk}" using old [OF that] bounded [OF ext(2)] by blast
    then have "agree (foot mk (xs ! j)) mk ?m"
      using new(1) old [OF that] by (auto simp: agree_def extends_def)
    with frame [of mk "xs ! j" ?m] old [OF that] show ?thesis by simp
  qed
  ultimately have all: "valid ?m (xs[k := v'] ! j) \<and> reads ?m (xs[k := v'] ! j) = reads m (?es ! j) \<and>
      foot ?m (xs[k := v'] ! j) \<inter> {..?a} = {}" if "j < Suc k" for j
    using that xs(2) k by (cases "j = k") simp_all
  have "copied m s (Suc k) ?m"
    using \<open>extends m ?m\<close> \<open>mem_ok ?m\<close> lt xs(2) all by (intro conjI exI [of _ "xs[k := v']"]) simp_all
  then show ?thesis unfolding step .
qed

lemma copy_slice_copied:
  assumes "mem_ok m" "slice_wf dest valid m (Some s)"
  shows "k \<le> sl_len s \<Longrightarrow> copied m s k (foldl (\<lambda>m' i. copy_element dest wrap copy_into s (next_addr m) i m')
    (snd (alloc (wrap (replicate (sl_len s) zero)) m)) [0..<k])"
proof (induction k)
  case 0
  then show ?case using assms(1) by auto
next
  case (Suc k)
  with copy_element_step [OF assms, of k] show ?case by simp
qed

lemma copy_slice_Some:
  assumes "mem_ok m" "slice_wf dest valid m (Some s)" "copy_slice dest wrap zero copy_into (Some s) m = (s', m')"
  obtains xs where "s' = Some \<lparr>sl_addr = next_addr m, sl_off = 0, sl_len = sl_len s\<rparr>" "copied m s (sl_len s) m'"
    "heap m' (next_addr m) = Some (wrap xs)" "length xs = sl_len s"
    "\<And>j. j < sl_len s \<Longrightarrow> valid m' (xs ! j) \<and> reads m' (xs ! j) = reads m (elements dest m s ! j) \<and>
       foot m' (xs ! j) \<inter> {..next_addr m} = {}"
  using copy_slice_copied [OF assms(1,2), of "sl_len s"] assms(3)
  by (auto simp: copy_slice_def alloc_def Let_def)

lemma items_deep_copier:
  "deep_copier (slice_reads dest reads) (slice_foot dest foot) (slice_wf dest valid)
     (copy_slice dest wrap zero copy_into)"
proof (intro deep_copier.intro slice_value deep_copier_axioms.intro)
  fix m s s' m'
  assume m: "mem_ok m" "slice_wf dest valid m s" "copy_slice dest wrap zero copy_into s m = (s', m')"
  have main: "(extends m m' \<and> mem_ok m') \<and>
      (slice_wf dest valid m' s' \<and> slice_reads dest reads m' s' = slice_reads dest reads m s) \<and>
      slice_foot dest foot m' s' \<inter> {..<next_addr m} = {}"
  proof (cases s)
    case None
    with m show ?thesis by (simp add: copy_slice_def slice_wf_def slice_reads_def slice_foot_def)
  next
    case (Some t)
    obtain xs where s': "s' = Some \<lparr>sl_addr = next_addr m, sl_off = 0, sl_len = sl_len t\<rparr>"
      and ok: "extends m m'" "mem_ok m'" and xs: "heap m' (next_addr m) = Some (wrap xs)" "length xs = sl_len t"
      and el: "\<And>j. j < sl_len t \<Longrightarrow> valid m' (xs ! j) \<and> reads m' (xs ! j) = reads m (elements dest m t ! j) \<and>
         foot m' (xs ! j) \<inter> {..next_addr m} = {}"
      using copy_slice_Some [OF m(1) m(2) [unfolded Some] m(3) [unfolded Some]] by metis
    have es: "elements dest m' \<lparr>sl_addr = next_addr m, sl_off = 0, sl_len = sl_len t\<rparr> = xs"
      by (simp add: elements_def xs dest_wrap)
    have len: "length (elements dest m t) = sl_len t"
      using m(2) by (simp add: Some slice_wf_def slice_ok_def)
    have "map (reads m') xs = map (reads m) (elements dest m t)"
      using el xs(2) len by (intro nth_equalityI) simp_all
    moreover have "list_all (valid m') xs" using el xs(2) by (simp add: list_all_length)
    moreover have "foot m' v \<inter> {..<next_addr m} = {}" if "v \<in> set xs" for v
    proof -
      from that obtain j where "j < sl_len t" "xs ! j = v" using xs(2) by (metis in_set_conv_nth)
      with el [of j] show ?thesis by (auto simp: disjoint_iff)
    qed
    ultimately show ?thesis
      using ok xs by (auto simp: s' Some slice_wf_def slice_ok_def slice_reads_def slice_foot_def es)
  qed
  from main show "extends m m' \<and> mem_ok m'" by blast
  from main show "slice_wf dest valid m' s' \<and> slice_reads dest reads m' s' = slice_reads dest reads m s" by blast
  from main show "slice_foot dest foot m' s' \<inter> {..<next_addr m} = {}" by blast
qed

end

sublocale item_copier \<subseteq> items: deep_copier "slice_reads dest reads" "slice_foot dest foot" "slice_wf dest valid"
  "copy_slice dest wrap zero copy_into"
  by (rule items_deep_copier)

section \<open>Copies of structs\<close>

text \<open>
  A struct is copied field by field. The contract of a field gives that of the struct, whose other
  fields, \<open>rest\<close>, refer to nothing.
\<close>

context deep_copier
begin

lemma field_deep_copier:
  assumes get: "\<And>x s. get (put x s) = x" and rest: "\<And>x s. rest (put x s) = rest s"
  shows "deep_copier (\<lambda>m s. (rest s, reads m (get s))) (\<lambda>m s. foot m (get s)) (\<lambda>m s. valid m (get s))
    (\<lambda>s m. let (x', m') = copy_into (get s) m in (put x' s, m'))"
proof (intro deep_copier.intro mem_value.intro deep_copier_axioms.intro)
  fix m m' s
  show "valid m (get s) \<Longrightarrow> agree (foot m (get s)) m m' \<Longrightarrow>
      (rest s, reads m' (get s)) = (rest s, reads m (get s)) \<and> foot m' (get s) = foot m (get s) \<and> valid m' (get s)"
    using frame [of m "get s" m'] by simp
  show "mem_ok m \<Longrightarrow> valid m (get s) \<Longrightarrow> foot m (get s) \<subseteq> {..<next_addr m}" by (rule bounded)
next
  fix m s s' m'
  assume m: "mem_ok m" "valid m (get s)" "(let (x', m') = copy_into (get s) m in (put x' s, m')) = (s', m')"
  then obtain x' where copy: "copy_into (get s) m = (x', m')" and s': "s' = put x' s"
    by (auto split: prod.splits)
  show "extends m m' \<and> mem_ok m'" by (rule only_allocates [OF m(1,2) copy])
  show "valid m' (get s') \<and> (rest s', reads m' (get s')) = (rest s, reads m (get s))"
    using same_value [OF m(1,2) copy] by (simp add: s' get rest)
  show "foot m' (get s') \<inter> {..<next_addr m} = {}"
    using all_new [OF m(1,2) copy] by (simp add: s' get)
qed

end

definition copy_both :: "('a \<Rightarrow> memory \<Rightarrow> 'a \<times> memory) \<Rightarrow> ('b \<Rightarrow> memory \<Rightarrow> 'b \<times> memory) \<Rightarrow> 'a \<times> 'b \<Rightarrow> memory \<Rightarrow> ('a \<times> 'b) \<times> memory" where
  "copy_both c d p m = (let (x, m1) = c (fst p) m; (y, m2) = d (snd p) m1 in ((x, y), m2))"

lemma pair_value:
  assumes cv: "mem_value r f v" and dv: "mem_value r' f' v'"
  shows "mem_value (\<lambda>m p. (r m (fst p), r' m (snd p))) (\<lambda>m p. f m (fst p) \<union> f' m (snd p))
    (\<lambda>m p. v m (fst p) \<and> v' m (snd p))"
proof (rule mem_value.intro)
  fix m m' p
  assume p: "v m (fst p) \<and> v' m (snd p)" "agree (f m (fst p) \<union> f' m (snd p)) m m'"
  then have a: "agree (f m (fst p)) m m'" "agree (f' m (snd p)) m m'" by (auto simp: agree_def)
  have b: "r m' (fst p) = r m (fst p) \<and> f m' (fst p) = f m (fst p) \<and> v m' (fst p)" 
     "r' m' (snd p) = r' m (snd p) \<and> f' m' (snd p) = f' m (snd p) \<and> v' m' (snd p)"
     using mem_value.frame [OF cv conjunct1 [OF p(1)] a(1)] mem_value.frame [OF dv conjunct2 [OF p(1)] a(2)] by simp_all
  then show "(r m' (fst p), r' m' (snd p)) = (r m (fst p), r' m (snd p)) \<and>
      f m' (fst p) \<union> f' m' (snd p) = f m (fst p) \<union> f' m (snd p) \<and> v m' (fst p) \<and> v' m' (snd p)"
    by simp
next
  fix m p
  assume "mem_ok m" "v m (fst p) \<and> v' m (snd p)"
  with mem_value.bounded [OF cv, of m "fst p"] mem_value.bounded [OF dv, of m "snd p"]
  show "f m (fst p) \<union> f' m (snd p) \<subseteq> {..<next_addr m}" by simp
qed

lemma pair_deep_copier:
  assumes c: "deep_copier r f v c" and d: "deep_copier r' f' v' d"
  shows "deep_copier (\<lambda>m p. (r m (fst p), r' m (snd p))) (\<lambda>m p. f m (fst p) \<union> f' m (snd p))
    (\<lambda>m p. v m (fst p) \<and> v' m (snd p)) (copy_both c d)"
proof -
  note cv = deep_copier.axioms(1) [OF c] and dv = deep_copier.axioms(1) [OF d]
  show ?thesis
  proof (rule deep_copier.intro, rule pair_value [OF cv dv], rule deep_copier_axioms.intro)
  fix m p q m'
  assume m: "mem_ok m" "v m (fst p) \<and> v' m (snd p)" "copy_both c d p m = (q, m')"
  obtain x m1 where x: "c (fst p) m = (x, m1)" by (cases "c (fst p) m")
  obtain y m2 where y2: "d (snd p) m1 = (y, m2)" by (cases "d (snd p) m1")
  have "m2 = m'" and q: "q = (x, y)" using m(3) by (simp_all add: copy_both_def x y2)
  note y = y2 [unfolded this(1)]
  have v: "v m (fst p)" "v' m (snd p)" using m(2) by simp_all
  note cx = deep_copier.only_allocates [OF c m(1) v(1) x] deep_copier.same_value [OF c m(1) v(1) x]
    deep_copier.all_new [OF c m(1) v(1) x]
  have ok: "mem_ok m1" "extends m m1" using cx(1) by simp_all
  have s: "v' m1 (snd p)" "r' m1 (snd p) = r' m (snd p)"
    using mem_value.extends_frame [OF dv m(1) v(2) ok(2)] by simp_all
  note dy = deep_copier.only_allocates [OF d ok(1) s(1) y] deep_copier.same_value [OF d ok(1) s(1) y]
    deep_copier.all_new [OF d ok(1) s(1) y]
  have fx: "r m' x = r m1 x \<and> f m' x = f m1 x \<and> v m' x"
    by (rule mem_value.extends_frame [OF cv ok(1) conjunct1 [OF cx(2)] conjunct1 [OF dy(1)]])
  show "extends m m' \<and> mem_ok m'" using extends_trans [OF ok(2) conjunct1 [OF dy(1)]] dy(1) by simp
  show "(v m' (fst q) \<and> v' m' (snd q)) \<and> (r m' (fst q), r' m' (snd q)) = (r m (fst p), r' m (snd p))"
    using fx cx(2) dy(2) s(2) by (simp add: q)
  have "next_addr m \<le> next_addr m1" using ok(2) by (simp add: extends_def)
  with dy(3) have "f' m' y \<inter> {..<next_addr m} = {}" by (auto simp: disjoint_iff)
  with cx(3) fx show "(f m' (fst q) \<union> f' m' (snd q)) \<inter> {..<next_addr m} = {}"
    by (simp add: q Int_Un_distrib2)
qed
qed

lemma struct_deep_copier:
  assumes c: "deep_copier r f v c" and d: "deep_copier r' f' v' d"
    and get: "\<And>x y s. get1 (put x y s) = x" "\<And>x y s. get2 (put x y s) = y"
    and rest: "\<And>x y s. rest (put x y s) = rest s"
    and copy: "\<And>s m. copy_into s m =
      (let (x, m1) = c (get1 s) m; (y, m2) = d (get2 s) m1 in (put x y s, m2))"
  shows "deep_copier (\<lambda>m s. (rest s, r m (get1 s), r' m (get2 s))) (\<lambda>m s. f m (get1 s) \<union> f' m (get2 s))
    (\<lambda>m s. v m (get1 s) \<and> v' m (get2 s)) copy_into"
proof -
  have eq: "copy_into =
      (\<lambda>s m. let (q, m') = copy_both c d (get1 s, get2 s) m in (put (fst q) (snd q) s, m'))"
    by (intro ext) (simp add: copy copy_both_def Let_def split: prod.split)
  from deep_copier.field_deep_copier [OF pair_deep_copier [OF c d], of "\<lambda>s. (get1 s, get2 s)"
      "\<lambda>q. put (fst q) (snd q)" rest]
  show ?thesis by (simp add: get rest eq)
qed

text \<open>Values without references are copied by assignment.\<close>

interpretation flat: deep_copier "\<lambda>m v. v" "\<lambda>m v. {}" "\<lambda>m v. True" "\<lambda>v m. (v, m)"
  by unfold_locales auto

section \<open>Pointers to a number and maps\<close>

text \<open>
  A reference to a cell that refers to nothing itself: a map of strings, or a number behind a
  pointer. \<open>get\<close> reads such a cell, \<open>fine\<close> is what the type promises of its contents.
\<close>

definition box_reads :: "(cell \<Rightarrow> 'v option) \<Rightarrow> memory \<Rightarrow> nat option \<Rightarrow> 'v option option" where
  "box_reads get m p = map_option (\<lambda>a. Option.bind (heap m a) get) p"

definition box_foot :: "memory \<Rightarrow> nat option \<Rightarrow> nat set" where
  "box_foot m p = set_option p"

definition box_wf :: "(cell \<Rightarrow> 'v option) \<Rightarrow> ('v \<Rightarrow> bool) \<Rightarrow> memory \<Rightarrow> nat option \<Rightarrow> bool" where
  "box_wf get fine m p =
     (case p of None \<Rightarrow> True | Some a \<Rightarrow> (case Option.bind (heap m a) get of None \<Rightarrow> False | Some v \<Rightarrow> fine v))"

lemma box_deep_copier:
  assumes none: "\<And>m. copy_into None m = (None, m)"
    and some: "\<And>m a v. mem_ok m \<Longrightarrow> Option.bind (heap m a) get = Some v \<Longrightarrow> fine v \<Longrightarrow>
      copy_into (Some a) m = (Some (next_addr m), store (next_addr m) (wrap v) (snd (alloc zero m)))"
    and get: "\<And>v. get (wrap v) = Some v"
  shows "deep_copier (box_reads get) box_foot (box_wf get fine) copy_into"
proof
  fix m p m'
  assume "box_wf get fine m p" "agree (box_foot m p) m m'"
  then show "box_reads get m' p = box_reads get m p \<and> box_foot m' p = box_foot m p \<and> box_wf get fine m' p"
    by (cases p) (simp_all add: box_wf_def box_foot_def box_reads_def agree_def)
next
  fix m p
  assume "mem_ok m" "box_wf get fine m p"
  then show "box_foot m p \<subseteq> {..<next_addr m}"
    by (cases p) (auto simp: box_wf_def box_foot_def mem_ok_def split: bind_splits option.splits)
next
  fix m p p' m'
  assume m: "mem_ok m" "box_wf get fine m p" "copy_into p m = (p', m')"
  have main: "(extends m m' \<and> mem_ok m') \<and> (box_wf get fine m' p' \<and> box_reads get m' p' = box_reads get m p) \<and>
      box_foot m' p' \<inter> {..<next_addr m} = {}"
  proof (cases p)
    case None
    with m none show ?thesis by (simp add: box_wf_def box_reads_def box_foot_def)
  next
    case (Some a)
    with m(2) obtain v where v: "Option.bind (heap m a) get = Some v" "fine v"
      by (auto simp: box_wf_def split: option.splits)
    have "p' = Some (next_addr m)" "m' = store (next_addr m) (wrap v) (snd (alloc zero m))"
      using m(3) some [OF m(1) v] by (simp_all add: Some)
    with m(1) v get show ?thesis
      by (simp add: Some box_wf_def box_reads_def box_foot_def mem_ok_store extends_store)
  qed
  from main show "extends m m' \<and> mem_ok m'" by blast
  from main show "box_wf get fine m' p' \<and> box_reads get m' p' = box_reads get m p" by blast
  from main show "box_foot m' p' \<inter> {..<next_addr m} = {}" by blast
qed

text \<open>\<^verbatim>\<open>new\<close> and an assignment: the copy of a value behind a pointer.\<close>

definition copy_box :: "(cell \<Rightarrow> 'v option) \<Rightarrow> ('v \<Rightarrow> cell) \<Rightarrow> 'v \<Rightarrow> nat option \<Rightarrow> memory \<Rightarrow> nat option \<times> memory" where
  "copy_box get wrap zero p m =
     (case p of
        None \<Rightarrow> (None, m)
      | Some a \<Rightarrow>
          (case Option.bind (heap m a) get of
             None \<Rightarrow> (None, m)
           | Some v \<Rightarrow> let (b, m1) = alloc (wrap zero) m in (Some b, store b (wrap v) m1)))"

lemma copy_box_deep_copier:
  "(\<And>v. get (wrap v) = Some v) \<Longrightarrow>
     deep_copier (box_reads get) box_foot (box_wf get (\<lambda>_. True)) (copy_box get wrap zero)"
  by (rule box_deep_copier [where wrap = wrap and zero = "wrap zero"]) (simp_all add: copy_box_def alloc_def)

section \<open>The builtin copy\<close>

text \<open>\<^verbatim>\<open>copy(dst, src)\<close>: the shorter length of the two; and the \<^verbatim>\<open>make\<close> that goes before it.\<close>

definition go_copy ::
  "(cell \<Rightarrow> 'a list option) \<Rightarrow> ('a list \<Rightarrow> cell) \<Rightarrow> slice \<Rightarrow> slice \<Rightarrow> memory \<Rightarrow> memory" where
  "go_copy dest wrap dst src m =
     (case heap m (sl_addr dst) of
        None \<Rightarrow> m
      | Some c \<Rightarrow>
          (case dest c of
             None \<Rightarrow> m
           | Some xs \<Rightarrow>
               let vs = take (sl_len dst) (elements dest m src)
               in store (sl_addr dst) (wrap (take (sl_off dst) xs @ vs @ drop (sl_off dst + length vs) xs)) m))"

definition copy_array ::
  "(cell \<Rightarrow> 'a list option) \<Rightarrow> ('a list \<Rightarrow> cell) \<Rightarrow> 'a \<Rightarrow> slice option \<Rightarrow> memory \<Rightarrow> slice option \<times> memory" where
  "copy_array dest wrap zero s m =
     (case s of
        None \<Rightarrow> (None, m)
      | Some s \<Rightarrow>
          let (a, m1) = alloc (wrap (replicate (sl_len s) zero)) m;
              out = \<lparr>sl_addr = a, sl_off = 0, sl_len = sl_len s\<rparr>
          in (Some out, go_copy dest wrap out s m1))"

lemma array_deep_copier:
  assumes dest: "\<And>xs. dest (wrap xs) = Some xs"
  shows "deep_copier (slice_reads dest (\<lambda>m v. v)) (slice_foot dest (\<lambda>m v. {})) (slice_wf dest (\<lambda>m v. True))
    (copy_array dest wrap zero)"
proof (rule deep_copier.intro, rule flat.slice_value, rule deep_copier_axioms.intro)
  fix m s s' m'
  assume m: "mem_ok m" "slice_wf dest (\<lambda>m v. True) m s" "copy_array dest wrap zero s m = (s', m')"
  have main: "(extends m m' \<and> mem_ok m') \<and>
      (slice_wf dest (\<lambda>m v. True) m' s' \<and> slice_reads dest (\<lambda>m v. v) m' s' = slice_reads dest (\<lambda>m v. v) m s) \<and>
      slice_foot dest (\<lambda>m v. {}) m' s' \<inter> {..<next_addr m} = {}"
  proof (cases s)
    case None
    with m show ?thesis by (simp add: copy_array_def slice_wf_def slice_reads_def slice_foot_def)
  next
    case (Some t)
    let ?es = "elements dest m t" and ?m1 = "snd (alloc (wrap (replicate (sl_len t) zero)) m)"
    have t: "heap m (sl_addr t) \<noteq> None" "length ?es = sl_len t"
      using m(2) by (simp_all add: Some slice_wf_def slice_ok_def)
    then have "sl_addr t \<noteq> next_addr m" using m(1) by (auto simp: mem_ok_def)
    then have "elements dest ?m1 t = ?es" by (intro elements_cong) simp
    then have m': "m' = store (next_addr m) (wrap ?es) ?m1"
      and s': "s' = Some \<lparr>sl_addr = next_addr m, sl_off = 0, sl_len = sl_len t\<rparr>"
      using m(3) t(2) by (simp_all add: Some copy_array_def go_copy_def alloc_def dest)
    have "elements dest m' \<lparr>sl_addr = next_addr m, sl_off = 0, sl_len = sl_len t\<rparr> = ?es"
      using t(2) by (simp add: elements_def m' dest)
    with m(1) t(2) show ?thesis
      by (simp add: s' Some slice_wf_def slice_ok_def slice_reads_def slice_foot_def m' mem_ok_store extends_store
        list_all_iff)
  qed
  from main show "extends m m' \<and> mem_ok m'" by blast
  from main show "slice_wf dest (\<lambda>m v. True) m' s' \<and> slice_reads dest (\<lambda>m v. v) m' s' = slice_reads dest (\<lambda>m v. v) m s"
    by blast
  from main show "slice_foot dest (\<lambda>m v. {}) m' s' \<inter> {..<next_addr m} = {}" by blast
qed

section \<open>Pointers to structs\<close>

text \<open>
  \<^verbatim>\<open>DeepCopy\<close>: nil for nil, otherwise a new struct that \<^verbatim>\<open>DeepCopyInto\<close> fills. A pointer is a window
  of length one.
\<close>

definition copy_pointer ::
  "(cell \<Rightarrow> 'a list option) \<Rightarrow> ('a list \<Rightarrow> cell) \<Rightarrow> 'a \<Rightarrow> ('a \<Rightarrow> memory \<Rightarrow> 'a \<times> memory) \<Rightarrow>
     slice option \<Rightarrow> memory \<Rightarrow> slice option \<times> memory" where
  "copy_pointer dest wrap zero copy_into ptr m =
     (case ptr of
        None \<Rightarrow> (None, m)
      | Some p \<Rightarrow>
          let (a, m1) = alloc (wrap [zero]) m;
              (v', m2) = copy_into (elements dest m1 p ! 0) m1
          in (Some \<lparr>sl_addr = a, sl_off = 0, sl_len = 1\<rparr>, set_element dest wrap a 0 v' m2))"

lemma copy_pointer_slice:
  "(\<And>p. ptr = Some p \<Longrightarrow> sl_len p = 1) \<Longrightarrow>
     copy_pointer dest wrap zero copy_into ptr m = copy_slice dest wrap zero copy_into ptr m"
  by (cases ptr) (simp_all add: copy_pointer_def copy_slice_def copy_element_def case_prod_beta Let_def)

definition pointer_wf :: "(cell \<Rightarrow> 'a list option) \<Rightarrow> (memory \<Rightarrow> 'a \<Rightarrow> bool) \<Rightarrow> memory \<Rightarrow> slice option \<Rightarrow> bool" where
  "pointer_wf dest valid m p \<longleftrightarrow>
     slice_wf dest valid m p \<and> (case p of None \<Rightarrow> True | Some q \<Rightarrow> sl_len q = 1)"

context item_copier
begin

lemma copy_pointer_eq:
  "pointer_wf dest valid m p \<Longrightarrow>
     copy_pointer dest wrap zero copy_into p m = copy_slice dest wrap zero copy_into p m"
  by (rule copy_pointer_slice) (simp add: pointer_wf_def)

lemma pointer_value: "mem_value (slice_reads dest reads) (slice_foot dest foot) (pointer_wf dest valid)"
proof
  fix m p m'
  assume p: "pointer_wf dest valid m p" "agree (slice_foot dest foot m p) m m'"
  with items.frame [of m p m']
  show "slice_reads dest reads m' p = slice_reads dest reads m p \<and> slice_foot dest foot m' p = slice_foot dest foot m p \<and>
      pointer_wf dest valid m' p"
    by (simp add: pointer_wf_def)
next
  fix m p
  assume "mem_ok m" "pointer_wf dest valid m p"
  then show "slice_foot dest foot m p \<subseteq> {..<next_addr m}"
    by (intro items.bounded) (simp_all add: pointer_wf_def)
qed

lemma pointer_deep_copier:
  "deep_copier (slice_reads dest reads) (slice_foot dest foot) (pointer_wf dest valid)
     (copy_pointer dest wrap zero copy_into)"
proof (rule deep_copier.intro, rule pointer_value, rule deep_copier_axioms.intro)
  fix m p p' m'
  assume m: "mem_ok m" "pointer_wf dest valid m p" "copy_pointer dest wrap zero copy_into p m = (p', m')"
  have s: "slice_wf dest valid m p" "copy_slice dest wrap zero copy_into p m = (p', m')"
    using m(2,3) copy_pointer_eq [OF m(2)] by (simp_all add: pointer_wf_def)
  show "extends m m' \<and> mem_ok m'" by (rule items.only_allocates [OF m(1) s])
  have "case p' of None \<Rightarrow> True | Some q \<Rightarrow> sl_len q = 1"
    using m(2,3) by (cases p) (auto simp: pointer_wf_def copy_pointer_def split: prod.splits)
  with items.same_value [OF m(1) s]
  show "pointer_wf dest valid m' p' \<and> slice_reads dest reads m' p' = slice_reads dest reads m p"
    by (simp add: pointer_wf_def)
  show "slice_foot dest foot m' p' \<inter> {..<next_addr m} = {}" by (rule items.all_new [OF m(1) s])
qed

end

sublocale item_copier \<subseteq> pointer: deep_copier "slice_reads dest reads" "slice_foot dest foot" "pointer_wf dest valid"
  "copy_pointer dest wrap zero copy_into"
  by (rule pointer_deep_copier)

end
