(* ===== verification/MetaCopy.thy ===== *)
theory MetaCopy
  imports Memory
begin

text \<open>
  The deep copies of the metadata that every API object and every list of them has: \<^verbatim>\<open>ObjectMeta\<close> with its owner
  references and managed fields, and \<^verbatim>\<open>ListMeta\<close> (the vendored zz_generated.deepcopy.go of
  apimachinery's meta/v1). Each meets the contract \<open>deep_copier\<close>.
\<close>

section \<open>Maps and values behind pointers\<close>

text \<open>Labels and annotations: \<^verbatim>\<open>make(map[string]string, len(in))\<close> and the loop over the entries.\<close>

fun get_LabelMap :: "cell \<Rightarrow> labels option" where
  "get_LabelMap (LabelMap kvs) = Some kvs"
| "get_LabelMap _ = None"

abbreviation labels_reads :: "memory \<Rightarrow> nat option \<Rightarrow> labels option option" where
  "labels_reads \<equiv> box_reads get_LabelMap"

abbreviation labels_wf :: "memory \<Rightarrow> nat option \<Rightarrow> bool" where
  "labels_wf \<equiv> box_wf get_LabelMap (\<lambda>kvs. distinct (map fst kvs))"

definition copy_labels :: "nat option \<Rightarrow> memory \<Rightarrow> nat option \<times> memory" where
  "copy_labels l m =
     (case l of
        None \<Rightarrow> (None, m)
      | Some a \<Rightarrow>
          (case Option.bind (heap m a) get_LabelMap of
             None \<Rightarrow> (None, m)
           | Some kvs \<Rightarrow>
               let (b, m1) = alloc (LabelMap []) m
               in (Some b, store b (LabelMap (foldl (\<lambda>out (key, val). AList.update key val out) [] kvs)) m1)))"

lemma copy_entries:
  "distinct (map fst (acc @ kvs)) \<Longrightarrow> foldl (\<lambda>out (key, val). AList.update key val out) acc kvs = acc @ kvs"
proof (induction kvs arbitrary: acc)
  case (Cons kv kvs)
  have "AList.update (fst kv) (snd kv) acc = acc @ [kv]" if "fst kv \<notin> fst ` set acc"
    using that by (induction acc) auto
  with Cons show ?case by (simp add: case_prod_beta)
qed simp

interpretation labels: deep_copier labels_reads box_foot labels_wf copy_labels
  by (intro box_deep_copier [where wrap = LabelMap and zero = "LabelMap []"])
    (simp_all add: copy_labels_def alloc_def copy_entries [where acc = "[]", simplified])

text \<open>Numbers, times and booleans behind a pointer.\<close>

fun get_Int64 :: "cell \<Rightarrow> int64 option" where
  "get_Int64 (Int64 n) = Some n"
| "get_Int64 _ = None"

fun get_Time :: "cell \<Rightarrow> Time option" where
  "get_Time (TimeCell t) = Some t"
| "get_Time _ = None"

fun get_Bool :: "cell \<Rightarrow> bool option" where
  "get_Bool (BoolCell b) = Some b"
| "get_Bool _ = None"

abbreviation count_reads :: "memory \<Rightarrow> nat option \<Rightarrow> int64 option option" where
  "count_reads \<equiv> box_reads get_Int64"

abbreviation count_wf :: "memory \<Rightarrow> nat option \<Rightarrow> bool" where
  "count_wf \<equiv> box_wf get_Int64 (\<lambda>_. True)"

abbreviation time_reads :: "memory \<Rightarrow> nat option \<Rightarrow> Time option option" where
  "time_reads \<equiv> box_reads get_Time"

abbreviation time_wf :: "memory \<Rightarrow> nat option \<Rightarrow> bool" where
  "time_wf \<equiv> box_wf get_Time (\<lambda>_. True)"

abbreviation bool_reads :: "memory \<Rightarrow> nat option \<Rightarrow> bool option option" where
  "bool_reads \<equiv> box_reads get_Bool"

abbreviation bool_wf :: "memory \<Rightarrow> nat option \<Rightarrow> bool" where
  "bool_wf \<equiv> box_wf get_Bool (\<lambda>_. True)"

definition copy_count :: "nat option \<Rightarrow> memory \<Rightarrow> nat option \<times> memory" where
  "copy_count = copy_box get_Int64 Int64 0"

definition Time_DeepCopy :: "nat option \<Rightarrow> memory \<Rightarrow> nat option \<times> memory" where
  "Time_DeepCopy = copy_box get_Time TimeCell 0"

definition copy_bool :: "nat option \<Rightarrow> memory \<Rightarrow> nat option \<times> memory" where
  "copy_bool = copy_box get_Bool BoolCell False"

interpretation count: deep_copier count_reads box_foot count_wf copy_count
  unfolding copy_count_def by (rule copy_box_deep_copier) simp

interpretation times: deep_copier time_reads box_foot time_wf Time_DeepCopy
  unfolding Time_DeepCopy_def by (rule copy_box_deep_copier) simp

interpretation bools: deep_copier bool_reads box_foot bool_wf copy_bool
  unfolding copy_bool_def by (rule copy_box_deep_copier) simp

section \<open>Owner references\<close>

definition OwnerReference_DeepCopyInto :: "OwnerRef \<Rightarrow> memory \<Rightarrow> OwnerRef \<times> memory" where
  "OwnerReference_DeepCopyInto ow m =
     (let (c, m1) = copy_bool (ow_Controller ow) m;
          (b, m2) = copy_bool (ow_BlockOwnerDeletion ow) m1
      in (ow\<lparr>ow_Controller := c, ow_BlockOwnerDeletion := b\<rparr>, m2))"

type_synonym owner_value = "(string \<times> string \<times> string \<times> string) \<times> bool option option \<times> bool option option"

definition owner_reads :: "memory \<Rightarrow> OwnerRef \<Rightarrow> owner_value" where
  "owner_reads m ow = ((ow_APIVersion ow, ow_Kind ow, ow_Name ow, ow_UID ow), bool_reads m (ow_Controller ow),
     bool_reads m (ow_BlockOwnerDeletion ow))"

definition owner_foot :: "memory \<Rightarrow> OwnerRef \<Rightarrow> nat set" where
  "owner_foot m ow = box_foot m (ow_Controller ow) \<union> box_foot m (ow_BlockOwnerDeletion ow)"

definition owner_wf :: "memory \<Rightarrow> OwnerRef \<Rightarrow> bool" where
  "owner_wf m ow \<longleftrightarrow> bool_wf m (ow_Controller ow) \<and> bool_wf m (ow_BlockOwnerDeletion ow)"

interpretation owner: deep_copier owner_reads owner_foot owner_wf OwnerReference_DeepCopyInto
  unfolding owner_reads_def [abs_def] owner_foot_def [abs_def] owner_wf_def [abs_def]
  by (rule struct_deep_copier [OF bools.deep_copier_axioms bools.deep_copier_axioms,
        where put = "\<lambda>c b ow. ow\<lparr>ow_Controller := c, ow_BlockOwnerDeletion := b\<rparr>"])
    (simp_all add: OwnerReference_DeepCopyInto_def)

fun dest_OwnerRefs :: "cell \<Rightarrow> OwnerRef list option" where
  "dest_OwnerRefs (OwnerRefs xs) = Some xs"
| "dest_OwnerRefs _ = None"

definition zero_owner :: OwnerRef where
  "zero_owner = \<lparr>ow_APIVersion = '''', ow_Kind = '''', ow_Name = '''', ow_UID = '''', ow_Controller = None,
     ow_BlockOwnerDeletion = None\<rparr>"

interpretation owners: item_copier owner_reads owner_foot owner_wf OwnerReference_DeepCopyInto dest_OwnerRefs OwnerRefs
  zero_owner
  by unfold_locales simp

section \<open>Managed fields\<close>

fun dest_Bytes :: "cell \<Rightarrow> 8 word list option" where
  "dest_Bytes (Bytes xs) = Some xs"
| "dest_Bytes _ = None"

fun dest_FieldsV1s :: "cell \<Rightarrow> slice option list option" where
  "dest_FieldsV1s (FieldsV1s xs) = Some xs"
| "dest_FieldsV1s _ = None"

fun dest_ManagedFields :: "cell \<Rightarrow> ManagedFieldsEntry list option" where
  "dest_ManagedFields (ManagedFields xs) = Some xs"
| "dest_ManagedFields _ = None"

definition FieldsV1_DeepCopyInto :: "slice option \<Rightarrow> memory \<Rightarrow> slice option \<times> memory" where
  "FieldsV1_DeepCopyInto raw m = copy_array dest_Bytes Bytes 0 raw m"

abbreviation raw_reads :: "memory \<Rightarrow> slice option \<Rightarrow> 8 word list option" where
  "raw_reads \<equiv> slice_reads dest_Bytes (\<lambda>m v. v)"

abbreviation raw_foot :: "memory \<Rightarrow> slice option \<Rightarrow> nat set" where
  "raw_foot \<equiv> slice_foot dest_Bytes (\<lambda>m v. {})"

abbreviation raw_wf :: "memory \<Rightarrow> slice option \<Rightarrow> bool" where
  "raw_wf \<equiv> slice_wf dest_Bytes (\<lambda>m v. True)"

interpretation fields: item_copier raw_reads raw_foot raw_wf FieldsV1_DeepCopyInto dest_FieldsV1s FieldsV1s None
  unfolding FieldsV1_DeepCopyInto_def [abs_def]
  by (intro item_copier.intro array_deep_copier item_copier_axioms.intro) simp_all

definition ManagedFieldsEntry_DeepCopyInto :: "ManagedFieldsEntry \<Rightarrow> memory \<Rightarrow> ManagedFieldsEntry \<times> memory" where
  "ManagedFieldsEntry_DeepCopyInto mf m =
     (let (t, m1) = Time_DeepCopy (mf_Time mf) m;
          (fs, m2) = copy_pointer dest_FieldsV1s FieldsV1s None FieldsV1_DeepCopyInto (mf_FieldsV1 mf) m1
      in (mf\<lparr>mf_Time := t, mf_FieldsV1 := fs\<rparr>, m2))"

type_synonym managed_value =
  "(string \<times> string \<times> string \<times> string \<times> string) \<times> Time option option \<times> 8 word list option list option"

definition managed_reads :: "memory \<Rightarrow> ManagedFieldsEntry \<Rightarrow> managed_value" where
  "managed_reads m mf =
     ((mf_Manager mf, mf_Operation mf, mf_APIVersion mf, mf_FieldsType mf, mf_Subresource mf),
      time_reads m (mf_Time mf), slice_reads dest_FieldsV1s raw_reads m (mf_FieldsV1 mf))"

definition managed_foot :: "memory \<Rightarrow> ManagedFieldsEntry \<Rightarrow> nat set" where
  "managed_foot m mf = box_foot m (mf_Time mf) \<union> slice_foot dest_FieldsV1s raw_foot m (mf_FieldsV1 mf)"

definition managed_wf :: "memory \<Rightarrow> ManagedFieldsEntry \<Rightarrow> bool" where
  "managed_wf m mf \<longleftrightarrow> time_wf m (mf_Time mf) \<and> pointer_wf dest_FieldsV1s raw_wf m (mf_FieldsV1 mf)"

interpretation managed: deep_copier managed_reads managed_foot managed_wf ManagedFieldsEntry_DeepCopyInto
  unfolding managed_reads_def [abs_def] managed_foot_def [abs_def] managed_wf_def [abs_def]
  by (rule struct_deep_copier [OF times.deep_copier_axioms fields.pointer.deep_copier_axioms,
        where put = "\<lambda>t fs mf. mf\<lparr>mf_Time := t, mf_FieldsV1 := fs\<rparr>"])
    (simp_all add: ManagedFieldsEntry_DeepCopyInto_def)

definition zero_managed :: ManagedFieldsEntry where
  "zero_managed = \<lparr>mf_Manager = '''', mf_Operation = '''', mf_APIVersion = '''', mf_Time = None, mf_FieldsType = '''',
     mf_FieldsV1 = None, mf_Subresource = ''''\<rparr>"

interpretation manageds: item_copier managed_reads managed_foot managed_wf ManagedFieldsEntry_DeepCopyInto
  dest_ManagedFields ManagedFields zero_managed
  by unfold_locales simp

section \<open>The metadata of an object\<close>

fun dest_Strings :: "cell \<Rightarrow> string list option" where
  "dest_Strings (Strings xs) = Some xs"
| "dest_Strings _ = None"

definition copy_finalizers :: "slice option \<Rightarrow> memory \<Rightarrow> slice option \<times> memory" where
  "copy_finalizers = copy_array dest_Strings Strings ''''"

abbreviation strings_reads :: "memory \<Rightarrow> slice option \<Rightarrow> string list option" where
  "strings_reads \<equiv> slice_reads dest_Strings (\<lambda>m v. v)"

abbreviation strings_foot :: "memory \<Rightarrow> slice option \<Rightarrow> nat set" where
  "strings_foot \<equiv> slice_foot dest_Strings (\<lambda>m v. {})"

abbreviation strings_wf :: "memory \<Rightarrow> slice option \<Rightarrow> bool" where
  "strings_wf \<equiv> slice_wf dest_Strings (\<lambda>m v. True)"

interpretation finalizers: deep_copier strings_reads strings_foot strings_wf copy_finalizers
  unfolding copy_finalizers_def by (rule array_deep_copier) simp

abbreviation copy_owners :: "slice option \<Rightarrow> memory \<Rightarrow> slice option \<times> memory" where
  "copy_owners \<equiv> copy_slice dest_OwnerRefs OwnerRefs zero_owner OwnerReference_DeepCopyInto"

abbreviation copy_managed :: "slice option \<Rightarrow> memory \<Rightarrow> slice option \<times> memory" where
  "copy_managed \<equiv> copy_slice dest_ManagedFields ManagedFields zero_managed ManagedFieldsEntry_DeepCopyInto"

text \<open>The fields are copied in the order of the source; the others go with \<^verbatim>\<open>*out = *in\<close>.\<close>

definition ObjectMeta_DeepCopyInto :: "ObjectMeta \<Rightarrow> memory \<Rightarrow> ObjectMeta \<times> memory" where
  "ObjectMeta_DeepCopyInto om m =
     (let (deletion, m1) = Time_DeepCopy (om_DeletionTimestamp om) m;
          (grace, m2) = copy_count (om_DeletionGracePeriodSeconds om) m1;
          (labels, m3) = copy_labels (om_Labels om) m2;
          (annotations, m4) = copy_labels (om_Annotations om) m3;
          (owners, m5) = copy_owners (om_OwnerReferences om) m4;
          (finalizers, m6) = copy_finalizers (om_Finalizers om) m5;
          (managed, m7) = copy_managed (om_ManagedFields om) m6
      in (om\<lparr>om_DeletionTimestamp := deletion, om_DeletionGracePeriodSeconds := grace, om_Labels := labels,
            om_Annotations := annotations, om_OwnerReferences := owners, om_Finalizers := finalizers,
            om_ManagedFields := managed\<rparr>, m7))"

text \<open>The fields without references, and those with; what the metadata reads as is both.\<close>

definition om_flat :: "ObjectMeta \<Rightarrow> ObjectMeta" where
  "om_flat om = om\<lparr>om_DeletionTimestamp := None, om_DeletionGracePeriodSeconds := None, om_Labels := None,
     om_Annotations := None, om_OwnerReferences := None, om_Finalizers := None, om_ManagedFields := None\<rparr>"

type_synonym meta_value =
  "ObjectMeta \<times> Time option option \<times> int64 option option \<times> labels option option \<times> labels option option \<times>
     owner_value list option \<times> string list option \<times> managed_value list option"

definition ObjectMeta_reads :: "memory \<Rightarrow> ObjectMeta \<Rightarrow> meta_value" where
  "ObjectMeta_reads m om =
     (om_flat om, time_reads m (om_DeletionTimestamp om), count_reads m (om_DeletionGracePeriodSeconds om),
      labels_reads m (om_Labels om), labels_reads m (om_Annotations om),
      slice_reads dest_OwnerRefs owner_reads m (om_OwnerReferences om), strings_reads m (om_Finalizers om),
      slice_reads dest_ManagedFields managed_reads m (om_ManagedFields om))"

definition ObjectMeta_foot :: "memory \<Rightarrow> ObjectMeta \<Rightarrow> nat set" where
  "ObjectMeta_foot m om =
     box_foot m (om_DeletionTimestamp om) \<union> (box_foot m (om_DeletionGracePeriodSeconds om) \<union>
     (box_foot m (om_Labels om) \<union> (box_foot m (om_Annotations om) \<union>
     (slice_foot dest_OwnerRefs owner_foot m (om_OwnerReferences om) \<union> (strings_foot m (om_Finalizers om) \<union>
     slice_foot dest_ManagedFields managed_foot m (om_ManagedFields om))))))"

definition ObjectMeta_wf :: "memory \<Rightarrow> ObjectMeta \<Rightarrow> bool" where
  "ObjectMeta_wf m om \<longleftrightarrow>
     time_wf m (om_DeletionTimestamp om) \<and> count_wf m (om_DeletionGracePeriodSeconds om) \<and>
     labels_wf m (om_Labels om) \<and> labels_wf m (om_Annotations om) \<and>
     slice_wf dest_OwnerRefs owner_wf m (om_OwnerReferences om) \<and> strings_wf m (om_Finalizers om) \<and>
     slice_wf dest_ManagedFields managed_wf m (om_ManagedFields om)"

type_synonym meta_refs =
  "nat option \<times> nat option \<times> nat option \<times> nat option \<times> slice option \<times> slice option \<times> slice option"

definition om_refs :: "ObjectMeta \<Rightarrow> meta_refs" where
  "om_refs om = (om_DeletionTimestamp om, om_DeletionGracePeriodSeconds om, om_Labels om, om_Annotations om,
     om_OwnerReferences om, om_Finalizers om, om_ManagedFields om)"

fun om_put :: "meta_refs \<Rightarrow> ObjectMeta \<Rightarrow> ObjectMeta" where
  "om_put (dt, gp, ls, an, ow, fi, mf) om =
     om\<lparr>om_DeletionTimestamp := dt, om_DeletionGracePeriodSeconds := gp, om_Labels := ls, om_Annotations := an,
       om_OwnerReferences := ow, om_Finalizers := fi, om_ManagedFields := mf\<rparr>"

definition copy_refs :: "meta_refs \<Rightarrow> memory \<Rightarrow> meta_refs \<times> memory" where
  "copy_refs = copy_both Time_DeepCopy (copy_both copy_count (copy_both copy_labels (copy_both copy_labels
     (copy_both copy_owners (copy_both copy_finalizers copy_managed)))))"

lemmas refs_deep_copier =
  pair_deep_copier [OF times.deep_copier_axioms pair_deep_copier [OF count.deep_copier_axioms
    pair_deep_copier [OF labels.deep_copier_axioms pair_deep_copier [OF labels.deep_copier_axioms
    pair_deep_copier [OF owners.items.deep_copier_axioms pair_deep_copier [OF finalizers.deep_copier_axioms
    manageds.items.deep_copier_axioms]]]]]]

lemma om_put_refs: "om_refs (om_put r om) = r" "om_flat (om_put r om) = om_flat om"
  by (cases r; simp add: om_refs_def om_flat_def)+

lemma ObjectMeta_DeepCopyInto_refs:
  "ObjectMeta_DeepCopyInto = (\<lambda>om m. let (r, m') = copy_refs (om_refs om) m in (om_put r om, m'))"
  by (intro ext) (simp add: ObjectMeta_DeepCopyInto_def copy_refs_def copy_both_def om_refs_def Let_def split: prod.split)

interpretation object_meta: deep_copier ObjectMeta_reads ObjectMeta_foot ObjectMeta_wf ObjectMeta_DeepCopyInto
  using deep_copier.field_deep_copier [OF refs_deep_copier, of om_refs om_put om_flat, OF om_put_refs]
  unfolding ObjectMeta_reads_def [abs_def] ObjectMeta_foot_def [abs_def] ObjectMeta_wf_def [abs_def]
    ObjectMeta_DeepCopyInto_refs copy_refs_def
  by (simp add: om_refs_def)

definition zero_meta :: ObjectMeta where
  "zero_meta =
     \<lparr>om_Name = '''', om_GenerateName = '''', om_Namespace = '''', om_SelfLink = '''', om_UID = '''',
      om_ResourceVersion = '''', om_Generation = 0, om_CreationTimestamp = 0, om_DeletionTimestamp = None,
      om_DeletionGracePeriodSeconds = None, om_Labels = None, om_Annotations = None, om_OwnerReferences = None,
      om_Finalizers = None, om_ClusterName = '''', om_ManagedFields = None\<rparr>"

section \<open>The metadata of a list\<close>

text \<open>\<^verbatim>\<open>ListMeta.DeepCopyInto\<close>: the count is behind a pointer.\<close>

definition ListMeta_DeepCopyInto :: "ListMeta \<Rightarrow> memory \<Rightarrow> ListMeta \<times> memory" where
  "ListMeta_DeepCopyInto l m =
     (let (c, m') = copy_count (lm_RemainingItemCount l) m in (l\<lparr>lm_RemainingItemCount := c\<rparr>, m'))"

type_synonym list_meta_value = "(string \<times> string \<times> string) \<times> int64 option option"

definition ListMeta_reads :: "memory \<Rightarrow> ListMeta \<Rightarrow> list_meta_value" where
  "ListMeta_reads m l =
     ((lm_SelfLink l, lm_ResourceVersion l, lm_Continue l), count_reads m (lm_RemainingItemCount l))"

definition ListMeta_foot :: "memory \<Rightarrow> ListMeta \<Rightarrow> nat set" where
  "ListMeta_foot m l = box_foot m (lm_RemainingItemCount l)"

definition ListMeta_wf :: "memory \<Rightarrow> ListMeta \<Rightarrow> bool" where
  "ListMeta_wf m l = count_wf m (lm_RemainingItemCount l)"

interpretation list_meta: deep_copier ListMeta_reads ListMeta_foot ListMeta_wf ListMeta_DeepCopyInto
  unfolding ListMeta_reads_def [abs_def] ListMeta_foot_def [abs_def] ListMeta_wf_def [abs_def]
    ListMeta_DeepCopyInto_def [abs_def]
  by (rule count.field_deep_copier [of lm_RemainingItemCount "\<lambda>c l. l\<lparr>lm_RemainingItemCount := c\<rparr>"]) simp_all

definition zero_list_meta :: ListMeta where
  "zero_list_meta = \<lparr>lm_SelfLink = '''', lm_ResourceVersion = '''', lm_Continue = '''', lm_RemainingItemCount = None\<rparr>"

end
