(* ===== verification/DeepCopy.thy ===== *)
theory DeepCopy
  imports MetaCopy
begin

text \<open>
  The generated functions \<^verbatim>\<open>DeepCopyInto\<close>, \<^verbatim>\<open>DeepCopy\<close> and \<^verbatim>\<open>DeepCopyObject\<close> of the custom resources
  (pkg/apis/scheduleplanner/v1alpha1/zz_generated.deepcopy.go) and of the plugin's arguments
  (internal/pkg/scheduler/zz_generated.deepcopy.go). The informer caches of controller-runtime hand
  out objects that the whole program shares: a reader may only change a deep copy, so what matters
  is that the copy reads the same and shares nothing with the original.

  Every \<^verbatim>\<open>DeepCopyInto\<close> is shown to meet the contract \<open>deep_copier\<close>; the metadata functions, which these call, are in
  theory MetaCopy.
\<close>

section \<open>The schedule plan\<close>

fun dest_PlanSpecs :: "cell \<Rightarrow> PlanSpec list option" where
  "dest_PlanSpecs (PlanSpecs xs) = Some xs"
| "dest_PlanSpecs _ = None"

fun dest_Plans :: "cell \<Rightarrow> plan_obj list option" where
  "dest_Plans (Plans xs) = Some xs"
| "dest_Plans _ = None"

fun dest_SchedulePlanSpecs :: "cell \<Rightarrow> slice option list option" where
  "dest_SchedulePlanSpecs (SchedulePlanSpecs xs) = Some xs"
| "dest_SchedulePlanSpecs _ = None"

fun dest_Statuses :: "cell \<Rightarrow> unit list option" where
  "dest_Statuses (Statuses xs) = Some xs"
| "dest_Statuses _ = None"

fun dest_PlanLists :: "cell \<Rightarrow> plan_list list option" where
  "dest_PlanLists (PlanLists xs) = Some xs"
| "dest_PlanLists _ = None"

text \<open>\<^verbatim>\<open>PlanSpec\<close> and the empty \<^verbatim>\<open>SchedulePlanStatus\<close> hold no references: \<^verbatim>\<open>*out = *in\<close>.\<close>

definition PlanSpec_DeepCopyInto :: "PlanSpec \<Rightarrow> memory \<Rightarrow> PlanSpec \<times> memory" where
  "PlanSpec_DeepCopyInto v m = (v, m)"

definition SchedulePlanStatus_DeepCopyInto :: "unit \<Rightarrow> memory \<Rightarrow> unit \<times> memory" where
  "SchedulePlanStatus_DeepCopyInto v m = (v, m)"

definition zero_PlanSpec :: PlanSpec where
  "zero_PlanSpec = \<lparr>ps_Pod = '''', ps_Node = ''''\<rparr>"

definition SchedulePlanSpec_DeepCopyInto :: "slice option \<Rightarrow> memory \<Rightarrow> slice option \<times> memory" where
  "SchedulePlanSpec_DeepCopyInto spec m = copy_array dest_PlanSpecs PlanSpecs zero_PlanSpec spec m"

definition SchedulePlan_DeepCopyInto :: "plan_obj \<Rightarrow> memory \<Rightarrow> plan_obj \<times> memory" where
  "SchedulePlan_DeepCopyInto p m =
     (let (om, m1) = ObjectMeta_DeepCopyInto (po_ObjectMeta p) m;
          (spec, m2) = SchedulePlanSpec_DeepCopyInto (po_Spec p) m1
      in (p\<lparr>po_ObjectMeta := om, po_Spec := spec\<rparr>, m2))"

definition zero_plan :: plan_obj where
  "zero_plan =
     \<lparr>po_TypeMeta = \<lparr>tm_Kind = '''', tm_APIVersion = ''''\<rparr>,
      po_ObjectMeta = zero_meta, po_Spec = None\<rparr>"

definition SchedulePlanList_DeepCopyInto :: "plan_list \<Rightarrow> memory \<Rightarrow> plan_list \<times> memory" where
  "SchedulePlanList_DeepCopyInto l m =
     (let (lm, m1) = ListMeta_DeepCopyInto (pll_ListMeta l) m;
          (items, m2) = copy_slice dest_Plans Plans zero_plan SchedulePlan_DeepCopyInto (pll_Items l) m1
      in (l\<lparr>pll_ListMeta := lm, pll_Items := items\<rparr>, m2))"

text \<open>What the objects read as, what they reach and when they are well formed.\<close>

abbreviation spec_reads :: "memory \<Rightarrow> slice option \<Rightarrow> PlanSpec list option" where
  "spec_reads \<equiv> slice_reads dest_PlanSpecs (\<lambda>m v. v)"

abbreviation spec_foot :: "memory \<Rightarrow> slice option \<Rightarrow> nat set" where
  "spec_foot \<equiv> slice_foot dest_PlanSpecs (\<lambda>m v. {})"

abbreviation spec_wf :: "memory \<Rightarrow> slice option \<Rightarrow> bool" where
  "spec_wf \<equiv> slice_wf dest_PlanSpecs (\<lambda>m v. True)"

type_synonym plan_value = "TypeMeta \<times> meta_value \<times> PlanSpec list option"

definition plan_reads :: "memory \<Rightarrow> plan_obj \<Rightarrow> plan_value" where
  "plan_reads m p = (po_TypeMeta p, ObjectMeta_reads m (po_ObjectMeta p), spec_reads m (po_Spec p))"

definition plan_foot :: "memory \<Rightarrow> plan_obj \<Rightarrow> nat set" where
  "plan_foot m p = ObjectMeta_foot m (po_ObjectMeta p) \<union> spec_foot m (po_Spec p)"

definition plan_wf :: "memory \<Rightarrow> plan_obj \<Rightarrow> bool" where
  "plan_wf m p \<longleftrightarrow> ObjectMeta_wf m (po_ObjectMeta p) \<and> spec_wf m (po_Spec p)"

interpretation plan_spec: deep_copier spec_reads spec_foot spec_wf SchedulePlanSpec_DeepCopyInto
  unfolding SchedulePlanSpec_DeepCopyInto_def [abs_def] by (rule array_deep_copier) simp

interpretation plan: deep_copier plan_reads plan_foot plan_wf SchedulePlan_DeepCopyInto
  unfolding plan_reads_def [abs_def] plan_foot_def [abs_def] plan_wf_def [abs_def]
  by (rule struct_deep_copier [OF object_meta.deep_copier_axioms plan_spec.deep_copier_axioms,
        where put = "\<lambda>om spec p. p\<lparr>po_ObjectMeta := om, po_Spec := spec\<rparr>"])
    (simp_all add: SchedulePlan_DeepCopyInto_def)

text \<open>The list of schedule plans.\<close>

interpretation plans: item_copier plan_reads plan_foot plan_wf SchedulePlan_DeepCopyInto dest_Plans Plans zero_plan
  by unfold_locales simp

abbreviation plans_reads :: "memory \<Rightarrow> slice option \<Rightarrow> plan_value list option" where
  "plans_reads \<equiv> slice_reads dest_Plans plan_reads"

definition plan_list_reads :: "memory \<Rightarrow> plan_list \<Rightarrow> TypeMeta \<times> list_meta_value \<times> plan_value list option" where
  "plan_list_reads m l = (pll_TypeMeta l, ListMeta_reads m (pll_ListMeta l), plans_reads m (pll_Items l))"

definition plan_list_foot :: "memory \<Rightarrow> plan_list \<Rightarrow> nat set" where
  "plan_list_foot m l = ListMeta_foot m (pll_ListMeta l) \<union> slice_foot dest_Plans plan_foot m (pll_Items l)"

definition plan_list_wf :: "memory \<Rightarrow> plan_list \<Rightarrow> bool" where
  "plan_list_wf m l \<longleftrightarrow> ListMeta_wf m (pll_ListMeta l) \<and> slice_wf dest_Plans plan_wf m (pll_Items l)"

interpretation plan_list: deep_copier plan_list_reads plan_list_foot plan_list_wf SchedulePlanList_DeepCopyInto
  unfolding plan_list_reads_def [abs_def] plan_list_foot_def [abs_def] plan_list_wf_def [abs_def]
  by (rule struct_deep_copier [OF list_meta.deep_copier_axioms plans.items.deep_copier_axioms,
        where put = "\<lambda>lm items l. l\<lparr>pll_ListMeta := lm, pll_Items := items\<rparr>"])
    (simp_all add: SchedulePlanList_DeepCopyInto_def)

definition zero_plan_list :: plan_list where
  "zero_plan_list =
     \<lparr>pll_TypeMeta = \<lparr>tm_Kind = '''', tm_APIVersion = ''''\<rparr>,
      pll_ListMeta = zero_list_meta,
      pll_Items = None\<rparr>"

interpretation plan_lists: item_copier plan_list_reads plan_list_foot plan_list_wf SchedulePlanList_DeepCopyInto
  dest_PlanLists PlanLists zero_plan_list
  by unfold_locales simp

interpretation plan_specs: item_copier spec_reads spec_foot spec_wf SchedulePlanSpec_DeepCopyInto
  dest_SchedulePlanSpecs SchedulePlanSpecs None
  by unfold_locales simp

text \<open>\<^verbatim>\<open>DeepCopy\<close>: a pointer in, a pointer to a new struct out.\<close>

definition PlanSpec_DeepCopy :: "slice option \<Rightarrow> memory \<Rightarrow> slice option \<times> memory" where
  "PlanSpec_DeepCopy = copy_pointer dest_PlanSpecs PlanSpecs zero_PlanSpec PlanSpec_DeepCopyInto"

definition SchedulePlan_DeepCopy :: "slice option \<Rightarrow> memory \<Rightarrow> slice option \<times> memory" where
  "SchedulePlan_DeepCopy = copy_pointer dest_Plans Plans zero_plan SchedulePlan_DeepCopyInto"

definition SchedulePlanSpec_DeepCopy :: "slice option \<Rightarrow> memory \<Rightarrow> slice option \<times> memory" where
  "SchedulePlanSpec_DeepCopy = copy_pointer dest_SchedulePlanSpecs SchedulePlanSpecs None SchedulePlanSpec_DeepCopyInto"

definition SchedulePlanStatus_DeepCopy :: "slice option \<Rightarrow> memory \<Rightarrow> slice option \<times> memory" where
  "SchedulePlanStatus_DeepCopy = copy_pointer dest_Statuses Statuses () SchedulePlanStatus_DeepCopyInto"

definition SchedulePlanList_DeepCopy :: "slice option \<Rightarrow> memory \<Rightarrow> slice option \<times> memory" where
  "SchedulePlanList_DeepCopy = copy_pointer dest_PlanLists PlanLists zero_plan_list SchedulePlanList_DeepCopyInto"

section \<open>The schedule trigger\<close>

fun dest_Triggers :: "cell \<Rightarrow> trigger_obj list option" where
  "dest_Triggers (Triggers xs) = Some xs"
| "dest_Triggers _ = None"

fun dest_TriggerSpecs :: "cell \<Rightarrow> string list option" where
  "dest_TriggerSpecs (TriggerSpecs xs) = Some xs"
| "dest_TriggerSpecs _ = None"

fun dest_TriggerLists :: "cell \<Rightarrow> trigger_list list option" where
  "dest_TriggerLists (TriggerLists xs) = Some xs"
| "dest_TriggerLists _ = None"

definition ScheduleTriggerSpec_DeepCopyInto :: "string \<Rightarrow> memory \<Rightarrow> string \<times> memory" where
  "ScheduleTriggerSpec_DeepCopyInto v m = (v, m)"

definition ScheduleTriggerStatus_DeepCopyInto :: "unit \<Rightarrow> memory \<Rightarrow> unit \<times> memory" where
  "ScheduleTriggerStatus_DeepCopyInto v m = (v, m)"

definition ScheduleTrigger_DeepCopyInto :: "trigger_obj \<Rightarrow> memory \<Rightarrow> trigger_obj \<times> memory" where
  "ScheduleTrigger_DeepCopyInto t m =
     (let (om, m') = ObjectMeta_DeepCopyInto (to_ObjectMeta t) m in (t\<lparr>to_ObjectMeta := om\<rparr>, m'))"

definition zero_trigger :: trigger_obj where
  "zero_trigger =
     \<lparr>to_TypeMeta = \<lparr>tm_Kind = '''', tm_APIVersion = ''''\<rparr>,
      to_ObjectMeta = zero_meta, to_Spec = ''''\<rparr>"

definition ScheduleTriggerList_DeepCopyInto :: "trigger_list \<Rightarrow> memory \<Rightarrow> trigger_list \<times> memory" where
  "ScheduleTriggerList_DeepCopyInto l m =
     (let (lm, m1) = ListMeta_DeepCopyInto (tll_ListMeta l) m;
          (items, m2) = copy_slice dest_Triggers Triggers zero_trigger ScheduleTrigger_DeepCopyInto (tll_Items l) m1
      in (l\<lparr>tll_ListMeta := lm, tll_Items := items\<rparr>, m2))"

type_synonym trigger_value = "(TypeMeta \<times> string) \<times> meta_value"

definition trigger_reads :: "memory \<Rightarrow> trigger_obj \<Rightarrow> trigger_value" where
  "trigger_reads m t = ((to_TypeMeta t, to_Spec t), ObjectMeta_reads m (to_ObjectMeta t))"

definition trigger_foot :: "memory \<Rightarrow> trigger_obj \<Rightarrow> nat set" where
  "trigger_foot m t = ObjectMeta_foot m (to_ObjectMeta t)"

definition trigger_wf :: "memory \<Rightarrow> trigger_obj \<Rightarrow> bool" where
  "trigger_wf m t = ObjectMeta_wf m (to_ObjectMeta t)"

interpretation trigger: deep_copier trigger_reads trigger_foot trigger_wf ScheduleTrigger_DeepCopyInto
  unfolding trigger_reads_def [abs_def] trigger_foot_def [abs_def] trigger_wf_def [abs_def]
    ScheduleTrigger_DeepCopyInto_def [abs_def]
  by (rule object_meta.field_deep_copier [of to_ObjectMeta "\<lambda>om t. t\<lparr>to_ObjectMeta := om\<rparr>"]) simp_all

interpretation triggers: item_copier trigger_reads trigger_foot trigger_wf ScheduleTrigger_DeepCopyInto
  dest_Triggers Triggers zero_trigger
  by unfold_locales simp

definition trigger_list_reads :: "memory \<Rightarrow> trigger_list \<Rightarrow> TypeMeta \<times> list_meta_value \<times> trigger_value list option" where
  "trigger_list_reads m l =
     (tll_TypeMeta l, ListMeta_reads m (tll_ListMeta l), slice_reads dest_Triggers trigger_reads m (tll_Items l))"

definition trigger_list_foot :: "memory \<Rightarrow> trigger_list \<Rightarrow> nat set" where
  "trigger_list_foot m l = ListMeta_foot m (tll_ListMeta l) \<union> slice_foot dest_Triggers trigger_foot m (tll_Items l)"

definition trigger_list_wf :: "memory \<Rightarrow> trigger_list \<Rightarrow> bool" where
  "trigger_list_wf m l \<longleftrightarrow> ListMeta_wf m (tll_ListMeta l) \<and> slice_wf dest_Triggers trigger_wf m (tll_Items l)"

interpretation trigger_list: deep_copier trigger_list_reads trigger_list_foot trigger_list_wf
  ScheduleTriggerList_DeepCopyInto
  unfolding trigger_list_reads_def [abs_def] trigger_list_foot_def [abs_def] trigger_list_wf_def [abs_def]
  by (rule struct_deep_copier [OF list_meta.deep_copier_axioms triggers.items.deep_copier_axioms,
        where put = "\<lambda>lm items l. l\<lparr>tll_ListMeta := lm, tll_Items := items\<rparr>"])
    (simp_all add: ScheduleTriggerList_DeepCopyInto_def)

definition zero_trigger_list :: trigger_list where
  "zero_trigger_list =
     \<lparr>tll_TypeMeta = \<lparr>tm_Kind = '''', tm_APIVersion = ''''\<rparr>,
      tll_ListMeta = zero_list_meta,
      tll_Items = None\<rparr>"

interpretation trigger_lists: item_copier trigger_list_reads trigger_list_foot trigger_list_wf
  ScheduleTriggerList_DeepCopyInto dest_TriggerLists TriggerLists zero_trigger_list
  by unfold_locales simp

definition ScheduleTrigger_DeepCopy :: "slice option \<Rightarrow> memory \<Rightarrow> slice option \<times> memory" where
  "ScheduleTrigger_DeepCopy = copy_pointer dest_Triggers Triggers zero_trigger ScheduleTrigger_DeepCopyInto"

definition ScheduleTriggerSpec_DeepCopy :: "slice option \<Rightarrow> memory \<Rightarrow> slice option \<times> memory" where
  "ScheduleTriggerSpec_DeepCopy = copy_pointer dest_TriggerSpecs TriggerSpecs '''' ScheduleTriggerSpec_DeepCopyInto"

definition ScheduleTriggerStatus_DeepCopy :: "slice option \<Rightarrow> memory \<Rightarrow> slice option \<times> memory" where
  "ScheduleTriggerStatus_DeepCopy = copy_pointer dest_Statuses Statuses () ScheduleTriggerStatus_DeepCopyInto"

definition ScheduleTriggerList_DeepCopy :: "slice option \<Rightarrow> memory \<Rightarrow> slice option \<times> memory" where
  "ScheduleTriggerList_DeepCopy =
     copy_pointer dest_TriggerLists TriggerLists zero_trigger_list ScheduleTriggerList_DeepCopyInto"

section \<open>The arguments of the plugin\<close>

fun dest_PluginArgs :: "cell \<Rightarrow> PodSetPlannerArgs list option" where
  "dest_PluginArgs (PluginArgs xs) = Some xs"
| "dest_PluginArgs _ = None"

definition PodSetPlannerArgs_DeepCopyInto :: "PodSetPlannerArgs \<Rightarrow> memory \<Rightarrow> PodSetPlannerArgs \<times> memory" where
  "PodSetPlannerArgs_DeepCopyInto v m = (v, m)"

definition PodSetPlannerArgs_DeepCopy :: "slice option \<Rightarrow> memory \<Rightarrow> slice option \<times> memory" where
  "PodSetPlannerArgs_DeepCopy =
     copy_pointer dest_PluginArgs PluginArgs \<lparr>arg_Debug = False, arg_CallTimeout = '''', arg_UpdatePeriod = ''''\<rparr>
       PodSetPlannerArgs_DeepCopyInto"

text \<open>
  \<^verbatim>\<open>DeepCopyObject\<close> returns the interface \<^verbatim>\<open>runtime.Object\<close>; for nil it returns the nil interface, not
  an interface that holds a nil pointer.
\<close>

datatype runtime_Object =
    PlanObject "slice option"
  | PlanListObject "slice option"
  | TriggerObject "slice option"
  | TriggerListObject "slice option"
  | PluginArgsObject "slice option"

definition as_Object ::
  "(slice option \<Rightarrow> runtime_Object) \<Rightarrow> slice option \<times> memory \<Rightarrow> runtime_Object option \<times> memory" where
  "as_Object con r = (case fst r of None \<Rightarrow> (None, snd r) | Some c \<Rightarrow> (Some (con (Some c)), snd r))"

definition SchedulePlan_DeepCopyObject :: "slice option \<Rightarrow> memory \<Rightarrow> runtime_Object option \<times> memory" where
  "SchedulePlan_DeepCopyObject p m = as_Object PlanObject (SchedulePlan_DeepCopy p m)"

definition SchedulePlanList_DeepCopyObject :: "slice option \<Rightarrow> memory \<Rightarrow> runtime_Object option \<times> memory" where
  "SchedulePlanList_DeepCopyObject p m = as_Object PlanListObject (SchedulePlanList_DeepCopy p m)"

definition ScheduleTrigger_DeepCopyObject :: "slice option \<Rightarrow> memory \<Rightarrow> runtime_Object option \<times> memory" where
  "ScheduleTrigger_DeepCopyObject p m = as_Object TriggerObject (ScheduleTrigger_DeepCopy p m)"

definition ScheduleTriggerList_DeepCopyObject :: "slice option \<Rightarrow> memory \<Rightarrow> runtime_Object option \<times> memory" where
  "ScheduleTriggerList_DeepCopyObject p m = as_Object TriggerListObject (ScheduleTriggerList_DeepCopy p m)"

definition PodSetPlannerArgs_DeepCopyObject :: "slice option \<Rightarrow> memory \<Rightarrow> runtime_Object option \<times> memory" where
  "PodSetPlannerArgs_DeepCopyObject p m = as_Object PluginArgsObject (PodSetPlannerArgs_DeepCopy p m)"

section \<open>Copies are complete and independent\<close>

abbreviation plan_lists_at where
  "plan_lists_at \<equiv> slice_reads dest_PlanLists plan_list_reads"

abbreviation plan_lists_foot where
  "plan_lists_foot \<equiv> slice_foot dest_PlanLists plan_list_foot"

abbreviation plan_lists_ok where
  "plan_lists_ok \<equiv> pointer_wf dest_PlanLists plan_list_wf"

text \<open>
  A list of one plan, as a cache would hold it: with labels and annotations, an owner, a finalizer, a manager of its
  fields, and on its way to be deleted.
\<close>

definition ex_meta :: ObjectMeta where
  "ex_meta = zero_meta\<lparr>om_Name := ''p'', om_Namespace := ''ns'', om_ResourceVersion := ''11'', om_CreationTimestamp := 100,
     om_DeletionTimestamp := Some 5, om_DeletionGracePeriodSeconds := Some 6, om_Labels := Some 0, om_Annotations := Some 7,
     om_OwnerReferences := Some \<lparr>sl_addr = 9, sl_off = 0, sl_len = 1\<rparr>,
     om_Finalizers := Some \<lparr>sl_addr = 10, sl_off = 1, sl_len = 1\<rparr>,
     om_ManagedFields := Some \<lparr>sl_addr = 14, sl_off = 0, sl_len = 1\<rparr>\<rparr>"

definition ex_memory :: memory where
  "ex_memory =
     \<lparr>heap = [0 \<mapsto> LabelMap [(''planner'', ''default''), (''podset'', ''web'')],
        1 \<mapsto> PlanSpecs [\<lparr>ps_Pod = ''a'', ps_Node = ''n1''\<rparr>, \<lparr>ps_Pod = ''b'', ps_Node = ''n2''\<rparr>],
        2 \<mapsto> Plans [zero_plan\<lparr>po_ObjectMeta := ex_meta, po_Spec := Some \<lparr>sl_addr = 1, sl_off = 0, sl_len = 2\<rparr>\<rparr>],
        3 \<mapsto> Int64 7,
        4 \<mapsto> PlanLists [\<lparr>pll_TypeMeta = \<lparr>tm_Kind = ''SchedulePlanList'', tm_APIVersion = ''v1alpha1''\<rparr>,
               pll_ListMeta = zero_list_meta\<lparr>lm_ResourceVersion := ''12'', lm_RemainingItemCount := Some 3\<rparr>,
               pll_Items = Some \<lparr>sl_addr = 2, sl_off = 0, sl_len = 1\<rparr>\<rparr>],
        5 \<mapsto> TimeCell 200,
        6 \<mapsto> Int64 30,
        7 \<mapsto> LabelMap [(''note'', ''x'')],
        8 \<mapsto> BoolCell True,
        9 \<mapsto> OwnerRefs [zero_owner\<lparr>ow_Kind := ''ReplicaSet'', ow_Name := ''web'', ow_Controller := Some 8\<rparr>],
        10 \<mapsto> Strings [''f0'', ''f1''],
        11 \<mapsto> TimeCell 150,
        12 \<mapsto> Bytes [123, 125],
        13 \<mapsto> FieldsV1s [Some \<lparr>sl_addr = 12, sl_off = 0, sl_len = 2\<rparr>],
        14 \<mapsto> ManagedFields [zero_managed\<lparr>mf_Manager := ''kubectl'', mf_Time := Some 11,
               mf_FieldsV1 := Some \<lparr>sl_addr = 13, sl_off = 0, sl_len = 1\<rparr>\<rparr>]],
      next_addr = 15\<rparr>"

definition ex_list :: "slice option" where
  "ex_list = Some \<lparr>sl_addr = 4, sl_off = 0, sl_len = 1\<rparr>"

lemmas wf_simps = pointer_wf_def slice_wf_def slice_ok_def elements_def plan_list_wf_def ListMeta_wf_def box_wf_def
  plan_wf_def ObjectMeta_wf_def owner_wf_def managed_wf_def

lemmas foot_simps = slice_foot_def elements_def plan_list_foot_def ListMeta_foot_def box_foot_def plan_foot_def
  ObjectMeta_foot_def owner_foot_def managed_foot_def

lemma ex_memory_ok: "mem_ok ex_memory" "plan_lists_ok ex_memory ex_list"
  by (simp_all add: mem_ok_def ex_memory_def ex_list_def ex_meta_def zero_meta_def zero_list_meta_def zero_owner_def
      zero_managed_def wf_simps)

text \<open>
  C40: a deep copy of a list of schedule plans is well formed and complete: the memory stays well
  formed and what was there before is unchanged, the copy's slices, maps and pointers are all valid,
  the copy reads exactly as the original does (kind, list metadata, and every plan with all its metadata:
  names, versions, timestamps, grace period, labels, annotations, owners, finalizers and managed
  fields, and with its entries; nil stays nil), and no cell the copy reaches existed before.
\<close>

theorem plan_list_copy_well_formed:
  assumes "mem_ok m" "plan_lists_ok m p" "SchedulePlanList_DeepCopy p m = (q, m')"
  shows "mem_ok m' \<and> extends m m' \<and> plan_lists_ok m' q \<and> plan_lists_at m' q = plan_lists_at m p \<and>
    plan_lists_foot m' q \<inter> {..<next_addr m} = {}"
  using plan_lists.pointer.only_allocates [OF assms(1,2)] plan_lists.pointer.same_value [OF assms(1,2)]
    plan_lists.pointer.all_new [OF assms(1,2)] assms(3)
  by (simp add: SchedulePlanList_DeepCopy_def)

theorem plan_list_copy_well_formed_witness:
  "plan_lists_at (snd (SchedulePlanList_DeepCopy ex_list ex_memory)) (fst (SchedulePlanList_DeepCopy ex_list ex_memory))
     = plan_lists_at ex_memory ex_list \<and>
   plan_lists_ok (snd (SchedulePlanList_DeepCopy ex_list ex_memory)) (fst (SchedulePlanList_DeepCopy ex_list ex_memory))"
  using plan_list_copy_well_formed [OF ex_memory_ok surjective_pairing] by simp

text \<open>
  The copy and the original are independent: whatever is written afterwards to cells that the
  copy reaches, the original still reads as it did, and whatever is written to cells that the
  original reaches, the copy still reads as the original did when it was copied.
\<close>

theorem plan_list_copy_independent:
  assumes "mem_ok m" "plan_lists_ok m p" "SchedulePlanList_DeepCopy p m = (q, m')"
  shows "(agree (- plan_lists_foot m' q) m' m1 \<longrightarrow> plan_lists_at m1 p = plan_lists_at m p) \<and>
    (agree (- plan_lists_foot m p) m' m2 \<longrightarrow> plan_lists_at m2 q = plan_lists_at m p)"
  using plan_lists.pointer.independent [OF assms(1,2)] plan_lists.pointer.independent_copy [OF assms(1,2)] assms(3)
  by (simp add: SchedulePlanList_DeepCopy_def)

lemma agree_store: "a \<in> A \<Longrightarrow> agree (- A) m (store a c m)"
  by (auto simp: agree_def)

lemma copy_pointer_reach:
  "next_addr m \<in> slice_foot dest foot m' (fst (copy_pointer dest wrap zero copy_into (Some p) m))"
  by (simp add: copy_pointer_def slice_foot_def alloc_def split: prod.split)

lemma ex_memory_reach:
  "15 \<in> plan_lists_foot (snd (SchedulePlanList_DeepCopy ex_list ex_memory)) (fst (SchedulePlanList_DeepCopy ex_list ex_memory))"
  "1 \<in> plan_lists_foot ex_memory ex_list" "7 \<in> plan_lists_foot ex_memory ex_list"
proof -
  have "next_addr ex_memory = 15" by (simp add: ex_memory_def)
  then show "15 \<in> plan_lists_foot (snd (SchedulePlanList_DeepCopy ex_list ex_memory))
      (fst (SchedulePlanList_DeepCopy ex_list ex_memory))"
    using copy_pointer_reach [of ex_memory] by (simp add: SchedulePlanList_DeepCopy_def ex_list_def)
  show "1 \<in> plan_lists_foot ex_memory ex_list" "7 \<in> plan_lists_foot ex_memory ex_list"
    by (simp_all add: ex_memory_def ex_list_def ex_meta_def foot_simps)
qed

theorem plan_list_copy_independent_witness:
  "plan_lists_at (store 15 (PlanLists []) (snd (SchedulePlanList_DeepCopy ex_list ex_memory))) ex_list
     = plan_lists_at ex_memory ex_list \<and>
   plan_lists_at (store 1 (PlanSpecs []) (snd (SchedulePlanList_DeepCopy ex_list ex_memory)))
     (fst (SchedulePlanList_DeepCopy ex_list ex_memory)) = plan_lists_at ex_memory ex_list \<and>
   plan_lists_at (store 7 (LabelMap []) (snd (SchedulePlanList_DeepCopy ex_list ex_memory)))
     (fst (SchedulePlanList_DeepCopy ex_list ex_memory)) = plan_lists_at ex_memory ex_list"
  using plan_list_copy_independent [OF ex_memory_ok surjective_pairing]
    agree_store [OF ex_memory_reach(1)] agree_store [OF ex_memory_reach(2)] agree_store [OF ex_memory_reach(3)] by blast

text \<open>
  \<^verbatim>\<open>DeepCopyObject\<close> of a schedule trigger returns a nil interface exactly for a nil pointer, so a
  caller that compares the result with nil is right; otherwise it holds a pointer to a well-formed
  new trigger that reads like the original.
\<close>

theorem trigger_object_copy:
  assumes "mem_ok m" "pointer_wf dest_Triggers trigger_wf m p" "ScheduleTrigger_DeepCopyObject p m = (r, m')"
  shows "(r = None \<longleftrightarrow> p = None) \<and>
    (p \<noteq> None \<longrightarrow> (\<exists>q. r = Some (TriggerObject q) \<and> pointer_wf dest_Triggers trigger_wf m' q \<and>
      slice_reads dest_Triggers trigger_reads m' q = slice_reads dest_Triggers trigger_reads m p \<and>
      slice_foot dest_Triggers trigger_foot m' q \<inter> {..<next_addr m} = {}))"
proof -
  obtain q m1 where q: "ScheduleTrigger_DeepCopy p m = (q, m1)" by fastforce
  note copy = q [unfolded ScheduleTrigger_DeepCopy_def]
  have "q = None \<longleftrightarrow> p = None"
    using copy by (auto simp: copy_pointer_def split: option.splits prod.splits)
  with triggers.pointer.same_value [OF assms(1,2) copy] triggers.pointer.all_new [OF assms(1,2) copy] assms(3)
  show ?thesis by (auto simp: ScheduleTrigger_DeepCopyObject_def as_Object_def q split: option.splits)
qed

definition ex_trigger_memory :: memory where
  "ex_trigger_memory =
     \<lparr>heap = [0 \<mapsto> LabelMap [(''podset'', ''web'')],
        1 \<mapsto> Triggers [zero_trigger\<lparr>to_Spec := ''Planning'',
               to_ObjectMeta := zero_meta\<lparr>om_Name := ''t'', om_Namespace := ''ns'', om_Labels := Some 0\<rparr>\<rparr>]],
      next_addr = 2\<rparr>"

theorem trigger_object_copy_witness:
  "(\<exists>q. fst (ScheduleTrigger_DeepCopyObject (Some \<lparr>sl_addr = 1, sl_off = 0, sl_len = 1\<rparr>) ex_trigger_memory)
     = Some (TriggerObject q)) \<and> fst (ScheduleTrigger_DeepCopyObject None ex_trigger_memory) = None"
proof
  have ok: "mem_ok ex_trigger_memory"
    "pointer_wf dest_Triggers trigger_wf ex_trigger_memory (Some \<lparr>sl_addr = 1, sl_off = 0, sl_len = 1\<rparr>)"
    "pointer_wf dest_Triggers trigger_wf ex_trigger_memory None"
    by (simp_all add: mem_ok_def ex_trigger_memory_def zero_meta_def wf_simps trigger_wf_def)
  show "\<exists>q. fst (ScheduleTrigger_DeepCopyObject (Some \<lparr>sl_addr = 1, sl_off = 0, sl_len = 1\<rparr>) ex_trigger_memory)
      = Some (TriggerObject q)"
    using trigger_object_copy [OF ok(1,2) surjective_pairing] by blast
  show "fst (ScheduleTrigger_DeepCopyObject None ex_trigger_memory) = None"
    using trigger_object_copy [OF ok(1,3) surjective_pairing] by blast
qed

end
