(* ===== verification/PlannerLock.thy ===== *)
theory PlannerLock
  imports Planner
begin

text \<open>
  The planner under concurrent calls. The gRPC server runs every request in a goroutine of its own, and
  the informer calls the pod handler in another; the assignments they share are guarded by the
  planner's mutex. A request lists the pods of its set and the nodes before it takes the lock,
  plans one pod after the other while it holds it, and answers; a pod event is handled under the
  lock. Theory Planner has a plan and an event each as one function. Here their steps interleave,
  and are shown to be atomic.
\<close>

section \<open>Goroutines\<close>

text \<open>
  Where a goroutine is. A request carries the pods with the scheduled one in front, the scheduling map
  that was made for it and the nodes; in the loop also the pods that are left and the loop's
  variables, whose field for the shared map is not used.
\<close>

datatype thread_at =
    Listed "Pod list" scheduling                          \<comment> \<open>before \<^verbatim>\<open>getEligibleNodes\<close>\<close>
  | WaitingToPlan "Pod list" scheduling "Node list"       \<comment> \<open>before \<^verbatim>\<open>Lock\<close>\<close>
  | Planning "Pod list" scheduling "Node list" "Pod list" build
  | Answered "err + (string, string) gomap"
  | WaitingToHandle Pod Pod                               \<comment> \<open>before \<^verbatim>\<open>Lock\<close>\<close>
  | Handling Pod Pod
  | Handled                                               \<comment> \<open>before the deferred \<^verbatim>\<open>Unlock\<close>\<close>

record 's locked_planner =
  lp_planner :: "'s PodSetPlanner"
  lp_holder :: "nat option"
  lp_threads :: "nat \<rightharpoonup> thread_at"

definition no_plan_yet :: "assignments \<Rightarrow> scheduling \<Rightarrow> build" where
  "no_plan_yet m schedulingMap =
     \<lparr>b_podToNodeMap = m, b_schedulingMap = schedulingMap, b_assignmentMap = [], b_failedPodList = []\<rparr>"

text \<open>\<^verbatim>\<open>BuildSchedulePlan\<close> up to its call of \<^verbatim>\<open>BuildPlan\<close>, with the answer of the API server.\<close>

definition listed :: "string \<Rightarrow> string list \<Rightarrow> err + Pod list \<Rightarrow> thread_at" where
  "listed scheduledPod eligibleNodes pods =
     (case pods of
        Inl e \<Rightarrow> Answered (Inl (Wrapped ''schedule plan list pods error: '' e))
      | Inr items \<Rightarrow>
          (case index_pods scheduledPod eligibleNodes 0 items 0 Map.empty of
             (indexOfScheduledPod, schedulingMap) \<Rightarrow> Listed (swap_front indexOfScheduledPod items) schedulingMap))"

text \<open>One iteration of the loop of \<^verbatim>\<open>BuildPlan\<close> on the shared map.\<close>

definition plan_next ::
  "PredicateHandler \<Rightarrow> plan_env \<Rightarrow> Pod list \<Rightarrow> Node list \<Rightarrow> Pod \<Rightarrow> build \<Rightarrow> 's PodSetPlanner \<Rightarrow> build \<times> 's PodSetPlanner" where
  "plan_next ph env pods nodes pod b p =
     (let b' = plan_pod ph env pods nodes pod (b\<lparr>b_podToNodeMap := podToNodeMap p\<rparr>)
      in (b', p\<lparr>podToNodeMap := b_podToNodeMap b'\<rparr>))"

definition set_thread :: "nat \<Rightarrow> thread_at option \<Rightarrow> 's locked_planner \<Rightarrow> 's locked_planner" where
  "set_thread i t S = S\<lparr>lp_threads := (lp_threads S)(i := t)\<rparr>"

inductive lock_step :: "PredicateHandler \<Rightarrow> 's kube \<Rightarrow> 's locked_planner \<Rightarrow> 's locked_planner \<Rightarrow> bool" for ph kc where
  request: "lp_threads S i = None \<Longrightarrow> (\<forall>items. pods = Inr items \<longrightarrow> distinct items) \<Longrightarrow>
    lock_step ph kc S (set_thread i (Some (listed scheduledPod eligibleNodes pods)) S)"
| nodes: "lp_threads S i = Some (Listed pods sched) \<Longrightarrow> getEligibleNodes lister = Inr ns \<Longrightarrow>
    lock_step ph kc S (set_thread i (Some (WaitingToPlan pods sched ns)) S)"
| no_nodes: "lp_threads S i = Some (Listed pods sched) \<Longrightarrow> getEligibleNodes lister = Inl e \<Longrightarrow>
    lock_step ph kc S (set_thread i (Some (Answered (Inl e))) S)"
| plan_lock: "lp_threads S i = Some (WaitingToPlan pods sched ns) \<Longrightarrow> lp_holder S = None \<Longrightarrow>
    lock_step ph kc S (set_thread i (Some (Planning pods sched ns pods (no_plan_yet Map.empty sched))) (S\<lparr>lp_holder := Some i\<rparr>))"
| plan_one: "lp_threads S i = Some (Planning pods sched ns (pod # rest) b) \<Longrightarrow>
    plan_next ph env pods ns pod b (lp_planner S) = (b', p') \<Longrightarrow>
    lock_step ph kc S (set_thread i (Some (Planning pods sched ns rest b')) (S\<lparr>lp_planner := p'\<rparr>))"
| plan_unlock: "lp_threads S i = Some (Planning pods sched ns [] b) \<Longrightarrow>
    lock_step ph kc S (set_thread i (Some (Answered (Inr (b_assignmentMap b)))) (S\<lparr>lp_holder := None\<rparr>))"
| return_answer: "lp_threads S i = Some (Answered r) \<Longrightarrow> lock_step ph kc S (set_thread i None S)"
| event: "lp_threads S i = None \<Longrightarrow> lock_step ph kc S (set_thread i (Some (WaitingToHandle oldPod newPod)) S)"
| event_lock: "lp_threads S i = Some (WaitingToHandle oldPod newPod) \<Longrightarrow> lp_holder S = None \<Longrightarrow>
    lock_step ph kc S (set_thread i (Some (Handling oldPod newPod)) (S\<lparr>lp_holder := Some i\<rparr>))"
| handle: "lp_threads S i = Some (Handling oldPod newPod) \<Longrightarrow>
    lock_step ph kc S (set_thread i (Some Handled) (S\<lparr>lp_planner := handlePodUpdate kc oldPod newPod (lp_planner S)\<rparr>))"
| event_unlock: "lp_threads S i = Some Handled \<Longrightarrow> lock_step ph kc S (set_thread i None (S\<lparr>lp_holder := None\<rparr>))"
| elsewhere: "lock_step ph kc S (S\<lparr>lp_planner := (lp_planner S)\<lparr>updateQueue := q, api := s\<rparr>\<rparr>)"

inductive_cases lock_stepE: "lock_step ph kc S S'"

definition lock_start :: "'s locked_planner \<Rightarrow> bool" where
  "lock_start S \<longleftrightarrow> lp_holder S = None \<and> lp_threads S = Map.empty"

section \<open>Mutual exclusion\<close>

fun critical :: "thread_at \<Rightarrow> bool" where
  "critical (Planning _ _ _ _ _) = True"
| "critical (Handling _ _) = True"
| "critical Handled = True"
| "critical _ = False"

text \<open>What a goroutine knows of its own variables.\<close>

fun thread_ok :: "thread_at \<Rightarrow> bool" where
  "thread_ok (Listed pods _) = distinct pods"
| "thread_ok (WaitingToPlan pods _ ns) = (distinct pods \<and> (\<exists>lister. getEligibleNodes lister = Inr ns))"
| "thread_ok (Planning pods _ ns rest _) =
     (distinct pods \<and> (\<exists>before. pods = before @ rest) \<and> (\<exists>lister. getEligibleNodes lister = Inr ns))"
| "thread_ok _ = True"

definition lock_inv :: "'s locked_planner \<Rightarrow> bool" where
  "lock_inv S \<longleftrightarrow>
     (\<forall>i. lp_holder S = Some i \<longleftrightarrow> (\<exists>t. lp_threads S i = Some t \<and> critical t)) \<and>
     (\<forall>i t. lp_threads S i = Some t \<longrightarrow> thread_ok t)"

lemma swap_front_perm: "i < length xs \<or> i = 0 \<Longrightarrow> mset (swap_front i xs) = mset xs"
  using mset_swap [of i xs 0] by (cases "xs = []") (auto simp: swap_front_def)

lemma index_pods_bound:
  "index_pods sp el n pods j sched = (k, sched') \<Longrightarrow> k = j \<or> k < n + length pods"
  by (induction sp el n pods j sched rule: index_pods.induct) (auto split: if_splits)

lemma listed_ok:
  assumes "\<forall>items. pods = Inr items \<longrightarrow> distinct items"
  shows "thread_ok (listed sp el pods) \<and> \<not> critical (listed sp el pods)"
proof (cases pods)
  case (Inr items)
  obtain k sched where k: "index_pods sp el 0 items 0 Map.empty = (k, sched)" by fastforce
  have "mset (swap_front k items) = mset items" using index_pods_bound [OF k] by (intro swap_front_perm) auto
  then have "distinct (swap_front k items)" using assms Inr by (metis mset_eq_imp_distinct_iff)
  then show ?thesis by (simp add: listed_def Inr k)
qed (simp add: listed_def)

lemma set_thread_simps [simp]:
  "lp_threads (set_thread i t S) = (lp_threads S)(i := t)" "lp_holder (set_thread i t S) = lp_holder S"
  "lp_planner (set_thread i t S) = lp_planner S"
  by (simp_all add: set_thread_def)

text \<open>The three ways in which a step moves a goroutine: it keeps its distance to the lock, takes it, or gives it back.\<close>

lemma lock_inv_keep:
  assumes "lock_inv S" "\<forall>t'. t = Some t' \<longrightarrow> thread_ok t'" "lp_threads S' = (lp_threads S)(i := t)" "lp_holder S' = lp_holder S"
    and "(\<exists>t'. lp_threads S i = Some t' \<and> critical t') \<longleftrightarrow> (\<exists>t'. t = Some t' \<and> critical t')"
  shows "lock_inv S'"
  using assms unfolding lock_inv_def by (metis (no_types, lifting) fun_upd_apply)

lemma lock_inv_take:
  assumes "lock_inv S" "thread_ok t" "critical t" "lp_holder S = None"
    and "lp_threads S' = (lp_threads S)(i \<mapsto> t)" "lp_holder S' = Some i"
  shows "lock_inv S'"
  using assms unfolding lock_inv_def by auto

lemma lock_inv_give:
  assumes "lock_inv S" "lp_threads S i = Some t" "critical t" "\<forall>t'. u = Some t' \<longrightarrow> thread_ok t' \<and> \<not> critical t'"
    and "lp_threads S' = (lp_threads S)(i := u)" "lp_holder S' = None"
  shows "lock_inv S'"
proof -
  have "lp_holder S = Some i" using assms(1-3) by (auto simp: lock_inv_def)
  then have "\<not> (\<exists>t. lp_threads S j = Some t \<and> critical t)" if "j \<noteq> i" for j
    using assms(1) that by (auto simp: lock_inv_def)
  with assms show ?thesis by (auto simp: lock_inv_def)
qed

lemma thread_okD: "lock_inv S \<Longrightarrow> lp_threads S i = Some t \<Longrightarrow> thread_ok t"
  unfolding lock_inv_def by blast

lemma lock_step_inv: "lock_step ph kc S S' \<Longrightarrow> lock_inv S \<Longrightarrow> lock_inv S'"
proof (induction rule: lock_step.induct)
  case (request S i pods scheduledPod eligibleNodes)
  with listed_ok [OF request(2)] show ?case
    by - (rule lock_inv_keep [of S "Some (listed scheduledPod eligibleNodes pods)" _ i]; simp_all)
next
  case (plan_one S i pods sched ns pod rest b env b' p')
  then have "thread_ok (Planning pods sched ns (pod # rest) b)" using thread_okD by blast
  then show ?case using plan_one by - (rule lock_inv_keep [of S "Some (Planning pods sched ns rest b')" _ i]; auto)
next
  case (plan_lock S i pods sched ns)
  then have "thread_ok (WaitingToPlan pods sched ns)" using thread_okD by blast
  with plan_lock show ?case by - (rule lock_inv_take [of S]; auto)
next
  case (nodes S i pods sched lister ns)
  then have "thread_ok (Listed pods sched)" using thread_okD by blast
  with nodes show ?case by - (rule lock_inv_keep [of S "Some (WaitingToPlan pods sched ns)" _ i]; auto)
next
  case (event_lock S i oldPod newPod)
  then show ?case by - (rule lock_inv_take [of S]; auto)
next
  case (plan_unlock S i pods sched ns b)
  then show ?case by - (rule lock_inv_give [of S i "Planning pods sched ns [] b"]; auto)
next
  case (event_unlock S i)
  then show ?case by - (rule lock_inv_give [of S i Handled]; auto)
next
  case (elsewhere S s q)
  then show ?case by (simp add: lock_inv_def)
next
  case (no_nodes S i pods sched lister e)
  then show ?case by - (rule lock_inv_keep [of S "Some (Answered (Inl e))" _ i]; simp_all)
next
  case (return_answer S i r)
  then show ?case by - (rule lock_inv_keep [of S None _ i]; simp_all)
next
  case (event S i oldPod newPod)
  then show ?case by - (rule lock_inv_keep [of S "Some (WaitingToHandle oldPod newPod)" _ i]; simp_all)
next
  case (handle S i oldPod newPod)
  then show ?case by - (rule lock_inv_keep [of S "Some Handled" _ i]; simp_all)
qed

interpretation planner_lock: invariant_system lock_start "lock_step ph kc" lock_inv
  for ph and kc :: "'s kube"
proof
  show "lock_start S \<Longrightarrow> lock_inv S" for S :: "'s locked_planner" by (simp add: lock_start_def lock_inv_def)
qed (rule lock_step_inv)

section \<open>Plans and events are atomic\<close>

text \<open>The planner as theory Planner has it: a plan is one step, and an event is one step.\<close>

inductive atomic_step :: "PredicateHandler \<Rightarrow> 's kube \<Rightarrow> 's PodSetPlanner \<Rightarrow> 's PodSetPlanner \<Rightarrow> bool" for ph kc where
  atomic_plan: "BuildPlan ph lister envs pods pods sched (podToNodeMap p) = (Inr as, m) \<Longrightarrow>
    atomic_step ph kc p (p\<lparr>podToNodeMap := m\<rparr>)"
| atomic_event: "atomic_step ph kc p (handlePodUpdate kc oldPod newPod p)"
| atomic_elsewhere: "atomic_step ph kc p (p\<lparr>updateQueue := q, api := s\<rparr>)"

definition inside :: "'s locked_planner \<Rightarrow> thread_at option" where
  "inside S = Option.bind (lp_holder S) (lp_threads S)"

text \<open>
  While a request plans, the atomic planner still has the assignments from before it took the
  lock: planning the pods it has done so far on those gives the shared assignments and the
  variables of the loop.
\<close>

fun progressed :: "PredicateHandler \<Rightarrow> assignments \<Rightarrow> assignments \<Rightarrow> thread_at option \<Rightarrow> bool" where
  "progressed ph m shared (Some (Planning pods sched ns rest b)) =
     (\<exists>before envs. pods = before @ rest \<and>
        plan_pods ph envs pods ns before (no_plan_yet m sched) = b\<lparr>b_podToNodeMap := shared\<rparr>)"
| "progressed ph m shared _ = (m = shared)"

definition abstracts :: "PredicateHandler \<Rightarrow> 's locked_planner \<Rightarrow> 's PodSetPlanner \<Rightarrow> bool" where
  "abstracts ph S p \<longleftrightarrow>
     updateQueue p = updateQueue (lp_planner S) \<and> api p = api (lp_planner S) \<and>
     progressed ph (podToNodeMap p) (podToNodeMap (lp_planner S)) (inside S)"

lemma plan_pods_cong:
  "(\<And>pod. pod \<in> set xs \<Longrightarrow> envs pod = envs' pod) \<Longrightarrow> plan_pods ph envs pods ns xs b = plan_pods ph envs' pods ns xs b"
  by (induction xs arbitrary: b) simp_all

lemma inside_holder: "lock_inv S \<Longrightarrow> lp_threads S i = Some t \<Longrightarrow> critical t \<Longrightarrow> lp_holder S = Some i \<and> inside S = Some t"
  unfolding lock_inv_def inside_def by (metis bind.bind_lunit)

lemma inside_other:
  assumes "lock_inv S" "\<not> (\<exists>t. lp_threads S i = Some t \<and> critical t)"
  shows "inside (set_thread i u S) = inside S"
  using assms by (cases "lp_holder S") (auto simp: inside_def lock_inv_def)

lemma abstracts_other:
  "lock_inv S \<Longrightarrow> \<not> (\<exists>t. lp_threads S i = Some t \<and> critical t) \<Longrightarrow> abstracts ph (set_thread i u S) p = abstracts ph S p"
  by (simp add: abstracts_def inside_other)

lemma progressed_idle: "\<not> (\<exists>pods sched ns rest b. t = Some (Planning pods sched ns rest b)) \<Longrightarrow> progressed ph m shared t = (m = shared)"
  by (cases "(ph, m, shared, t)" rule: progressed.cases) auto

lemma abstracts_idle:
  "\<not> (\<exists>pods sched ns rest b. inside S = Some (Planning pods sched ns rest b)) \<Longrightarrow> abstracts ph S p \<longleftrightarrow> p = lp_planner S"
  by (auto simp: abstracts_def progressed_idle intro: PodSetPlanner.equality)

lemma plan_one_abstracts:
  assumes "lock_inv S" "abstracts ph S p" "lp_threads S i = Some (Planning pods sched ns (pod # rest) b)"
    and "plan_next ph env pods ns pod b (lp_planner S) = (b', p')"
  shows "abstracts ph (set_thread i (Some (Planning pods sched ns rest b')) (S\<lparr>lp_planner := p'\<rparr>)) p"
proof -
  have h: "lp_holder S = Some i" "inside S = Some (Planning pods sched ns (pod # rest) b)"
    using inside_holder [OF assms(1,3)] by simp_all
  obtain before envs where before: "pods = before @ pod # rest"
    and run: "plan_pods ph envs pods ns before (no_plan_yet (podToNodeMap p) sched) = b\<lparr>b_podToNodeMap := podToNodeMap (lp_planner S)\<rparr>"
    using assms(2) h(2) by (auto simp: abstracts_def)
  have "pod \<notin> set before" using thread_okD [OF assms(1,3)] before by auto
  then have "plan_pods ph (envs(pod := env)) pods ns before c = plan_pods ph envs pods ns before c" for c
    by (intro plan_pods_cong) auto
  with run have "plan_pods ph (envs(pod := env)) pods ns (before @ [pod]) (no_plan_yet (podToNodeMap p) sched) = b'"
    using assms(4) by (simp add: plan_pods_append plan_next_def Let_def)
  moreover have "b'\<lparr>b_podToNodeMap := podToNodeMap p'\<rparr> = b'" "updateQueue p' = updateQueue (lp_planner S)" "api p' = api (lp_planner S)"
    using assms(4) by (auto simp: plan_next_def Let_def)
  moreover have "inside (set_thread i (Some (Planning pods sched ns rest b')) (S\<lparr>lp_planner := p'\<rparr>)) = Some (Planning pods sched ns rest b')"
    by (simp add: inside_def set_thread_def h(1))
  ultimately show ?thesis
    using assms(2) before by (auto simp: abstracts_def intro!: exI [of _ "before @ [pod]"] exI [of _ "envs(pod := env)"])
qed

lemma plan_unlock_abstracts:
  assumes "lock_inv S" "abstracts ph S p" "lp_threads S i = Some (Planning pods sched ns [] b)"
  shows "\<exists>lister envs. getEligibleNodes lister = Inr ns \<and>
      BuildPlan ph lister envs pods pods sched (podToNodeMap p) = (Inr (b_assignmentMap b), podToNodeMap (lp_planner S))"
    and "lp_planner S = p\<lparr>podToNodeMap := podToNodeMap (lp_planner S)\<rparr>"
proof -
  have h: "inside S = Some (Planning pods sched ns [] b)" using inside_holder [OF assms(1,3)] by simp
  obtain envs where run: "plan_pods ph envs pods ns pods (no_plan_yet (podToNodeMap p) sched) =
      b\<lparr>b_podToNodeMap := podToNodeMap (lp_planner S)\<rparr>"
    using assms(2) h by (auto simp: abstracts_def)
  obtain lister where "getEligibleNodes lister = Inr ns" using thread_okD [OF assms(1,3)] by auto
  then show "\<exists>lister envs. getEligibleNodes lister = Inr ns \<and>
      BuildPlan ph lister envs pods pods sched (podToNodeMap p) = (Inr (b_assignmentMap b), podToNodeMap (lp_planner S))"
    using run by (intro exI [of _ lister] exI [of _ envs]) (simp add: BuildPlan_def no_plan_yet_def Let_def)
  show "lp_planner S = p\<lparr>podToNodeMap := podToNodeMap (lp_planner S)\<rparr>"
    using assms(2) by (intro PodSetPlanner.equality) (simp_all add: abstracts_def)
qed

text \<open>An answer that a step gives is new; it comes from a request that has planned its pods.\<close>

definition answers_with :: "nat \<Rightarrow> (string, string) gomap \<Rightarrow> 's locked_planner \<Rightarrow> 's locked_planner \<Rightarrow> bool" where
  "answers_with i as S S' \<longleftrightarrow> lp_threads S i \<noteq> lp_threads S' i \<and> lp_threads S' i = Some (Answered (Inr as))"

definition matched ::
  "PredicateHandler \<Rightarrow> 's kube \<Rightarrow> 's locked_planner \<Rightarrow> 's PodSetPlanner \<Rightarrow> 's locked_planner \<Rightarrow> 's PodSetPlanner \<Rightarrow> bool" where
  "matched ph kc S p S' p' \<longleftrightarrow>
     (p' = p \<or> atomic_step ph kc p p') \<and> abstracts ph S' p' \<and>
     (\<forall>i as. answers_with i as S S' \<longrightarrow>
       (\<exists>pods sched ns b lister envs. lp_threads S i = Some (Planning pods sched ns [] b) \<and> getEligibleNodes lister = Inr ns \<and>
          BuildPlan ph lister envs pods pods sched (podToNodeMap p) = (Inr as, podToNodeMap p')))"

lemma no_answer:
  "lp_threads S' = (lp_threads S)(i := u) \<Longrightarrow> \<forall>as. u \<noteq> Some (Answered (Inr as)) \<Longrightarrow> \<not> answers_with j as S S'"
  by (auto simp: answers_with_def)

text \<open>A goroutine moves outside the lock, or in it without a change to the assignments.\<close>

lemma outside_matched:
  assumes "lock_inv S" "abstracts ph S p" "\<forall>t. lp_threads S i = Some t \<longrightarrow> \<not> critical t" "\<forall>as. u \<noteq> Some (Answered (Inr as))"
  shows "matched ph kc S p (set_thread i u S) p"
proof -
  have "\<not> answers_with j as S (set_thread i u S)" for j as by (rule no_answer [of _ _ i u]) (simp_all add: assms(4))
  moreover have "abstracts ph (set_thread i u S) p" using abstracts_other [OF assms(1), of i] assms(2,3) by blast
  ultimately show ?thesis unfolding matched_def by blast
qed

lemma inside_matched:
  assumes "abstracts ph S' p'" "p' = p \<or> atomic_step ph kc p p'" "lp_threads S' = (lp_threads S)(i := u)"
    and "\<forall>as. u \<noteq> Some (Answered (Inr as))"
  shows "matched ph kc S p S' p'"
  using no_answer [OF assms(3,4)] assms(1,2) unfolding matched_def by blast

lemma plan_unlock_matched:
  assumes "lock_inv S" "abstracts ph S p" "lp_threads S i = Some (Planning pods sched ns [] b)"
  shows "matched ph kc S p (set_thread i (Some (Answered (Inr (b_assignmentMap b)))) (S\<lparr>lp_holder := None\<rparr>)) (lp_planner S)"
    (is "matched ph kc S p ?S' _")
proof -
  let ?m = "podToNodeMap (lp_planner S)"
  obtain lister envs where plan: "getEligibleNodes lister = Inr ns"
      "BuildPlan ph lister envs pods pods sched (podToNodeMap p) = (Inr (b_assignmentMap b), ?m)"
    using plan_unlock_abstracts(1) [OF assms] by blast
  have p: "lp_planner S = p\<lparr>podToNodeMap := ?m\<rparr>" by (rule plan_unlock_abstracts(2) [OF assms])
  have "j = i \<and> as = b_assignmentMap b" if "answers_with j as S ?S'" for j as
    using that by (auto simp: answers_with_def split: if_splits)
  moreover have "atomic_step ph kc p (lp_planner S)" by (subst p) (rule atomic_plan [OF plan(2)])
  moreover have "abstracts ph ?S' (lp_planner S)" by (simp add: abstracts_def inside_def set_thread_def)
  ultimately show ?thesis using plan assms(3) unfolding matched_def by blast
qed

lemma step_matched:
  assumes inv: "lock_inv S" and abs: "abstracts ph S p" and step: "lock_step ph kc S S'"
  shows "\<exists>p'. matched ph kc S p S' p'"
  using step
proof (cases rule: lock_step.cases)
  case (request i pods scheduledPod eligibleNodes)
  have "listed scheduledPod eligibleNodes pods \<noteq> Answered (Inr as)" for as
    by (simp add: listed_def split: sum.split prod.split)
  then show ?thesis unfolding request(1) by (intro exI [of _ p] outside_matched [OF inv abs]) (simp_all add: request(2))
next
  case (nodes i pods sched lister ns)
  show ?thesis unfolding nodes(1) by (intro exI [of _ p] outside_matched [OF inv abs]) (simp_all add: nodes(2))
next
  case (no_nodes i pods sched lister e)
  show ?thesis unfolding no_nodes(1) by (intro exI [of _ p] outside_matched [OF inv abs]) (simp_all add: no_nodes(2))
next
  case (plan_lock i pods sched ns)
  have "p = lp_planner S" using abs plan_lock(3) by (simp add: abstracts_idle inside_def)
  then have "abstracts ph S' p" unfolding plan_lock(1)
    by (simp add: abstracts_def inside_def set_thread_def no_plan_yet_def)
  then have "matched ph kc S p S' p" 
    by (rule inside_matched [of _ _ _ _ _ _ i "Some (Planning pods sched ns pods (no_plan_yet Map.empty sched))"]) (simp_all add: plan_lock(1))
  then show ?thesis by (rule exI)
next
  case (plan_one i pods sched ns pod rest b env b' p')
  have "abstracts ph S' p" unfolding plan_one(1) by (rule plan_one_abstracts [OF inv abs plan_one(2,3)])
  then have "matched ph kc S p S' p" 
    by (rule inside_matched [of _ _ _ _ _ _ i "Some (Planning pods sched ns rest b')"]) (simp_all add: plan_one(1))
  then show ?thesis by (rule exI)
next
  case (plan_unlock i pods sched ns b)
  show ?thesis unfolding plan_unlock(1) by (rule exI) (rule plan_unlock_matched [OF inv abs plan_unlock(2)])
next
  case (return_answer i r)
  show ?thesis unfolding return_answer(1) by (intro exI [of _ p] outside_matched [OF inv abs]) (simp_all add: return_answer(2))
next
  case (event i oldPod newPod)
  show ?thesis unfolding event(1) by (intro exI [of _ p] outside_matched [OF inv abs]) (simp_all add: event(2))
next
  case (event_lock i oldPod newPod)
  have "p = lp_planner S" using abs event_lock(3) by (simp add: abstracts_idle inside_def)
  then have "abstracts ph S' p" unfolding event_lock(1) by (simp add: abstracts_def inside_def set_thread_def)
  then have "matched ph kc S p S' p" 
    by (rule inside_matched [of _ _ _ _ _ _ i "Some (Handling oldPod newPod)"]) (simp_all add: event_lock(1))
  then show ?thesis by (rule exI)
next
  case (handle i oldPod newPod)
  have h: "lp_holder S = Some i" "inside S = Some (Handling oldPod newPod)" using inside_holder [OF inv handle(2)] by simp_all
  then have "p = lp_planner S" using abs by (simp add: abstracts_idle)
  then have "abstracts ph S' (handlePodUpdate kc oldPod newPod p)"
    unfolding handle(1) by (simp add: abstracts_idle inside_def set_thread_def h(1))
  then have "matched ph kc S p S' (handlePodUpdate kc oldPod newPod p)"
    by (rule inside_matched [of _ _ _ _ _ _ i "Some Handled"]) (simp_all add: handle(1) atomic_event)
  then show ?thesis by (rule exI)
next
  case (event_unlock i)
  have "inside S = Some Handled" using inside_holder [OF inv event_unlock(2)] by simp
  then have "p = lp_planner S" using abs by (simp add: abstracts_idle)
  then have "abstracts ph S' p" unfolding event_unlock(1) by (simp add: abstracts_idle inside_def set_thread_def)
  then have "matched ph kc S p S' p" 
    by (rule inside_matched [of _ _ _ _ _ _ i None]) (simp_all add: event_unlock(1))
  then show ?thesis by (rule exI)
next
  case (elsewhere s q)
  have "abstracts ph S' (p\<lparr>updateQueue := q, api := s\<rparr>)"
    using abs unfolding elsewhere(1) by (simp add: abstracts_def inside_def)
  moreover have "\<not> answers_with j as S S'" for j as using elsewhere by (simp add: answers_with_def)
  ultimately have "matched ph kc S p S' (p\<lparr>updateQueue := q, api := s\<rparr>)"
    unfolding matched_def by (simp add: atomic_elsewhere)
  then show ?thesis by (rule exI)
qed

text \<open>
  C13: requests and events run as if they came one after the other. Every step of the running
  goroutines is matched by a step of the planner in which a whole plan and a whole event are one
  step each, or by none; and the answer a request gives is the one that building its plan in one
  go gives, on the assignments that the planner had when the request took the lock. So what is
  shown of plans and events as functions holds of the planner under concurrent calls.
\<close>

theorem planning_is_atomic:
  assumes "reachable lock_start (lock_step ph kc) S" "abstracts ph S p" "lock_step ph kc S S'"
  shows "\<exists>p'. (p' = p \<or> atomic_step ph kc p p') \<and> abstracts ph S' p' \<and>
    (\<forall>i as. answers_with i as S S' \<longrightarrow>
       (\<exists>pods sched ns b lister envs. lp_threads S i = Some (Planning pods sched ns [] b) \<and> getEligibleNodes lister = Inr ns \<and>
          BuildPlan ph lister envs pods pods sched (podToNodeMap p) = (Inr as, podToNodeMap p')))"
  using step_matched [OF planner_lock.reachable_inv [OF assms(1)] assms(2,3)] unfolding matched_def .

section \<open>Requests are answered\<close>

fun requesting :: "thread_at \<Rightarrow> bool" where
  "requesting (Listed _ _) = True"
| "requesting (WaitingToPlan _ _ _) = True"
| "requesting (Planning _ _ _ _ _) = True"
| "requesting (Answered _) = True"
| "requesting _ = False"

text \<open>How many steps a goroutine has before it.\<close>

fun steps_ahead :: "thread_at \<Rightarrow> nat" where
  "steps_ahead (Listed pods _) = length pods + 3"
| "steps_ahead (WaitingToPlan pods _ _) = length pods + 2"
| "steps_ahead (Planning _ _ _ rest _) = length rest + 1"
| "steps_ahead (Answered _) = 0"
| "steps_ahead (WaitingToHandle _ _) = 3"
| "steps_ahead (Handling _ _) = 2"
| "steps_ahead Handled = 1"

definition thread_steps :: "'s locked_planner \<Rightarrow> nat \<Rightarrow> nat" where
  "thread_steps S i = (case lp_threads S i of Some t \<Rightarrow> steps_ahead t | None \<Rightarrow> 0)"

text \<open>Before a request is answered: its own steps, and those of the goroutine that has the lock.\<close>

definition answer_distance :: "nat \<Rightarrow> 's locked_planner \<Rightarrow> nat" where
  "answer_distance i S =
     thread_steps S i + (case lp_holder S of Some j \<Rightarrow> if j = i then 0 else thread_steps S j | None \<Rightarrow> 0)"

definition step_keeping :: "nat \<Rightarrow> PredicateHandler \<Rightarrow> 's kube \<Rightarrow> 's locked_planner \<Rightarrow> 's locked_planner \<Rightarrow> bool" where
  "step_keeping i ph kc S S' \<longleftrightarrow> lock_step ph kc S S' \<and> lp_threads S' i \<noteq> None"

definition requests :: "nat \<Rightarrow> 's locked_planner \<Rightarrow> bool" where
  "requests i S \<longleftrightarrow> lock_inv S \<and> (\<exists>t. lp_threads S i = Some t \<and> requesting t)"

lemma requests_step: "requests i S \<Longrightarrow> step_keeping i ph kc S S' \<Longrightarrow> requests i S'"
  unfolding requests_def step_keeping_def
proof (elim conjE exE, intro conjI)
  fix t
  assume inv: "lock_inv S" and step: "lock_step ph kc S S'" and t: "lp_threads S i = Some t" "requesting t"
    and some: "lp_threads S' i \<noteq> None"
  show "lock_inv S'" by (rule lock_step_inv [OF step inv])
  from step show "\<exists>t. lp_threads S' i = Some t \<and> requesting t"
    using t some by cases (auto split: if_splits)
qed

text \<open>The goroutine that has the lock can always go on.\<close>

lemma holder_moves:
  assumes "lock_inv S" "lp_threads S j = Some t" "critical t"
  shows "\<exists>S'. lock_step ph kc S S' \<and> thread_steps S' j < thread_steps S j \<and> lp_holder S' \<in> {None, Some j} \<and>
    (\<forall>i. i \<noteq> j \<longrightarrow> lp_threads S' i = lp_threads S i) \<and> (requesting t \<longrightarrow> lp_threads S' j \<noteq> None)"
proof -
  have h: "lp_holder S = Some j" using inside_holder [OF assms] by simp
  show ?thesis
  proof (cases t)
    case (Planning pods sched ns rest b)
    show ?thesis
    proof (cases rest)
      case Nil
      with plan_unlock [of S j pods sched ns b ph kc] assms(2) Planning show ?thesis
        by (intro exI [of _ "set_thread j (Some (Answered (Inr (b_assignmentMap b)))) (S\<lparr>lp_holder := None\<rparr>)"])
          (simp add: thread_steps_def)
    next
      case (Cons pod rest')
      obtain env b' p' where "plan_next ph env pods ns pod b (lp_planner S) = (b', p')" by fastforce
      from plan_one [OF _ this, of j sched rest' kc] assms(2) Planning Cons h show ?thesis
        by (intro exI [of _ "set_thread j (Some (Planning pods sched ns rest' b')) (S\<lparr>lp_planner := p'\<rparr>)"])
          (auto simp: thread_steps_def)
    qed
  next
    case (Handling oldPod newPod)
    with handle [of S j oldPod newPod ph kc] assms(2) h show ?thesis
      by (intro exI [of _ "set_thread j (Some Handled) (S\<lparr>lp_planner := handlePodUpdate kc oldPod newPod (lp_planner S)\<rparr>)"])
        (simp add: thread_steps_def)
  next
    case Handled
    with event_unlock [of S j ph kc] assms(2) show ?thesis
      by (intro exI [of _ "set_thread j None (S\<lparr>lp_holder := None\<rparr>)"]) (simp add: thread_steps_def)
  qed (use assms(3) in auto)
qed

lemma request_moves:
  assumes "requests i S" "\<nexists>r. lp_threads S i = Some (Answered r)"
  shows "\<exists>S'. step_keeping i ph kc S S' \<and> answer_distance i S' < answer_distance i S"
proof -
  have inv: "lock_inv S" using assms(1) by (simp add: requests_def)
  obtain t where t: "lp_threads S i = Some t" "requesting t" using assms(1) by (auto simp: requests_def)
  show ?thesis
  proof (cases t)
    case (Listed pods sched)
    have "getEligibleNodes (Inr []) = Inr []" by (simp add: getEligibleNodes_def)
    from nodes [OF _ this, of S i pods sched ph kc] t Listed show ?thesis
      by (intro exI [of _ "set_thread i (Some (WaitingToPlan pods sched [])) S"])
        (auto simp: step_keeping_def answer_distance_def thread_steps_def split: option.split)
  next
    case (WaitingToPlan pods sched ns)
    show ?thesis
    proof (cases "lp_holder S")
      case None
      with plan_lock [of S i pods sched ns ph kc] t WaitingToPlan show ?thesis
        by (intro exI [of _ "set_thread i (Some (Planning pods sched ns pods (no_plan_yet Map.empty sched))) (S\<lparr>lp_holder := Some i\<rparr>)"])
          (simp add: step_keeping_def answer_distance_def thread_steps_def)
    next
      case (Some j)
      then obtain u where u: "lp_threads S j = Some u" "critical u" using inv unfolding lock_inv_def by blast
      with t WaitingToPlan have "j \<noteq> i" by auto
      obtain S' where S': "lock_step ph kc S S'" "thread_steps S' j < thread_steps S j" "lp_holder S' \<in> {None, Some j}"
          "lp_threads S' i = lp_threads S i"
        using holder_moves [OF inv u, of ph kc] \<open>j \<noteq> i\<close> by auto
      have "thread_steps S' i = thread_steps S i" by (simp add: thread_steps_def S'(4))
      with S' Some t(1) \<open>j \<noteq> i\<close> show ?thesis
        by (intro exI [of _ S']) (auto simp: step_keeping_def answer_distance_def)
    qed
  next
    case (Planning pods sched ns rest b)
    then have c: "critical t" by simp
    have "lp_holder S = Some i" using inside_holder [OF inv t(1) c] by simp
    moreover obtain S' where "lock_step ph kc S S'" "thread_steps S' i < thread_steps S i" "lp_holder S' \<in> {None, Some i}"
        "lp_threads S' i \<noteq> None"
      using holder_moves [OF inv t(1) c, of ph kc] t(2) by auto
    ultimately show ?thesis by (intro exI [of _ S']) (auto simp: step_keeping_def answer_distance_def)
  qed (use t assms(2) in auto)
qed

interpretation request_progress: progress_system
  "\<lambda>S. reachable lock_start (lock_step ph kc) S \<and> (\<exists>t. lp_threads S i = Some t \<and> requesting t)"
  "step_keeping i ph kc" "requests i" "\<lambda>S. \<exists>r. lp_threads S i = Some (Answered r)" "answer_distance i"
  for ph and kc :: "'s kube" and i
proof
  show "requests i S" if "reachable lock_start (lock_step ph kc) S \<and> (\<exists>t. lp_threads S i = Some t \<and> requesting t)"
    for S :: "'s locked_planner"
    using that planner_lock.reachable_inv by (auto simp: requests_def)
qed (rule requests_step request_moves; assumption)+

text \<open>
  No request is starved for good, and the lock cannot deadlock. Whatever goroutines are waiting for or
  holding the lock, from every reachable state there is a run in which a given request is answered;
  the goroutine that has the lock can always take a step, and comes to give it back.
\<close>

theorem request_is_answered:
  assumes "reachable lock_start (lock_step ph kc) S" "lp_threads S i = Some t" "requesting t"
  shows "\<exists>S' r. (lock_step ph kc)\<^sup>*\<^sup>* S S' \<and> lp_threads S' i = Some (Answered r)"
proof -
  have "requests i S" using assms planner_lock.reachable_inv by (auto simp: requests_def)
  then obtain S' r where "(step_keeping i ph kc)\<^sup>*\<^sup>* S S'" "lp_threads S' i = Some (Answered r)"
    using request_progress.inv_reaches_goal by blast
  moreover have "step_keeping i ph kc \<le> lock_step ph kc" by (auto simp: step_keeping_def)
  ultimately show ?thesis using rtranclp_mono by blast
qed

section \<open>A plan from a stale list\<close>

lemma plan_pod_dom: "dom (b_podToNodeMap b) \<subseteq> dom (b_podToNodeMap (plan_pod ph env pods ns pod b))"
  by (auto simp: plan_pod_def dest: findFit_map findFit_Inl split: sum.split prod.split)

text \<open>A request that has the lock plans the rest of its pods, and forgets nothing on the way.\<close>

lemma planning_finishes:
  assumes "lp_threads S i = Some (Planning pods sched ns rest b)"
  shows "\<exists>S' as. (lock_step ph kc)\<^sup>*\<^sup>* S S' \<and> lp_threads S' = (lp_threads S)(i \<mapsto> Answered (Inr as)) \<and>
    dom (podToNodeMap (lp_planner S)) \<subseteq> dom (podToNodeMap (lp_planner S'))"
  using assms
proof (induction rest arbitrary: S b)
  case Nil
  have "lock_step ph kc S (set_thread i (Some (Answered (Inr (b_assignmentMap b)))) (S\<lparr>lp_holder := None\<rparr>))"
    by (rule plan_unlock [OF Nil])
  then show ?case by (intro exI [of _ "set_thread i _ (S\<lparr>lp_holder := None\<rparr>)"] exI [of _ "b_assignmentMap b"] conjI, rule r_into_rtranclp) simp_all
next
  case (Cons pod rest)
  obtain env b' p' where next_pod: "plan_next ph env pods ns pod b (lp_planner S) = (b', p')" by fastforce
  let ?S = "set_thread i (Some (Planning pods sched ns rest b')) (S\<lparr>lp_planner := p'\<rparr>)"
  have step: "lock_step ph kc S ?S" by (rule plan_one [OF Cons.prems next_pod])
  have p': "podToNodeMap p' = b_podToNodeMap (plan_pod ph env pods ns pod (b\<lparr>b_podToNodeMap := podToNodeMap (lp_planner S)\<rparr>))"
    using next_pod by (auto simp: plan_next_def Let_def)
  have "dom (podToNodeMap (lp_planner S)) \<subseteq> dom (podToNodeMap p')"
    unfolding p' using plan_pod_dom [of "b\<lparr>b_podToNodeMap := podToNodeMap (lp_planner S)\<rparr>" ph env pods ns pod] by simp
  moreover obtain S' as where S': "(lock_step ph kc)\<^sup>*\<^sup>* ?S S'" "lp_threads S' = (lp_threads ?S)(i \<mapsto> Answered (Inr as))"
      "dom (podToNodeMap (lp_planner ?S)) \<subseteq> dom (podToNodeMap (lp_planner S'))"
    using Cons.IH [of ?S b'] by (metis fun_upd_same set_thread_simps(1))
  ultimately show ?case
    using converse_rtranclp_into_rtranclp [of "lock_step ph kc", OF step S'(1)]
    by (intro exI [of _ S'] exI [of _ as]) auto
qed

text \<open>Handling an event that waits for the free lock.\<close>

lemma event_runs:
  assumes "lp_threads S j = Some (WaitingToHandle oldPod newPod)" "lp_holder S = None"
  shows "(lock_step ph kc)\<^sup>*\<^sup>* S
    (S\<lparr>lp_planner := handlePodUpdate kc oldPod newPod (lp_planner S), lp_threads := (lp_threads S)(j := None)\<rparr>)"
proof -
  let ?S1 = "set_thread j (Some (Handling oldPod newPod)) (S\<lparr>lp_holder := Some j\<rparr>)"
  let ?S2 = "set_thread j (Some Handled) (?S1\<lparr>lp_planner := handlePodUpdate kc oldPod newPod (lp_planner ?S1)\<rparr>)"
  let ?S3 = "set_thread j None (?S2\<lparr>lp_holder := None\<rparr>)"
  have "lock_step ph kc S ?S1" by (rule event_lock [OF assms])
  moreover have "lock_step ph kc ?S1 ?S2" by (rule handle) simp
  moreover have "lock_step ph kc ?S2 ?S3" by (rule event_unlock) simp
  ultimately have "(lock_step ph kc)\<^sup>*\<^sup>* S ?S3" by (meson converse_rtranclp_into_rtranclp r_into_rtranclp)
  moreover have "?S3 = S\<lparr>lp_planner := handlePodUpdate kc oldPod newPod (lp_planner S), lp_threads := (lp_threads S)(j := None)\<rparr>"
    using assms(2) by (cases S) (simp add: set_thread_def)
  ultimately show ?thesis by simp
qed

text \<open>The scheduled pod is planned on one of its eligible nodes, whatever is remembered of it.\<close>

lemma scheduled_pod_remembered:
  assumes "active pod" "pod_HostIP pod = ''''" "b_schedulingMap b (pod_key pod) = Some el"
    and "el \<noteq> []" "set el \<subseteq> node_Name ` set ns" "runs_complete ph env" "0 < parallelism ph"
  shows "pod_key pod \<in> dom (b_podToNodeMap (plan_pod ph env pods ns pod b))"
proof (cases "b_podToNodeMap b (pod_key pod)")
  case None
  obtain n m where fit: "findFit ph env pods (b_podToNodeMap b) pod ns el = (Inr n, m)"
    using findFit_succeeds [OF assms(4-7)] by blast
  then have "plan_pod ph env pods ns pod b = b\<lparr>b_podToNodeMap := m, b_schedulingMap := b_schedulingMap b,
      b_assignmentMap := AList.update (pod_Name pod) (node_Name n) (b_assignmentMap b)\<rparr>"
    using assms(1-3) None
    by (simp add: plan_pod_def active_def GetNodeName_def getPodNode_def getEligibleNodes_cached_def)
  with findFit_map [OF fit] show ?thesis by simp
qed (use plan_pod_dom in blast)

text \<open>
  C35: a request that has listed the pods before one of them is deleted undoes what the planner does on the
  deletion. When the event of the deletion gets the lock first, its handler drops the assignment, and
  the request then assigns the pod again from its stale list: the event is over, the request is
  answered, and the planner remembers an assignment for a pod that is going away. Later updates of the pod
  do not drop it, since they find the deletion timestamp already set, unless the pod still begins to run.
\<close>

theorem stale_request_remembers_deleted_pod:
  assumes "reachable lock_start (lock_step ph kc) S" "lp_holder S = None"
    and "lp_threads S i = Some (WaitingToPlan (pod # rest) sched ns)"
    and "lp_threads S j = Some (WaitingToHandle pod gone)"
    and "pod_DeletionTimestamp gone \<noteq> None" "pod_key gone = pod_key pod" "active pod" "pod_HostIP pod = ''''"
    and "sched (pod_key pod) = Some el" "el \<noteq> []" "set el \<subseteq> node_Name ` set ns"
    and "runs_complete ph env" "0 < parallelism ph"
  shows "podToNodeMap (handlePodUpdate kc pod gone (lp_planner S)) (pod_key gone) = None \<and>
    (\<exists>S' as. (lock_step ph kc)\<^sup>*\<^sup>* S S' \<and> lp_threads S' j = None \<and> lp_threads S' i = Some (Answered (Inr as)) \<and>
      podToNodeMap (lp_planner S') (pod_key gone) \<noteq> None \<and>
      (\<forall>later p. pod_Phase gone = PodRunning \<or> pod_Phase later \<noteq> PodRunning \<longrightarrow>
         podToNodeMap (handlePodUpdate kc gone later p) = podToNodeMap p))"
proof (intro conjI)
  have del: "pod_DeletionTimestamp pod = None" using assms(7) by (simp add: active_def)
  show "podToNodeMap (handlePodUpdate kc pod gone (lp_planner S)) (pod_key gone) = None"
    using assms(5) del by (auto simp: handlePodUpdate_def handlePodDeleteWithLock_def removePodFromPlanner_def Let_def
        split: prod.split option.split)
  let ?S1 = "S\<lparr>lp_planner := handlePodUpdate kc pod gone (lp_planner S), lp_threads := (lp_threads S)(j := None)\<rparr>"
  let ?b = "no_plan_yet Map.empty sched"
  let ?S2 = "set_thread i (Some (Planning (pod # rest) sched ns (pod # rest) ?b)) (?S1\<lparr>lp_holder := Some i\<rparr>)"
  have ij: "i \<noteq> j" using assms(3,4) by auto
  have first: "(lock_step ph kc)\<^sup>*\<^sup>* S ?S1" by (rule event_runs [OF assms(4,2)])
  have lock: "lock_step ph kc ?S1 ?S2" by (rule plan_lock) (use assms(2,3) ij in simp_all)
  obtain b' p' where plan: "plan_next ph env (pod # rest) ns pod ?b (lp_planner ?S2) = (b', p')" by fastforce
  let ?S3 = "set_thread i (Some (Planning (pod # rest) sched ns rest b')) (?S2\<lparr>lp_planner := p'\<rparr>)"
  have one: "lock_step ph kc ?S2 ?S3" by (rule plan_one [OF _ plan]) simp
  have mem: "pod_key pod \<in> dom (podToNodeMap p')"
    using scheduled_pod_remembered [OF assms(7,8) _ assms(10-13), of "no_plan_yet (podToNodeMap (lp_planner ?S2)) sched" "pod # rest"]
      plan assms(9) by (auto simp: plan_next_def no_plan_yet_def Let_def)
  have "lp_threads ?S3 i = Some (Planning (pod # rest) sched ns rest b')" by simp
  from planning_finishes [OF this, of ph kc] obtain S' as where
    S': "(lock_step ph kc)\<^sup>*\<^sup>* ?S3 S'" "lp_threads S' = (lp_threads ?S3)(i \<mapsto> Answered (Inr as))"
      "dom (podToNodeMap (lp_planner ?S3)) \<subseteq> dom (podToNodeMap (lp_planner S'))" by blast
  have "(lock_step ph kc)\<^sup>*\<^sup>* S S'"
    using first lock one S'(1) by (meson converse_rtranclp_into_rtranclp rtranclp_trans)
  moreover have "podToNodeMap (handlePodUpdate kc gone later p) = podToNodeMap p"
    if "pod_Phase gone = PodRunning \<or> pod_Phase later \<noteq> PodRunning" for later p
    using that assms(5) by (auto simp: handlePodUpdate_def)
  moreover have "podToNodeMap (lp_planner S') (pod_key gone) \<noteq> None" 
    unfolding assms(6) using subsetD [OF S'(3)] mem by (simp add: domIff)
  ultimately show "\<exists>S' as. (lock_step ph kc)\<^sup>*\<^sup>* S S' \<and> lp_threads S' j = None \<and> lp_threads S' i = Some (Answered (Inr as)) \<and>
      podToNodeMap (lp_planner S') (pod_key gone) \<noteq> None \<and>
      (\<forall>later p. pod_Phase gone = PodRunning \<or> pod_Phase later \<noteq> PodRunning \<longrightarrow>
         podToNodeMap (handlePodUpdate kc gone later p) = podToNodeMap p)"
    using S'(2) ij by (intro exI [of _ S'] exI [of _ as]) simp
qed

section \<open>Two goroutines\<close>

text \<open>A request for a set with one pod, which waits for the lock beside the event of the pod's deletion.\<close>

definition ex_idle :: "(NamespacedName, SchedulePlan) gomap locked_planner" where
  "ex_idle = \<lparr>lp_planner = \<lparr>podToNodeMap = Map.empty, updateQueue = [], api = []\<rparr>, lp_holder = None, lp_threads = Map.empty\<rparr>"

definition ex_gone :: Pod where
  "ex_gone = (ex_pod ''a'')\<lparr>pod_DeletionTimestamp := Some 1\<rparr>"

definition ex_requested :: "(NamespacedName, SchedulePlan) gomap locked_planner" where
  "ex_requested = set_thread 0 (Some (WaitingToPlan [ex_pod ''a''] [pod_key (ex_pod ''a'') \<mapsto> [''n1'']]
     [ex_node ''n1'', ex_node ''n2''])) ex_idle"

definition ex_contended :: "(NamespacedName, SchedulePlan) gomap locked_planner" where
  "ex_contended = set_thread 1 (Some (WaitingToHandle (ex_pod ''a'') ex_gone)) ex_requested"

lemma ex_requested_reachable: "reachable lock_start (lock_step ph kc) ex_requested"
proof -
  let ?listed = "Listed [ex_pod ''a''] [pod_key (ex_pod ''a'') \<mapsto> [''n1'']]"
  have "reachable lock_start (lock_step ph kc) ex_idle" by (rule reachable_start) (simp add: lock_start_def ex_idle_def)
  moreover have "listed ''a'' [''n1''] (Inr [ex_pod ''a'']) = ?listed" by (simp add: listed_def swap_front_def ex_pod_def)
  then have "lock_step ph kc ex_idle (set_thread 0 (Some ?listed) ex_idle)"
    using request [of ex_idle 0 "Inr [ex_pod ''a'']" ph kc "''a''" "[''n1'']"] by (simp add: ex_idle_def)
  moreover have "lock_step ph kc (set_thread 0 (Some ?listed) ex_idle) ex_requested"
    using nodes [OF _ ex_eligible, of "set_thread 0 (Some ?listed) ex_idle" 0] by (simp add: ex_requested_def set_thread_def)
  ultimately show ?thesis by (blast intro: reachable_step)
qed

lemma ex_contended_reachable: "reachable lock_start (lock_step ph kc) ex_contended"
proof -
  have "lp_threads ex_requested 1 = None" by (simp add: ex_requested_def ex_idle_def)
  from event [OF this] show ?thesis
    unfolding ex_contended_def by (rule reachable_step [OF ex_requested_reachable])
qed

lemma ex_contended_threads:
  "lp_threads ex_contended 0 = Some (WaitingToPlan [ex_pod ''a''] [pod_key (ex_pod ''a'') \<mapsto> [''n1'']] [ex_node ''n1'', ex_node ''n2''])"
  "lp_threads ex_contended 1 = Some (WaitingToHandle (ex_pod ''a'') ex_gone)" "lp_holder ex_contended = None"
  by (simp_all add: ex_contended_def ex_requested_def ex_idle_def)

theorem request_is_answered_witness:
  "\<exists>S' r. (lock_step ex_ph map_kube)\<^sup>*\<^sup>* ex_contended S' \<and> lp_threads S' 0 = Some (Answered r)"
  by (rule request_is_answered [OF ex_contended_reachable ex_contended_threads(1)]) simp

theorem stale_request_remembers_deleted_pod_witness:
  "\<exists>S'. (lock_step ex_ph map_kube)\<^sup>*\<^sup>* ex_contended S' \<and> lp_threads S' 1 = None \<and>
     podToNodeMap (lp_planner S') (pod_key ex_gone) \<noteq> None"
proof -
  have "pod_key ex_gone = pod_key (ex_pod ''a'')" "pod_DeletionTimestamp ex_gone \<noteq> None" by (simp_all add: ex_gone_def)
  moreover have "active (ex_pod ''a'')" "pod_HostIP (ex_pod ''a'') = ''''" by (simp_all add: active_def ex_pod_def blank_pod_def)
  ultimately have "\<exists>S' as. (lock_step ex_ph map_kube)\<^sup>*\<^sup>* ex_contended S' \<and> lp_threads S' 1 = None \<and>
      lp_threads S' 0 = Some (Answered (Inr as)) \<and> podToNodeMap (lp_planner S') (pod_key ex_gone) \<noteq> None \<and>
      (\<forall>later p. pod_Phase ex_gone = PodRunning \<or> pod_Phase later \<noteq> PodRunning \<longrightarrow>
         podToNodeMap (handlePodUpdate map_kube ex_gone later p) = podToNodeMap p)"
    by (intro stale_request_remembers_deleted_pod [OF ex_contended_reachable ex_contended_threads(3,1,2) _ _ _ _ _ _ _ ex_env_complete,
          where el = "[''n1'']", THEN conjunct2])
      (simp_all add: ex_ph_par)
  then show ?thesis by blast
qed

text \<open>The request takes the lock, plans its pod, and answers.\<close>

definition ex_locked :: "(NamespacedName, SchedulePlan) gomap locked_planner" where
  "ex_locked = set_thread 0 (Some (Planning [ex_pod ''a''] [pod_key (ex_pod ''a'') \<mapsto> [''n1'']] [ex_node ''n1'', ex_node ''n2'']
     [ex_pod ''a''] (no_plan_yet Map.empty [pod_key (ex_pod ''a'') \<mapsto> [''n1'']]))) (ex_requested\<lparr>lp_holder := Some 0\<rparr>)"

lemma ex_locked_reachable: "reachable lock_start (lock_step ph kc) ex_locked"
proof -
  have "lock_step ph kc ex_requested ex_locked"
    unfolding ex_locked_def by (rule plan_lock) (simp_all add: ex_requested_def ex_idle_def)
  then show ?thesis by (rule reachable_step [OF ex_requested_reachable])
qed

lemma ex_locked_abstracts: "abstracts ph ex_locked (lp_planner ex_idle)"
proof -
  have "inside ex_locked = lp_threads ex_locked 0" by (simp add: inside_def ex_locked_def)
  then show ?thesis
    by (simp add: abstracts_def) (simp add: ex_locked_def ex_requested_def no_plan_yet_def)
qed

lemma ex_planned_one:
  "\<exists>pods sched ns b (S :: (NamespacedName, SchedulePlan) gomap locked_planner).
     reachable lock_start (lock_step ex_ph map_kube) S \<and> abstracts ex_ph S (lp_planner ex_idle) \<and>
     lp_threads S 0 = Some (Planning pods sched ns [] b)"
proof -
  obtain pods sched ns b where t: "lp_threads ex_locked 0 = Some (Planning pods sched ns [ex_pod ''a''] b)"
    by (simp add: ex_locked_def)
  obtain b' p' where plan: "plan_next ex_ph ex_env pods ns (ex_pod ''a'') b (lp_planner ex_locked) = (b', p')" by fastforce
  define S where "S = set_thread 0 (Some (Planning pods sched ns [] b')) (ex_locked\<lparr>lp_planner := p'\<rparr>)"
  have "reachable lock_start (lock_step ex_ph map_kube) S"
    unfolding S_def by (rule reachable_step [OF ex_locked_reachable]) (rule plan_one [OF t plan])
  moreover have "abstracts ex_ph S (lp_planner ex_idle)"
    unfolding S_def
    by (rule plan_one_abstracts [OF planner_lock.reachable_inv [OF ex_locked_reachable] ex_locked_abstracts t plan])
  moreover have "lp_threads S 0 = Some (Planning pods sched ns [] b')" by (simp add: S_def)
  ultimately show ?thesis by blast
qed

theorem planning_is_atomic_witness:
  "\<exists>as p' (S :: (NamespacedName, SchedulePlan) gomap locked_planner) S' lister envs pods sched.
     answers_with 0 as S S' \<and> abstracts ex_ph S' p' \<and> BuildPlan ex_ph lister envs pods pods sched Map.empty = (Inr as, podToNodeMap p')"
proof -
  obtain pods sched ns b and S :: "(NamespacedName, SchedulePlan) gomap locked_planner" where
    S: "reachable lock_start (lock_step ex_ph map_kube) S" "abstracts ex_ph S (lp_planner ex_idle)"
      "lp_threads S 0 = Some (Planning pods sched ns [] b)"
    using ex_planned_one by blast
  define S' where "S' = set_thread 0 (Some (Answered (Inr (b_assignmentMap b)))) (S\<lparr>lp_holder := None\<rparr>)"
  have step: "lock_step ex_ph map_kube S S'" unfolding S'_def by (rule plan_unlock [OF S(3)])
  have ans: "answers_with 0 (b_assignmentMap b) S S'" by (simp add: answers_with_def S'_def S(3))
  have "podToNodeMap (lp_planner ex_idle) = Map.empty" by (simp add: ex_idle_def)
  with planning_is_atomic [OF S(1,2) step] ans show ?thesis by metis
qed

end
