(* ===== verification/Removal.thy ===== *)
theory Removal
  imports UpdateWorker
begin

text \<open>
  What becomes of a removal that has failed. Theory UpdateWorker shows that the queue forgets none;
  here the API server answers again, and the worker of \<^verbatim>\<open>planner.go\<close> is followed until the pod is out of the
  plan.
\<close>

section \<open>The worker alone\<close>

text \<open>The steps of the worker and the ends of delays, without events, new plans or other clients.\<close>

inductive quiet_step :: "'s kube \<Rightarrow> 's update_system \<Rightarrow> 's update_system \<Rightarrow> bool" for kc where
  quiet_worker: "worker_step kc us us' \<Longrightarrow> quiet_step kc us us'"
| quiet_ready: "item \<in> q_waiting (us_queue us) \<Longrightarrow> \<not> q_shuttingDown (us_queue us) \<Longrightarrow>
    quiet_step kc us (us\<lparr>us_queue := delay_ends item (us_queue us)\<rparr>)"

lemma quiet_update: "quiet_step kc us us' \<Longrightarrow> update_step kc us us'"
  by (cases rule: quiet_step.cases) (auto intro: worker ready)

lemma quiet_run: "(quiet_step kc)\<^sup>*\<^sup>* us us' \<Longrightarrow> (update_step kc)\<^sup>*\<^sup>* us us'"
  using rtranclp_mono [of "quiet_step kc" "update_step kc"] by (auto intro: quiet_update)

section \<open>A removal on a server that serves\<close>

lemma doUpdate_serves:
  assumes "kube_ok kc plans" "kube_serves kc plans" "plans_wf (plans s)"
  obtains s' where "doUpdate kc w s = (None, s')" "plans_wf (plans s')"
    "planned (plans s') (w_namespace w) (w_podset w) (w_name w) = None"
    "\<And>ns podset pod. planned (plans s) ns podset pod = None \<Longrightarrow> planned (plans s') ns podset pod = None"
proof -
  let ?ns = "w_namespace w" and ?ps = "w_podset w" and ?pod = "w_name w"
  obtain e s' where run: "client_Delete kc ?pod ?ns ?ps s = ((False, e), s')"
    using client_Delete_serves [OF assms] by blast
  have du: "doUpdate kc w s = (None, s')" by (simp add: doUpdate_def run split: option.split)
  have gone: "planned (plans s') ?ns ?ps ?pod = None"
  proof (cases "client_Get kc ?ns ?ps s")
    case (Inl e')
    then have "plans s (podset_key ?ns ?ps) = None" using client_Get_serves [OF assms(2)] by blast
    moreover have "s' = s" using run Inl by (simp add: client_Delete_def)
    ultimately show ?thesis by (simp add: planned_def)
  next
    case (Inr p)
    with doUpdate_effect(1) [OF assms(1,3) du] show ?thesis by simp
  qed
  have "planned (plans s') ns podset pod = None" if "planned (plans s) ns podset pod = None" for ns podset pod
  proof (cases "(ns, podset) = (?ns, ?ps) \<and> e = None")
    case True
    with Delete_effect [OF assms(1,3) run] that show ?thesis by auto
  next
    case False
    show ?thesis
    proof (cases "(ns, podset) = (?ns, ?ps)")
      case False
      with Delete_effect [OF assms(1,3) run, of ns podset] that show ?thesis by simp
    next
      case True
      with False Delete_effect [OF assms(1,3) run] obtain e' where "client_Get kc ?ns ?ps s = Inl e'"
        by (cases "client_Get kc ?ns ?ps s") auto
      then have "s' = s" using run by (simp add: client_Delete_def)
      with that show ?thesis by simp
    qed
  qed
  with du doUpdate_effect(3) [OF assms(1,3) du] gone show thesis by (rule that)
qed

definition removed :: "('s \<Rightarrow> plans) \<Rightarrow> workWrapper \<Rightarrow> 's update_system \<Rightarrow> bool" where
  "removed plans w us \<longleftrightarrow> planned (plans (us_api us)) (w_namespace w) (w_podset w) (w_name w) = None"

text \<open>The removal is still due, or it is done, and the server serves.\<close>

definition removing :: "'s kube \<Rightarrow> ('s \<Rightarrow> plans) \<Rightarrow> nat \<Rightarrow> workWrapper \<Rightarrow> 's update_system \<Rightarrow> bool" where
  "removing kc plans i w us \<longleftrightarrow>
     kube_ok kc plans \<and> kube_serves kc plans \<and> queue_inv us \<and> \<not> us_quit us \<and> plans_wf (plans (us_api us)) \<and>
     us_items us ! i = w \<and> (i \<in> due us \<or> removed plans w us)"

lemma work_serves:
  assumes "kube_ok kc plans" "kube_serves kc plans" "plans_wf (plans (us_api us))" "queue_inv us" "us_worker us = Working j"
  obtains s' where "system_processUpdate kc j us = us\<lparr>us_api := s'\<rparr>" "plans_wf (plans s')"
    "removed plans (us_items us ! j) (us\<lparr>us_api := s'\<rparr>)"
    "\<And>w. removed plans w us \<Longrightarrow> removed plans w (us\<lparr>us_api := s'\<rparr>)"
    "due (us\<lparr>us_api := s', us_worker := Finishing j\<rparr>) = due us - {j}"
proof -
  obtain s' where s': "doUpdate kc (us_items us ! j) (us_api us) = (None, s')" "plans_wf (plans s')"
    "planned (plans s') (w_namespace (us_items us ! j)) (w_podset (us_items us ! j)) (w_name (us_items us ! j)) = None"
    "\<And>ns podset pod. planned (plans (us_api us)) ns podset pod = None \<Longrightarrow> planned (plans s') ns podset pod = None"
    using doUpdate_serves [OF assms(1-3)] by metis
  have "due (us\<lparr>us_api := s', us_worker := Finishing j\<rparr>) = due us - {j}"
    using assms(4,5) by (auto simp: due_def queue_inv_def Let_def)
  with s' show thesis by (intro that [of s']) (simp_all add: system_processUpdate_def removed_def)
qed

lemma removing_step:
  assumes "quiet_step kc us us'" "removing kc plans i w us"
  shows "removing kc plans i w us'"
proof -
  note inv = assms(2) [unfolded removing_def]
  have q: "queue_inv us'" using update_step_inv [OF quiet_update [OF assms(1)]] inv by blast
  from assms(1) show ?thesis
  proof (cases rule: quiet_step.cases)
    case (quiet_ready item)
    with inv q show ?thesis
      using delay_ends_pending [OF quiet_ready(2,3)] by (simp add: removing_def removed_def)
  next
    case quiet_worker
    then have quit: "us_quit us' = us_quit us" by (auto elim: worker_stepE)
    show ?thesis
    proof (cases "\<exists>j. us_worker us = Working j")
      case True
      then obtain j where j: "us_worker us = Working j" ..
      with quiet_worker have us': "us' = (system_processUpdate kc j us)\<lparr>us_worker := Finishing j\<rparr>"
        by (auto elim: worker_stepE)
      obtain s' where s': "system_processUpdate kc j us = us\<lparr>us_api := s'\<rparr>" "plans_wf (plans s')"
        "removed plans (us_items us ! j) (us\<lparr>us_api := s'\<rparr>)"
        "removed plans w us \<Longrightarrow> removed plans w (us\<lparr>us_api := s'\<rparr>)"
        "due (us\<lparr>us_api := s', us_worker := Finishing j\<rparr>) = due us - {j}"
        using work_serves [OF _ _ _ _ j, of kc plans] inv by metis
      have "us_items us ! i = w" "i \<in> due us \<or> removed plans w us" using inv by blast+
      then have "i \<in> due us - {j} \<or> removed plans w (us\<lparr>us_api := s'\<rparr>)" using s'(3,4) by blast
      with inv q us' s'(1,2,5) show ?thesis by (simp add: removing_def removed_def)
    next
      case False
      then have "due us' = due us \<and> us_items us' = us_items us \<and> us_map us' = us_map us \<and> us_api us' = us_api us"
        using inv by (intro worker_step_pending [OF _ quiet_worker]) blast+
      with inv q quit show ?thesis by (simp add: removing_def removed_def)
    qed
  qed
qed

text \<open>How far the worker is from having made every removal that is due.\<close>

definition rank :: "worker_at \<Rightarrow> nat" where
  "rank w =
     (case w of Stopped \<Rightarrow> 0 | Working _ \<Rightarrow> 1 | Getting \<Rightarrow> 2 | AtTop \<Rightarrow> 3 | Sleeping \<Rightarrow> 4 | Finishing _ \<Rightarrow> 5)"

definition work_left :: "'s update_system \<Rightarrow> nat" where
  "work_left us = 10 * card (due us) + card (q_waiting (us_queue us)) + rank (us_worker us)"

lemma worker_step_moves:
  assumes "queue_inv us" "worker_step kc us us'" "\<And>j. us_worker us \<noteq> Working j"
    and "q_waiting (us_queue us') = q_waiting (us_queue us)" "rank (us_worker us') < rank (us_worker us)"
  shows "\<exists>us'. quiet_step kc us us' \<and> work_left us' < work_left us"
  using worker_step_pending [OF assms(1-3)] assms(4,5) quiet_worker [OF assms(2)]
  by (intro exI [of _ us']) (simp add: work_left_def)

lemma getting_moves:
  assumes "queue_inv us" "\<not> us_quit us" "us_worker us = Getting" "i \<in> due us"
  shows "\<exists>us'. quiet_step kc us us' \<and> work_left us' < work_left us"
proof (cases "q_queue (us_queue us)")
  case Nil
  then have i: "i \<in> q_waiting (us_queue us)" "\<not> q_shuttingDown (us_queue us)" "finite (q_waiting (us_queue us))"
    using assms pending_finite [OF assms(1)] by (auto simp: queue_inv_def due_def busy_def Let_def)
  have "q_waiting (delay_ends i (us_queue us)) = q_waiting (us_queue us) - {i}"
    by (simp add: delay_ends_def queue_Add_def Let_def)
  moreover have "card (q_waiting (us_queue us) - {i}) < card (q_waiting (us_queue us))"
    using i by (intro psubset_card_mono) auto
  ultimately show ?thesis
    using quiet_ready [OF i(1,2)] delay_ends_pending [OF i(1,2)]
    by (intro exI [of _ "us\<lparr>us_queue := delay_ends i (us_queue us)\<rparr>"]) (simp add: work_left_def)
next
  case (Cons item items)
  then obtain q where q: "queue_Get (us_queue us) = Some (Some item, q)" "q_waiting q = q_waiting (us_queue us)"
    by (simp add: queue_Get_def)
  show ?thesis
    by (rule worker_step_moves [OF assms(1) get [OF assms(3) q(1)]]) (simp_all add: q(2) assms(3) rank_def)
qed

lemma removing_moves:
  assumes "removing kc plans i w us" "\<not> removed plans w us"
  shows "\<exists>us'. quiet_step kc us us' \<and> work_left us' < work_left us"
proof -
  note inv = assms [unfolded removing_def]
  then have q: "queue_inv us" and i: "i \<in> due us" by blast+
  show ?thesis
  proof (cases "us_worker us")
    case AtTop
    with inv show ?thesis by (intro worker_step_moves [OF q call]) (simp_all add: rank_def)
  next
    case Getting
    with inv q i show ?thesis by (intro getting_moves) blast+
  next
    case (Working j)
    then obtain s' where s': "system_processUpdate kc j us = us\<lparr>us_api := s'\<rparr>"
      "due (us\<lparr>us_api := s', us_worker := Finishing j\<rparr>) = due us - {j}"
      using work_serves [OF _ _ _ q Working, of kc plans] inv by metis
    have "card (due us - {j}) < card (due us)"
      using pending_finite [OF q] Working by (intro psubset_card_mono) (auto simp: due_def)
    then have "work_left (us\<lparr>us_api := s', us_worker := Finishing j\<rparr>) < work_left us"
      using s'(2) Working by (simp add: work_left_def rank_def)
    with quiet_worker [OF work [OF Working], of kc] s'(1) show ?thesis by auto
  next
    case (Finishing j)
    then show ?thesis by (intro worker_step_moves [OF q finish [OF Finishing]]) (simp_all add: rank_def queue_Done_def Let_def)
  next
    case Sleeping
    then show ?thesis by (intro worker_step_moves [OF q wake [OF Sleeping]]) (simp_all add: rank_def)
  next
    case Stopped
    with q have "us_quit us" by (simp add: queue_inv_def Let_def)
    with inv show ?thesis by blast
  qed
qed

interpretation removals: progress_system "removing kc plans i w" "quiet_step kc" "removing kc plans i w"
    "removed plans w" work_left
  for kc :: "'s kube" and plans :: "'s \<Rightarrow> plans" and i w
proof
  show "removing kc plans i w us \<Longrightarrow> removing kc plans i w us" for us .
qed (use removing_step removing_moves in blast)+

text \<open>
  C15: a removal that failed is made once the API server serves again. However the planner came to
  have it due - under an API server \<open>kc'\<close> that may have failed any number of its requests - when the planner
  is not stopped and its requests are answered again, the worker reaches a state in which the plan
  of the pod set no longer names the pod; it needs no further event to get there.
\<close>

theorem failed_removal_is_done:
  assumes "reachable (\<lambda>us. \<exists>s. us = new_system s) (update_step kc') us" "i \<in> due us" "\<not> us_quit us"
    and "kube_ok kc plans" "kube_serves kc plans" "plans_wf (plans (us_api us))"
  shows "\<exists>us'. (quiet_step kc)\<^sup>*\<^sup>* us us' \<and>
    (let w = us_items us ! i in planned (plans (us_api us')) (w_namespace w) (w_podset w) (w_name w) = None)"
proof -
  have "removing kc plans i (us_items us ! i) us"
    using assms update_worker.reachable_inv [OF assms(1)] by (simp add: removing_def)
  from removals.inv_reaches_goal [OF this] show ?thesis by (simp add: removed_def Let_def)
qed

text \<open>The removal that fails while the API server is down, when it is up again.\<close>

lemma ex_retry_reachable:
  "reachable (\<lambda>us. \<exists>s. us = new_system s) (update_step ex_broken) (retry_later (new_system ex_store) ex_removal)"
proof -
  have "reachable (\<lambda>us. \<exists>s. us = new_system s) (update_step ex_broken) (new_system ex_store)"
    by (rule reachable_start) blast
  then show ?thesis by (rule reachable_step) (unfold ex_event [symmetric], rule pod)
qed

theorem failed_removal_is_done_witness:
  "\<exists>us'. (quiet_step map_kube)\<^sup>*\<^sup>* (retry_later (new_system ex_store) ex_removal) us' \<and>
     planned (map_of (us_api us')) ''ns'' ''web'' ''a'' = None"
proof -
  let ?us = "retry_later (new_system ex_store) ex_removal"
  have "0 \<in> due ?us" "\<not> us_quit ?us" "us_items ?us ! 0 = ex_removal" "us_api ?us = ex_store"
    by (simp_all add: due_def retry_later_def AddRateLimited_def new_system_def NewRateLimitingQueue_def)
  then show ?thesis
    using failed_removal_is_done [OF ex_retry_reachable, of 0 map_kube map_of] map_kube_ok map_kube_serves ex_store_wf
    by (simp add: ex_removal_def)
qed

end
