(* ===== verification/Deadlines.thy ===== *)
theory Deadlines
  imports Plugin
begin

text \<open>
  The scheduler plugin in time. Theory Plugin has a request whose context expires as a request that
  fails. Here the contexts have their deadlines: \<^verbatim>\<open>PreScore\<close> derives one of twice the call timeout, and
  every request below it one of the call timeout, which never outlives its parent. A clock runs beside the
  outside world; how long a request takes, and whether one that is given up has been carried out all the same,
  is left open.
\<close>

section \<open>Contexts and requests\<close>

text \<open>
  \<^verbatim>\<open>context.WithTimeout\<close>: the deadline of the new context; a parent may have none. Time is in
  nanoseconds, as in the options.
\<close>

definition WithTimeout :: "int option \<Rightarrow> int \<Rightarrow> int \<Rightarrow> int" where
  "WithTimeout parent timeout now =
     (case parent of None \<Rightarrow> now + timeout | Some d \<Rightarrow> min d (now + timeout))"

datatype request =
    ListTriggers
  | GetPlan
  | WritePlan
  | ListServices string
  | CallPlanner string

record timing =
  how_long :: "request \<Rightarrow> int \<Rightarrow> nat"    \<comment> \<open>until the answer to a request that is sent at this time\<close>
  lands :: "request \<Rightarrow> int \<Rightarrow> bool"       \<comment> \<open>whether it is carried out when it is given up\<close>

definition DeadlineExceeded :: err where
  "DeadlineExceeded = External ''context deadline exceeded''"

definition in_time :: "timing \<Rightarrow> request \<Rightarrow> int \<Rightarrow> int \<Rightarrow> bool" where
  "in_time tm r ctx t \<longleftrightarrow> t + int (how_long tm r t) < ctx"

definition ends :: "timing \<Rightarrow> request \<Rightarrow> int \<Rightarrow> int \<Rightarrow> int" where
  "ends tm r ctx t = (if in_time tm r ctx t then t + int (how_long tm r t) else max t ctx)"

text \<open>A request that changes the world: answered in time, or given up when the context expires.\<close>

definition await :: "timing \<Rightarrow> request \<Rightarrow> int \<Rightarrow> 'a \<Rightarrow> ('w \<Rightarrow> 'a \<times> 'w) \<Rightarrow> 'w \<times> int \<Rightarrow> 'a \<times> 'w \<times> int" where
  "await tm r ctx late call wt =
     (case wt of (w, t) \<Rightarrow>
        (case call w of (a, w') \<Rightarrow>
           if in_time tm r ctx t then (a, w', ends tm r ctx t)
           else (late, if t < ctx \<and> lands tm r t then w' else w, ends tm r ctx t)))"

text \<open>The API server under a context; \<open>ok\<close> says whether the read was answered before it expired.\<close>

definition timely :: "bool \<Rightarrow> err + 'a \<Rightarrow> err + 'a" where
  "timely ok r = (if ok then r else Inl DeadlineExceeded)"

definition clocked_triggers :: "bool \<Rightarrow> 'w trigger_kube \<Rightarrow> 'w trigger_kube" where
  "clocked_triggers ok tk = tk\<lparr>tk_List := (\<lambda>ns ls w. timely ok (tk_List tk ns ls w))\<rparr>"

definition clocked_kube :: "timing \<Rightarrow> int \<Rightarrow> bool \<Rightarrow> 'w kube \<Rightarrow> ('w \<times> int) kube" where
  "clocked_kube tm ctx ok kc =
     \<lparr>kc_Get = (\<lambda>k wt. timely ok (kc_Get kc k (fst wt))),
      kc_List = (\<lambda>ns ls wt. timely ok (kc_List kc ns ls (fst wt))),
      kc_Create = (\<lambda>p. await tm WritePlan ctx (Some DeadlineExceeded) (kc_Create kc p)),
      kc_Update = (\<lambda>p. await tm WritePlan ctx (Some DeadlineExceeded) (kc_Update kc p)),
      kc_Delete = (\<lambda>k. await tm WritePlan ctx (Some DeadlineExceeded) (kc_Delete kc k))\<rparr>"

section \<open>The planner service\<close>

text \<open>An operation on the stored plan: a read and a write under one context.\<close>

definition timed_plan_op ::
  "timing \<Rightarrow> int \<Rightarrow> int option \<Rightarrow> 'w kube \<Rightarrow> (('w \<times> int) kube \<Rightarrow> 'w \<times> int \<Rightarrow> 'a) \<Rightarrow> 'w \<times> int \<Rightarrow> 'a" where
  "timed_plan_op tm T parent kc op wt =
     (case wt of (w, t) \<Rightarrow>
        let ctx = WithTimeout parent T t
        in op (clocked_kube tm ctx (in_time tm GetPlan ctx t) kc) (w, ends tm GetPlan ctx t))"

definition timed_service_Update ::
  "timing \<Rightarrow> int \<Rightarrow> int option \<Rightarrow> 'w outside \<Rightarrow> Pod \<Rightarrow> string \<Rightarrow> (string, string) gomap \<Rightarrow> 'w \<times> int \<Rightarrow>
     err option \<times> 'w \<times> int" where
  "timed_service_Update tm T parent out pod podset as =
     timed_plan_op tm T parent (o_plans out) (\<lambda>kc. client_Update kc (pod_Namespace pod) podset as)"

definition timed_service_UpdateAssignment ::
  "timing \<Rightarrow> int \<Rightarrow> int option \<Rightarrow> 'w outside \<Rightarrow> Pod \<Rightarrow> string \<Rightarrow> string \<Rightarrow> 'w \<times> int \<Rightarrow> err option \<times> 'w \<times> int" where
  "timed_service_UpdateAssignment tm T parent out pod podset nodeName =
     timed_plan_op tm T parent (o_plans out)
       (\<lambda>kc. client_UpdateAssignment kc (pod_Namespace pod) podset (pod_Name pod) nodeName)"

definition timed_service_Delete ::
  "timing \<Rightarrow> int \<Rightarrow> int option \<Rightarrow> 'w outside \<Rightarrow> Pod \<Rightarrow> string \<Rightarrow> string \<Rightarrow> 'w \<times> int \<Rightarrow> err option \<times> 'w \<times> int" where
  "timed_service_Delete tm T parent out pod podset nodeName wt =
     (case timed_plan_op tm T parent (o_plans out)
             (\<lambda>kc. client_Delete kc (pod_Name pod) (pod_Namespace pod) podset) wt of
        ((_, Some e), wt') \<Rightarrow>
          (Some (Wrapped (''error deleting pod '' @ pod_Name pod @ '' from plan spec: '') e), wt')
      | ((_, None), wt') \<Rightarrow> (None, wt'))"

definition timed_lookup ::
  "timing \<Rightarrow> int \<Rightarrow> int option \<Rightarrow> 'w outside \<Rightarrow> string \<Rightarrow> string \<Rightarrow> string \<Rightarrow> string \<Rightarrow> string list \<Rightarrow> 'w \<times> int \<Rightarrow>
     (err + Planner list) \<times> 'w \<times> int" where
  "timed_lookup tm T parent out labelSelector namespace podset scheduledPod eligibleNodes wt =
     (case wt of (w, t) \<Rightarrow>
        let ctx = WithTimeout parent T t;
            ok = in_time tm (ListServices labelSelector) ctx t
        in (lookupWithLabelSelector (out\<lparr>o_ListServices := (\<lambda>ls w. timely ok (o_ListServices out ls w))\<rparr>)
              labelSelector namespace podset scheduledPod eligibleNodes w,
            w, ends tm (ListServices labelSelector) ctx t))"

definition timed_Lookup ::
  "timing \<Rightarrow> int \<Rightarrow> int option \<Rightarrow> 'w outside \<Rightarrow> string \<Rightarrow> string \<Rightarrow> string \<Rightarrow> string list \<Rightarrow> 'w \<times> int \<Rightarrow>
     (err + Planner list) \<times> 'w \<times> int" where
  "timed_Lookup tm T parent out namespace podset scheduledPod eligibleNodes wt =
     (case timed_lookup tm T parent out (''planner.ciena.io/'' @ podset @ ''=enabled'')
             namespace podset scheduledPod eligibleNodes wt of
        (Inl _, wt') \<Rightarrow> timed_lookup tm T parent out ''planner.ciena.io/default=enabled''
                   namespace podset scheduledPod eligibleNodes wt'
      | (Inr planners, wt') \<Rightarrow> (Inr planners, wt'))"

text \<open>
  The calls to the planners, for the loop of theory PlannerService. \<^verbatim>\<open>DialContext\<close> does not wait for a
  connection, and fails when its context has expired.
\<close>

definition timed_calls :: "timing \<Rightarrow> int \<Rightarrow> int option \<Rightarrow> 'w outside \<Rightarrow> ('w \<times> int) outside" where
  "timed_calls tm T parent out =
     \<lparr>o_plans = lift_kube fst (\<lambda>w wt. (w, snd wt)) (o_plans out),
      o_ListServices = (\<lambda>ls wt. o_ListServices out ls (fst wt)),
      o_DialContext = (\<lambda>dns wt. if snd wt < WithTimeout parent T (snd wt) then o_DialContext out dns (fst wt)
         else Some DeadlineExceeded),
      o_BuildSchedulePlan = (\<lambda>dns req wt. await tm (CallPlanner dns) (WithTimeout parent T (snd wt)) (Inl DeadlineExceeded)
         (o_BuildSchedulePlan out dns req) wt),
      o_StatusMessage = o_StatusMessage out\<rparr>"

section \<open>The plugin\<close>

definition timed_findFit ::
  "timing \<Rightarrow> int \<Rightarrow> int option \<Rightarrow> 'w outside \<Rightarrow> 'w trigger_kube \<Rightarrow> nat list \<Rightarrow> Pod \<Rightarrow> string list \<Rightarrow> 'w \<times> int \<Rightarrow>
     (err + string) \<times> 'w \<times> int" where
  "timed_findFit tm T parent out tk draws pod eligibleNodes wt =
     (let podset = getPodSet pod; (w, t) = wt
      in if podset = '''' then (Inl (Sentinel ErrNoPodSetFound), w, t)
         else
           let ctx = WithTimeout parent T t; t1 = ends tm ListTriggers ctx t
           in case trigger_Get (clocked_triggers (in_time tm ListTriggers ctx t) tk) (pod_Namespace pod) podset w of
             Inl e \<Rightarrow> (Inl e, w, t1)
           | Inr trigger \<Rightarrow>
               if trig_State trigger \<noteq> ''Schedule'' then (Inl (Sentinel ErrPodNotAssignable), w, t1)
               else
                 let ctx = WithTimeout parent T t1; t2 = ends tm GetPlan ctx t1;
                     present = client_CheckIfPodPresent (clocked_kube tm ctx (in_time tm GetPlan ctx t1) (o_plans out))
                       (pod_Namespace pod) podset (pod_Name pod) (w, t2);
                     planned_node = (case present of
                         Inr (Some planSpec) \<Rightarrow>
                           if list_ex (\<lambda>node. node = ps_Node planSpec) eligibleNodes
                           then Some (ps_Node planSpec) else None
                       | _ \<Rightarrow> None)
                 in case planned_node of
                      Some node \<Rightarrow> (Inr node, w, t2)
                    | None \<Rightarrow>
                        (case timed_Lookup tm T parent out (pod_Namespace pod) podset (pod_Name pod) eligibleNodes (w, t2) of
                           (Inl e, wt3) \<Rightarrow> (Inl e, wt3)
                         | (Inr planners, wt3) \<Rightarrow>
                             (case Invoke (timed_calls tm T parent out) planners draws wt3 of
                                (Inl e, wt4) \<Rightarrow> (Inl e, wt4)
                              | (Inr as, wt4) \<Rightarrow>
                                  (case map_of as (pod_Name pod) of
                                     None \<Rightarrow> (Inl (Sentinel SchedulerErrNotFound), wt4)
                                   | Some selectedNode \<Rightarrow>
                                       (case timed_service_Update tm T parent out pod podset as wt4 of
                                          (Some e, wt5) \<Rightarrow> (Inl e, wt5)
                                        | (None, wt5) \<Rightarrow> (Inr selectedNode, wt5))))))"

definition timed_createAssignmentState ::
  "timing \<Rightarrow> int \<Rightarrow> int option \<Rightarrow> 'w outside \<Rightarrow> 'w trigger_kube \<Rightarrow> nat list \<Rightarrow> Pod \<Rightarrow> Node list \<Rightarrow> 'w \<times> int \<Rightarrow>
     (string option \<times> Status) \<times> 'w \<times> int" where
  "timed_createAssignmentState tm T parent out tk draws pod eligibleNodes wt =
     (if length eligibleNodes = 0 then ((None, NewStatus Unschedulable []), wt)
      else
        case timed_findFit tm T parent out tk draws pod (map node_Name eligibleNodes) wt of
          (Inl e, wt') \<Rightarrow> ((None, AsStatus e), wt')
        | (Inr selectedNode, wt') \<Rightarrow> ((Some selectedNode, NewStatus Success []), wt'))"

definition timed_PreScore ::
  "timing \<Rightarrow> int \<Rightarrow> int option \<Rightarrow> 'w outside \<Rightarrow> 'w trigger_kube \<Rightarrow> nat list \<Rightarrow> Pod \<Rightarrow> Node list \<Rightarrow>
     CycleState \<times> 'w \<times> int \<Rightarrow> Status \<times> CycleState \<times> 'w \<times> int" where
  "timed_PreScore tm T parentCtx out tk draws pod nodes cw =
     (case cw of (state, wt) \<Rightarrow>
        let ctx = WithTimeout parentCtx (double_timeout T) (snd wt)
        in (case timed_createAssignmentState tm T (Some ctx) out tk draws pod nodes wt of
           ((assignmentState, status), wt') \<Rightarrow>
             if \<not> IsSuccess status then
               if StatusEqualErr status ErrNoPodSetFound \<or> StatusEqualErr status ErrNoPlannersFound
               then (NewStatus Success [], state, wt')
               else (NewStatus Unschedulable [], state, wt')
             else
               (status,
                (case assignmentState of
                   None \<Rightarrow> state
                 | Some node \<Rightarrow> state(plannerAssignmentStateKey \<mapsto> AssignmentData node)), wt')))"

definition timed_Reserve ::
  "timing \<Rightarrow> int \<Rightarrow> int option \<Rightarrow> 'w outside \<Rightarrow> Pod \<Rightarrow> string \<Rightarrow> CycleState \<times> 'w \<times> int \<Rightarrow> Status \<times> CycleState \<times> 'w \<times> int" where
  "timed_Reserve tm T parentCtx out pod nodeName cw =
     (case cw of (state, wt) \<Rightarrow>
        (case getAssignmentState state of
           Inl _ \<Rightarrow> (NewStatus Success [], state, wt)
         | Inr node \<Rightarrow>
             let podset = getPodSet pod
             in if podset = '''' then (AsStatus (Sentinel ErrNoPodSetFound), state, wt)
                else if node \<noteq> nodeName then
                  (case timed_service_UpdateAssignment tm T parentCtx out pod podset nodeName wt of
                     (Some e, wt') \<Rightarrow> (AsStatus e, state, wt')
                   | (None, wt') \<Rightarrow>
                       (NewStatus Success [],
                        state(plannerAssignmentStateKey \<mapsto> AssignmentData nodeName), wt'))
                else (NewStatus Success [], state, wt)))"

definition timed_Unreserve ::
  "timing \<Rightarrow> int \<Rightarrow> int option \<Rightarrow> 'w outside \<Rightarrow> Pod \<Rightarrow> string \<Rightarrow> CycleState \<times> 'w \<times> int \<Rightarrow> CycleState \<times> 'w \<times> int" where
  "timed_Unreserve tm T parentCtx out pod nodeName cw =
     (case cw of (state, wt) \<Rightarrow>
        (case getAssignmentState state of
           Inl _ \<Rightarrow> (state, wt)
         | Inr _ \<Rightarrow>
             let podset = getPodSet pod
             in if podset = '''' then (state, wt)
                else
                  (case timed_service_Delete tm T parentCtx out pod podset nodeName wt of
                     (Some e, wt') \<Rightarrow> (state, wt')
                   | (None, wt') \<Rightarrow> (state(plannerAssignmentStateKey := None), wt'))))"

section \<open>No call outlives its context\<close>

text \<open>Time goes on, and not past the deadline \<open>d\<close>.\<close>

definition advances :: "int \<Rightarrow> 'w \<times> int \<Rightarrow> 'w \<times> int \<Rightarrow> bool" where
  "advances d wt wt' \<longleftrightarrow> snd wt \<le> snd wt' \<and> snd wt' \<le> max (snd wt) d"

lemma advances_refl [simp]: "advances d wt wt"
  by (simp add: advances_def)

lemma advances_trans: "advances d a b \<Longrightarrow> advances d b c \<Longrightarrow> advances d a c"
  by (auto simp: advances_def)

lemma advances_mono: "advances d a b \<Longrightarrow> d \<le> d' \<Longrightarrow> advances d' a b"
  by (auto simp: advances_def)

lemma advances_ends: "ctx \<le> d \<Longrightarrow> advances d (w, t) (w', ends tm r ctx t)"
  by (auto simp: advances_def ends_def in_time_def)

lemma WithTimeout_le: "WithTimeout (Some d) T t \<le> d" "WithTimeout parent T t \<le> t + T"
  by (simp_all add: WithTimeout_def split: option.split)

lemma await_advances: "await tm r ctx late call wt = (a, wt') \<Longrightarrow> advances ctx wt wt'"
  by (auto simp: await_def intro: advances_ends split: prod.splits if_splits)

lemma clocked_kube_advances:
  "kc_Create (clocked_kube tm ctx ok kc) p wt = (e, wt') \<Longrightarrow> advances ctx wt wt'"
  "kc_Update (clocked_kube tm ctx ok kc) p wt = (e, wt') \<Longrightarrow> advances ctx wt wt'"
  "kc_Delete (clocked_kube tm ctx ok kc) k wt = (e, wt') \<Longrightarrow> advances ctx wt wt'"
  by (simp_all add: clocked_kube_def await_advances)

lemma client_op_advances:
  "client_Update (clocked_kube tm ctx ok kc) ns podset as wt = (e, wt') \<Longrightarrow> advances ctx wt wt'"
  "client_UpdateAssignment (clocked_kube tm ctx ok kc) ns podset pod node wt = (e, wt') \<Longrightarrow> advances ctx wt wt'"
  "client_Delete (clocked_kube tm ctx ok kc) pod ns podset wt = (r, wt') \<Longrightarrow> advances ctx wt wt'"
  by (auto simp: client_Update_def client_UpdateAssignment_def client_Delete_def
      dest: clocked_kube_advances split: sum.splits prod.splits option.splits if_splits)

lemma plan_op_advances:
  assumes "timed_plan_op tm T parent kc op wt = (r, wt')"
    and "\<And>ctx ok wt r wt'. op (clocked_kube tm ctx ok kc) wt = (r, wt') \<Longrightarrow> advances ctx wt wt'"
  shows "advances (WithTimeout parent T (snd wt)) wt wt'"
proof (cases wt)
  case (Pair w t)
  let ?ctx = "WithTimeout parent T t"
  have "advances ?ctx (w, ends tm GetPlan ?ctx t) wt'"
    using assms by (simp add: timed_plan_op_def Pair Let_def)
  then show ?thesis using advances_trans advances_ends [of ?ctx ?ctx] by (metis Pair order_refl snd_conv)
qed

lemma service_advances:
  "timed_service_Update tm T parent out pod podset as wt = (e, wt') \<Longrightarrow> advances (WithTimeout parent T (snd wt)) wt wt'"
  "timed_service_UpdateAssignment tm T parent out pod podset node wt = (e, wt') \<Longrightarrow>
     advances (WithTimeout parent T (snd wt)) wt wt'"
  "timed_service_Delete tm T parent out pod podset node wt = (e, wt') \<Longrightarrow>
     advances (WithTimeout parent T (snd wt)) wt wt'"
  unfolding timed_service_Update_def timed_service_UpdateAssignment_def timed_service_Delete_def
  by (auto elim!: plan_op_advances dest: client_op_advances split: prod.splits option.splits)

lemma Lookup_advances:
  "timed_Lookup tm T (Some d) out ns podset pod el wt = (r, wt') \<Longrightarrow> advances d wt wt'"
proof -
  have one: "timed_lookup tm T (Some d) out ls ns podset pod el wt = (r, wt') \<Longrightarrow> advances d wt wt'" for ls r wt wt'
    by (auto simp: timed_lookup_def Let_def intro: advances_ends WithTimeout_le split: prod.splits)
  show "timed_Lookup tm T (Some d) out ns podset pod el wt = (r, wt') \<Longrightarrow> advances d wt wt'"
    by (auto simp: timed_Lookup_def dest!: one intro: advances_trans split: prod.splits sum.splits)
qed

lemma Planner_advances:
  assumes "Planner_BuildSchedulePlan (timed_calls tm T (Some d) out) p wt = (r, wt')"
  shows "advances d wt wt'"
  using assms advances_mono [OF await_advances WithTimeout_le(1)]
  by (fastforce simp: Planner_BuildSchedulePlan_def timed_calls_def Let_def split: option.splits if_splits)

lemma invoke_loop_advances:
  "invoke_loop (timed_calls tm T (Some d) out) ps draws wt rs le = (r, wt') \<Longrightarrow> advances d wt wt'"
proof (induction ps arbitrary: draws wt rs le)
  case (Cons p ps)
  obtain x wt1 where x: "Planner_BuildSchedulePlan (timed_calls tm T (Some d) out) p wt = (x, wt1)" by (rule prod.exhaust)
  have "advances d wt1 wt'" using Cons x by (auto split: sum.splits)
  with Planner_advances [OF x] show ?case by (rule advances_trans)
qed simp

lemma Invoke_advances: "Invoke (timed_calls tm T (Some d) out) ps draws wt = (r, wt') \<Longrightarrow> advances d wt wt'"
  by (auto simp: Invoke_def dest: invoke_loop_advances split: prod.splits option.splits if_splits)

lemma findFit_advances:
  assumes "timed_findFit tm T (Some d) out tk draws pod el (w, t) = (r, wt')"
  shows "advances d (w, t) wt'"
proof -
  let ?t1 = "ends tm ListTriggers (WithTimeout (Some d) T t) t"
  let ?t2 = "ends tm GetPlan (WithTimeout (Some d) T ?t1) ?t1"
  have t1: "advances d (w, t) (w, ?t1)" and "advances d (w, ?t1) (w, ?t2)"
    by (rule advances_ends, rule WithTimeout_le)+
  then have t2: "advances d (w, t) (w, ?t2)" by (rule advances_trans)
  have upd: "advances d a b" if "timed_service_Update tm T (Some d) out pod podset as a = (e, b)" for podset as a e b
    using service_advances(1) [OF that] advances_mono WithTimeout_le(1) by blast
  note steps = Lookup_advances [of tm T d out] Invoke_advances [of tm T d out] upd
  from assms consider "wt' = (w, t)" | "wt' = (w, ?t1)" | "wt' = (w, ?t2)"
    | "advances d (w, ?t2) wt'"
    by (auto simp: timed_findFit_def Let_def dest!: steps intro: advances_trans
        split: sum.splits option.splits if_splits prod.splits)
  then show ?thesis using t1 t2 advances_trans [OF t2] by cases auto
qed

text \<open>
  C17: the plugin never holds the scheduler up for longer than its contexts allow. Whatever the API server and the
  planners do - answer late or never, however many planners there are - \<^verbatim>\<open>PreScore\<close> returns within twice the configured
  call timeout, and \<^verbatim>\<open>Reserve\<close> and \<^verbatim>\<open>Unreserve\<close> within one. This holds for every configuration, also for a
  timeout whose double overflows, since the context then expires at once.
\<close>

theorem extension_points_bounded:
  "let T = opt_CallTimeout (plugin_options obj);
       scored = snd (snd (snd (timed_PreScore tm T parentCtx out tk draws pod nodes (state, w, t))));
       reserved = snd (snd (snd (timed_Reserve tm T parentCtx out pod nodeName (state, w, t))));
       unreserved = snd (snd (timed_Unreserve tm T parentCtx out pod nodeName (state, w, t)))
   in t \<le> scored \<and> scored \<le> t + 2 * T \<and> t \<le> reserved \<and> reserved \<le> t + T \<and> t \<le> unreserved \<and> unreserved \<le> t + T"
proof -
  define T where "T = opt_CallTimeout (plugin_options obj)"
  have T: "0 < T" unfolding T_def using options_positive by blast
  have fit: "advances d (w, t) wt'"
    if "timed_createAssignmentState tm T (Some d) out tk draws pod nodes (w, t) = (r, wt')" for d r wt'
    using that findFit_advances [of tm T d out tk draws pod "map node_Name nodes" w t]
    by (auto simp: timed_createAssignmentState_def split: prod.splits sum.splits if_splits)
  have "WithTimeout parentCtx (double_timeout T) t \<le> t + 2 * T"
    using WithTimeout_le(2) [of parentCtx "double_timeout T" t] double_timeout_le [OF T] by simp
  then have "advances (t + 2 * T) (w, t) (snd (snd (timed_PreScore tm T parentCtx out tk draws pod nodes (state, w, t))))"
    using advances_mono [OF fit] by (auto simp: timed_PreScore_def Let_def split: prod.split)
  moreover have upd: "advances (t + T) (w, t) wt'"
    if "timed_service_UpdateAssignment tm T parentCtx out pod podset nodeName (w, t) = (e, wt')" for podset e wt'
    using advances_mono [OF service_advances(2) [OF that]] WithTimeout_le(2) by simp
  then have "advances (t + T) (w, t) (snd (snd (timed_Reserve tm T parentCtx out pod nodeName (state, w, t))))"
    by (auto simp: timed_Reserve_def Let_def split: prod.split sum.split option.split)
  moreover have del: "advances (t + T) (w, t) wt'"
    if "timed_service_Delete tm T parentCtx out pod podset nodeName (w, t) = (e, wt')" for podset e wt'
    using advances_mono [OF service_advances(3) [OF that]] WithTimeout_le(2) by simp
  then have "advances (t + T) (w, t) (snd (timed_Unreserve tm T parentCtx out pod nodeName (state, w, t)))"
    by (auto simp: timed_Unreserve_def Let_def split: prod.split sum.split option.split)
  ultimately show ?thesis
    using T unfolding advances_def Let_def T_def [symmetric] by simp
qed

section \<open>Requests that are answered in time\<close>

definition prompt :: "timing \<Rightarrow> int \<Rightarrow> bool" where
  "prompt tm delta \<longleftrightarrow> (\<forall>r t. int (how_long tm r t) \<le> delta)"

lemma prompt_in_time:
  assumes "prompt tm delta" "t + delta < d" "delta < T"
  shows "in_time tm r (WithTimeout (Some d) T t) t" "ends tm r (WithTimeout (Some d) T t) t \<le> t + delta"
proof -
  have "int (how_long tm r t) \<le> delta" using assms(1) by (simp add: prompt_def)
  with assms(2,3) show "in_time tm r (WithTimeout (Some d) T t) t" "ends tm r (WithTimeout (Some d) T t) t \<le> t + delta"
    by (simp_all add: ends_def in_time_def WithTimeout_def)
qed

lemma prompt_await:
  assumes "prompt tm delta" "t + delta < ctx" "call w = (a, w')"
  shows "\<exists>t'. await tm r ctx late call (w, t) = (a, w', t') \<and> t \<le> t' \<and> t' \<le> t + delta"
proof -
  have "int (how_long tm r t) \<le> delta" using assms(1) by (simp add: prompt_def)
  with assms(2,3) show ?thesis by (simp add: await_def in_time_def ends_def)
qed

lemma prompt_Update:
  assumes "prompt tm delta" "t + delta < ctx" "client_Update kc ns podset as w = (e, w')"
  shows "\<exists>t'. client_Update (clocked_kube tm ctx True kc) ns podset as (w, t) = (e, w', t') \<and> t' \<le> t + delta"
proof -
  have d: "0 \<le> delta" using assms(1) by (metis of_nat_0_le_iff order_trans prompt_def)
  have get: "client_Get (clocked_kube tm ctx True kc) ns podset (w, t) = client_Get kc ns podset w"
    by (simp add: client_Get_def clocked_kube_def timely_def)
  have create: "\<exists>t'. kc_Create (clocked_kube tm ctx True kc) p (w, t) = (x, u, t') \<and> t' \<le> t + delta"
    if "kc_Create kc p w = (x, u)" for p x u
    using prompt_await [OF assms(1,2), where call = "kc_Create kc p", OF that] by (auto simp: clocked_kube_def)
  have upd: "\<exists>t'. kc_Update (clocked_kube tm ctx True kc) p (w, t) = (x, u, t') \<and> t' \<le> t + delta"
    if "kc_Update kc p w = (x, u)" for p x u
    using prompt_await [OF assms(1,2), where call = "kc_Update kc p", OF that] by (auto simp: clocked_kube_def)
  show ?thesis
    using assms(3) d
    by (auto simp: client_Update_def get dest!: create upd split: sum.splits prod.splits option.splits if_splits)
qed

lemma prompt_service_Update:
  assumes "prompt tm delta" "t + 2 * delta < d" "2 * delta < T" "0 \<le> delta" "service_Update out pod podset as w = (e, w')"
  shows "\<exists>t'. timed_service_Update tm T (Some d) out pod podset as (w, t) = (e, w', t')"
proof -
  let ?ctx = "WithTimeout (Some d) T t"
  have in_time: "in_time tm GetPlan ?ctx t" and ends: "ends tm GetPlan ?ctx t \<le> t + delta"
    using prompt_in_time [OF assms(1), of t d T] assms(2-4) by simp_all
  have "ends tm GetPlan ?ctx t + delta < ?ctx" using ends assms(2-4) by (simp add: WithTimeout_def)
  from prompt_Update [OF assms(1) this assms(5) [unfolded service_Update_def]] show ?thesis
    by (auto simp: timed_service_Update_def timed_plan_op_def in_time Let_def)
qed

lemma prompt_lookup:
  assumes "prompt tm delta" "t + delta < d" "delta < T"
  shows "\<exists>t'. timed_lookup tm T (Some d) out ls ns podset pod el (w, t) =
      (lookupWithLabelSelector out ls ns podset pod el w, w, t') \<and> t' \<le> t + delta"
proof -
  have "out\<lparr>o_ListServices := \<lambda>ls w. timely True (o_ListServices out ls w)\<rparr> = out" by (simp add: timely_def)
  then show ?thesis using prompt_in_time [OF assms] by (simp add: timed_lookup_def Let_def)
qed

lemma prompt_Lookup:
  assumes "prompt tm delta" "t + 2 * delta < d" "delta < T" "0 \<le> delta"
  shows "\<exists>t'. timed_Lookup tm T (Some d) out ns podset pod el (w, t) = (Lookup out ns podset pod el w, w, t') \<and>
    t' \<le> t + 2 * delta"
proof -
  let ?one = "\<lambda>ls. lookupWithLabelSelector out ls ns podset pod el w"
  obtain t1 where t1: "timed_lookup tm T (Some d) out (''planner.ciena.io/'' @ podset @ ''=enabled'') ns podset pod el (w, t) =
      (?one (''planner.ciena.io/'' @ podset @ ''=enabled''), w, t1)" "t1 \<le> t + delta"
    using prompt_lookup [OF assms(1) _ assms(3), of t d] assms(2,4) by fastforce
  obtain t2 where t2: "timed_lookup tm T (Some d) out ''planner.ciena.io/default=enabled'' ns podset pod el (w, t1) =
      (?one ''planner.ciena.io/default=enabled'', w, t2)" "t2 \<le> t1 + delta"
    using prompt_lookup [OF assms(1) _ assms(3), of t1 d] assms(2) t1(2) by fastforce
  show ?thesis using t1 t2 assms(4) by (auto simp: timed_Lookup_def Lookup_def split: sum.split)
qed

lemma prompt_Planner:
  assumes "prompt tm delta" "t + delta < d" "delta < T" "0 \<le> delta" "Planner_BuildSchedulePlan out p w = (r, w')"
  shows "\<exists>t'. Planner_BuildSchedulePlan (timed_calls tm T (Some d) out) p (w, t) = (r, w', t') \<and> t' \<le> t + delta"
proof -
  have dial: "t < WithTimeout (Some d) T t" "t + delta < WithTimeout (Some d) T t"
    using assms(2-4) by (simp_all add: WithTimeout_def)
  have call: "\<exists>t'. await tm r' (WithTimeout (Some d) T t) late (o_BuildSchedulePlan out dns req) (w, t) = (x, u, t') \<and> t' \<le> t + delta"
    if "o_BuildSchedulePlan out dns req w = (x, u)" for r' late dns req x u
    using prompt_await [OF assms(1) dial(2), where call = "o_BuildSchedulePlan out dns req", OF that] by blast
  show ?thesis
    using assms(4,5) dial(1)
    by (auto simp: Planner_BuildSchedulePlan_def timed_calls_def Let_def dest!: call split: option.splits)
qed

lemma prompt_invoke_loop:
  assumes "prompt tm delta" "t + int (length ps) * delta < d" "delta < T" "0 \<le> delta"
    and "invoke_loop out ps draws w rs le = (r, w')"
  shows "\<exists>t'. invoke_loop (timed_calls tm T (Some d) out) ps draws (w, t) rs le = (r, w', t') \<and>
    t' \<le> t + int (length ps) * delta"
  using assms(2,5)
proof (induction ps arbitrary: t w draws rs le)
  case (Cons p ps)
  let ?rest = "int (length ps) * delta"
  have len: "int (length (p # ps)) * delta = delta + ?rest" by (simp add: algebra_simps)
  have rest: "0 \<le> ?rest" using assms(4) by simp
  obtain x w1 where x: "Planner_BuildSchedulePlan out p w = (x, w1)" by fastforce
  obtain t1 where t1: "Planner_BuildSchedulePlan (timed_calls tm T (Some d) out) p (w, t) = (x, w1, t1)" "t1 \<le> t + delta"
    using prompt_Planner [OF assms(1) _ assms(3,4) x, of t d] Cons.prems(1) len rest by fastforce
  have msg: "o_StatusMessage (timed_calls tm T (Some d) out) = o_StatusMessage out" by (simp add: timed_calls_def)
  have "t1 + ?rest < d" using Cons.prems(1) t1(2) len by simp
  note IH = Cons.IH [OF this]
  have "\<exists>t'. invoke_loop (timed_calls tm T (Some d) out) (p # ps) draws (w, t) rs le = (r, w', t') \<and> t' \<le> t1 + ?rest"
  proof (cases x)
    case (Inl e)
    then show ?thesis using IH Cons.prems(2) by (simp add: x t1(1) msg)
  next
    case (Inr as)
    then show ?thesis using IH Cons.prems(2) by (simp add: x t1(1))
  qed
  then show ?case using t1(2) unfolding len by force
qed simp

lemma prompt_Invoke:
  assumes "prompt tm delta" "t + int (length ps) * delta < d" "delta < T" "0 \<le> delta" "Invoke out ps draws w = (r, w')"
  shows "\<exists>t'. Invoke (timed_calls tm T (Some d) out) ps draws (w, t) = (r, w', t') \<and> t' \<le> t + int (length ps) * delta"
proof -
  obtain rl w1 where loop: "invoke_loop out ps draws w [] None = (rl, w1)" by fastforce
  have "w1 = w'" using assms(5) loop by (auto simp: Invoke_def split: prod.splits option.splits if_splits)
  with prompt_invoke_loop [OF assms(1-4) loop] obtain t' where
    "invoke_loop (timed_calls tm T (Some d) out) ps draws (w, t) [] None = (rl, w', t')" "t' \<le> t + int (length ps) * delta" by blast
  then show ?thesis using assms(5) loop by (auto simp: Invoke_def split: prod.splits option.splits if_splits)
qed

lemma clocked_reads:
  "trigger_Get (clocked_triggers True tk) ns podset w = trigger_Get tk ns podset w"
  "client_CheckIfPodPresent (clocked_kube tm ctx True kc) ns podset pod wt = client_CheckIfPodPresent kc ns podset pod (fst wt)"
  by (simp_all add: trigger_Get_def trigger_List_def clocked_triggers_def timely_def client_CheckIfPodPresent_def
      client_Get_def clocked_kube_def)

text \<open>A search for a node whose reads are answered in time, with what the planners and the update then do.\<close>

lemma findFit_agrees:
  assumes run: "plugin_findFit out tk draws pod el w = (r, w')"
    and reads: "in_time tm ListTriggers (WithTimeout parent T t) t" "t1 = ends tm ListTriggers (WithTimeout parent T t) t"
      "in_time tm GetPlan (WithTimeout parent T t1) t1" "t2 = ends tm GetPlan (WithTimeout parent T t1) t1"
    and look: "timed_Lookup tm T parent out (pod_Namespace pod) (getPodSet pod) (pod_Name pod) el (w, t2) =
      (Lookup out (pod_Namespace pod) (getPodSet pod) (pod_Name pod) el w, w, t3)"
    and inv: "\<And>planners x w1. Lookup out (pod_Namespace pod) (getPodSet pod) (pod_Name pod) el w = Inr planners \<Longrightarrow>
      Invoke out planners draws w = (x, w1) \<Longrightarrow> Invoke (timed_calls tm T parent out) planners draws (w, t3) = (x, w1, t4 planners)"
    and upd: "\<And>planners as w1 e w2. Lookup out (pod_Namespace pod) (getPodSet pod) (pod_Name pod) el w = Inr planners \<Longrightarrow>
      service_Update out pod (getPodSet pod) as w1 = (e, w2) \<Longrightarrow>
      \<exists>t5. timed_service_Update tm T parent out pod (getPodSet pod) as (w1, t4 planners) = (e, w2, t5)"
  shows "\<exists>t'. timed_findFit tm T parent out tk draws pod el (w, t) = (r, w', t')"
proof (cases "Lookup out (pod_Namespace pod) (getPodSet pod) (pod_Name pod) el w")
  case (Inl e)
  then show ?thesis
    using run look
    by (auto simp: timed_findFit_def plugin_findFit_def reads(1,3) reads(2,4) [symmetric] clocked_reads Let_def
        split: sum.splits option.splits if_splits)
next
  case (Inr planners)
  obtain x w1 where x: "Invoke out planners draws w = (x, w1)" by fastforce
  note facts = timed_findFit_def plugin_findFit_def reads(1,3) reads(2,4) [symmetric] clocked_reads look Inr x inv [OF Inr x] Let_def
  show ?thesis
  proof (cases x)
    case (Inl e)
    then show ?thesis using run by (auto simp: facts split: sum.splits option.splits if_splits)
  next
    case x: (Inr as)
    obtain e w2 where e: "service_Update out pod (getPodSet pod) as w1 = (e, w2)" by fastforce
    obtain t5 where t5: "timed_service_Update tm T parent out pod (getPodSet pod) as (w1, t4 planners) = (e, w2, t5)"
      using upd [OF Inr e] by blast
    show ?thesis using run by (auto simp: facts x e t5 split: sum.splits option.splits if_splits)
  qed
qed

lemma prompt_findFit:
  assumes tm: "prompt tm delta" "0 \<le> delta" "2 * delta < T" "t + (6 + int n) * delta < d"
    and planners: "\<And>planners. Lookup out (pod_Namespace pod) (getPodSet pod) (pod_Name pod) el w = Inr planners \<Longrightarrow> length planners \<le> n"
    and run: "plugin_findFit out tk draws pod el w = (r, w')"
  shows "\<exists>t'. timed_findFit tm T (Some d) out tk draws pod el (w, t) = (r, w', t')"
proof -
  let ?ns = "pod_Namespace pod" and ?ps = "getPodSet pod"
  define t1 where "t1 = ends tm ListTriggers (WithTimeout (Some d) T t) t"
  define t2 where "t2 = ends tm GetPlan (WithTimeout (Some d) T t1) t1"
  have all: "t + 6 * delta + int n * delta < d" "0 \<le> int n * delta" using tm(2,4) by (simp_all add: algebra_simps)
  have trig: "in_time tm ListTriggers (WithTimeout (Some d) T t) t" "t1 \<le> t + delta"
    unfolding t1_def by (rule prompt_in_time [OF tm(1)]; use all tm(2,3) in linarith)+
  have get: "in_time tm GetPlan (WithTimeout (Some d) T t1) t1" "t2 \<le> t1 + delta"
    unfolding t2_def by (rule prompt_in_time [OF tm(1)]; use trig(2) all tm(2,3) in linarith)+
  have time: "t2 + 2 * delta < d" "delta < T" using trig(2) get(2) all tm(2,3) by linarith+
  obtain t3 where look: "timed_Lookup tm T (Some d) out ?ns ?ps (pod_Name pod) el (w, t2) =
      (Lookup out ?ns ?ps (pod_Name pod) el w, w, t3)" "t3 \<le> t2 + 2 * delta"
    using prompt_Lookup [OF tm(1) time tm(2), of out ?ns ?ps "pod_Name pod" el w] by blast
  define t4 where "t4 planners = snd (snd (Invoke (timed_calls tm T (Some d) out) planners draws (w, t3)))" for planners
  have inv: "Invoke (timed_calls tm T (Some d) out) planners draws (w, t3) = (x, w1, t4 planners) \<and> t4 planners \<le> t3 + int n * delta"
    if "Lookup out ?ns ?ps (pod_Name pod) el w = Inr planners" "Invoke out planners draws w = (x, w1)" for planners x w1
  proof -
    have le: "int (length planners) * delta \<le> int n * delta" using planners [OF that(1)] tm(2) by (simp add: mult_right_mono)
    then have "t3 + int (length planners) * delta < d" using look(2) trig(2) get(2) all tm(2) by linarith
    from prompt_Invoke [OF tm(1) this time(2) tm(2) that(2)] show ?thesis using le by (auto simp: t4_def)
  qed
  show ?thesis
  proof (rule findFit_agrees [OF run trig(1) t1_def get(1) t2_def look(1)])
    fix planners as w1 e w2
    assume l: "Lookup out ?ns ?ps (pod_Name pod) el w = Inr planners" and u: "service_Update out pod ?ps as w1 = (e, w2)"
    have "t4 planners \<le> t3 + int n * delta" using inv [OF l] by (metis prod.exhaust)
    then have "t4 planners + 2 * delta < d" using look(2) trig(2) get(2) all by linarith
    from prompt_service_Update [OF tm(1) this tm(3,2) u]
    show "\<exists>t5. timed_service_Update tm T (Some d) out pod ?ps as (w1, t4 planners) = (e, w2, t5)" .
  qed (use inv in blast)
qed

lemma prompt_PreScore:
  assumes "prompt tm delta" "0 \<le> delta" "(6 + int n) * delta < 2 * T" "T < 2 ^ 62"
    and "\<forall>planners. Lookup out (pod_Namespace pod) (getPodSet pod) (pod_Name pod) (map node_Name nodes) w = Inr planners \<longrightarrow>
      length planners \<le> n"
    and "PreScore out tk draws pod nodes (state, w) = (st, state', w')"
  shows "\<exists>t'. timed_PreScore tm T None out tk draws pod nodes (state, w, t) = (st, state', w', t')"
proof -
  let ?ctx = "WithTimeout None (double_timeout T) t"
  have "0 \<le> int n * delta" "6 * delta + int n * delta < 2 * T" using assms(2,3) by (simp_all add: algebra_simps)
  then have T: "2 * delta < T" using assms(2) by linarith
  have "double_timeout T = 2 * T" using T assms(2,4) by (intro double_timeout_exact) simp_all
  then have d: "t + (6 + int n) * delta < ?ctx" using assms(3) by (simp add: WithTimeout_def)
  obtain r w1 where fit: "plugin_findFit out tk draws pod (map node_Name nodes) w = (r, w1)" by fastforce
  obtain t1 where t1: "timed_findFit tm T (Some ?ctx) out tk draws pod (map node_Name nodes) (w, t) = (r, w1, t1)"
    using prompt_findFit [OF assms(1,2) T d _ fit] assms(5) by blast
  show ?thesis
    using assms(6)
    by (cases r; cases "nodes = []")
      (auto simp: timed_PreScore_def PreScore_def timed_createAssignmentState_def createAssignmentState_def fit t1 Let_def
        split: if_splits)
qed

text \<open>
  C19: deadlines change nothing when requests are answered in time. If every request takes at most \<open>delta\<close>, and the
  eight requests of a scheduling with two planners, or one more for each further planner, fit into twice the
  call timeout, which does not overflow, then \<^verbatim>\<open>PreScore\<close> under its contexts gives the result, the cycle state and the world that theory
  Plugin computes without time.
\<close>

theorem PreScore_in_time:
  assumes "prompt tm delta" "0 \<le> delta" "(6 + int n) * delta < 2 * T" "T < 2 ^ 62"
    and "\<forall>planners. Lookup out (pod_Namespace pod) (getPodSet pod) (pod_Name pod) (map node_Name nodes) w = Inr planners \<longrightarrow>
      length planners \<le> n"
    and "PreScore out tk draws pod nodes (state, w) = (st, state', w')"
  shows "\<exists>t'. timed_PreScore tm T None out tk draws pod nodes (state, w, t) = (st, state', w', t')"
  using assms by (rule prompt_PreScore)

text \<open>The world of the examples, with an answer to every request after a millisecond.\<close>

definition ex_timing :: timing where
  "ex_timing = \<lparr>how_long = (\<lambda>_ _. 1000000), lands = (\<lambda>_ _. False)\<rparr>"

lemma ex_prompt: "prompt ex_timing 1000000"
  by (simp add: prompt_def ex_timing_def)

lemma ex_timed_PreScore:
  "\<exists>w' t'. timed_PreScore ex_timing 15000000000 None ex_out ex_triggers [] ex_member [ex_node ''n7''] (Map.empty, ex_w ''Schedule'', 0) =
     (NewStatus Success [], [plannerAssignmentStateKey \<mapsto> AssignmentData ''n7''], w', t')"
proof -
  obtain w1 where run: "PreScore ex_out ex_triggers [] ex_member [ex_node ''n7''] (Map.empty, ex_w ''Schedule'') =
     (NewStatus Success [], [plannerAssignmentStateKey \<mapsto> AssignmentData ''n7''], w1)"
    using ex_PreScore by blast
  from prompt_PreScore [OF ex_prompt _ _ _ _ run, of 1 15000000000 0] show ?thesis
    by (simp add: Lookup_def lookupWithLabelSelector_def ex_out_def) blast
qed

theorem PreScore_in_time_witness:
  "\<exists>w' t'. timed_PreScore ex_timing 15000000000 None ex_out ex_triggers [] ex_member [ex_node ''n7''] (Map.empty, ex_w ''Schedule'', 0) =
     (NewStatus Success [], [plannerAssignmentStateKey \<mapsto> AssignmentData ''n7''], w', t')"
proof -
  obtain w1 where run: "PreScore ex_out ex_triggers [] ex_member [ex_node ''n7''] (Map.empty, ex_w ''Schedule'') =
     (NewStatus Success [], [plannerAssignmentStateKey \<mapsto> AssignmentData ''n7''], w1)"
    using ex_PreScore by blast
  from PreScore_in_time [OF ex_prompt _ _ _ _ run, of 1 15000000000 0] show ?thesis
    by (simp add: Lookup_def lookupWithLabelSelector_def ex_out_def) blast
qed

section \<open>What a success means\<close>

lemma await_written:
  assumes "written plans w (call w) m"
  shows "written (\<lambda>wt. plans (fst wt)) (w, t) (await tm r ctx (Some e) call (w, t)) m"
  using assms by (auto simp: written_def await_def split: prod.splits option.splits)

lemma await_unwritten:
  assumes "fst (call w) \<noteq> None" "plans (snd (call w)) = plans w"
  shows "fst (await tm r ctx (Some e) call (w, t)) \<noteq> None"
    "plans (fst (snd (await tm r ctx (Some e) call (w, t)))) = plans w"
  using assms by (auto simp: await_def split: prod.splits)

lemma clocked_kube_ok:
  assumes "kube_ok kc plans"
  shows "kube_ok (clocked_kube tm ctx ok kc) (\<lambda>wt. plans (fst wt))"
  using assms unfolding kube_ok_def
  by (simp add: clocked_kube_def timely_def await_written await_unwritten del: not_None_eq)

lemma timed_calls_ok:
  assumes "rpc_ok out plans"
  shows "rpc_ok (timed_calls tm T parent out) (\<lambda>wt. plans (fst wt))"
  using assms unfolding rpc_ok_def
  by (fastforce simp: timed_calls_def await_def split: prod.splits if_splits sum.splits)

lemma timed_Lookup_reads: "\<exists>r t'. timed_Lookup tm T parent out ns podset pod el (w, t) = (r, w, t')"
  by (simp add: timed_Lookup_def timed_lookup_def Let_def split: sum.split)

lemma timed_findFit_planned:
  assumes kube: "kube_ok (o_plans out) plans" and rpc: "rpc_ok out plans" and wf: "plans_wf (plans w)"
    and run: "timed_findFit tm T parent out tk draws pod el (w, t) = (Inr node, w', t')"
  shows "planned (plans w') (pod_Namespace pod) (getPodSet pod) (pod_Name pod) = Some node"
proof -
  let ?ns = "pod_Namespace pod" and ?ps = "getPodSet pod"
  define t1 where "t1 = ends tm ListTriggers (WithTimeout parent T t) t"
  define t2 where "t2 = ends tm GetPlan (WithTimeout parent T t1) t1"
  define kc where "kc = clocked_kube tm (WithTimeout parent T t1) (in_time tm GetPlan (WithTimeout parent T t1) t1) (o_plans out)"
  obtain r3 t3 where look: "timed_Lookup tm T parent out ?ns ?ps (pod_Name pod) el (w, t2) = (r3, w, t3)"
    using timed_Lookup_reads [of tm T parent out ?ns ?ps "pod_Name pod" el w t2] by blast
  note facts = timed_findFit_def t1_def [symmetric] t2_def [symmetric] kc_def [symmetric] look Let_def
  consider (kept) e where "client_CheckIfPodPresent kc ?ns ?ps (pod_Name pod) (w, t2) = Inr (Some e)"
      "node = ps_Node e" "w' = w"
    | (asked) planners as wt4 where "Invoke (timed_calls tm T parent out) planners draws (w, t3) = (Inr as, wt4)"
      "map_of as (pod_Name pod) = Some node" "timed_service_Update tm T parent out pod ?ps as wt4 = (None, w', t')"
    using run by (auto simp: facts split: sum.splits option.splits if_splits prod.splits)
  then show ?thesis
  proof cases
    case kept
    from client_CheckIfPodPresent_planned [OF clocked_kube_ok [OF kube] kept(1) [unfolded kc_def]] kept(2,3)
    show ?thesis by simp
  next
    case asked
    have "plans_wf (plans (fst (w, t3)))" using wf by simp
    note inv = Invoke_ok [OF timed_calls_ok [OF rpc] this asked(1)]
    obtain w4 t4 where wt4: "wt4 = (w4, t4)" by fastforce
    obtain ctx ok u where upd: "client_Update (clocked_kube tm ctx ok (o_plans out)) ?ns ?ps as (w4, u) = (None, w', t')"
      using asked(3) by (auto simp: timed_service_Update_def timed_plan_op_def wt4 Let_def)
    have "plans_wf (plans (fst (w4, u)))" using inv(1) by (simp add: wt4)
    from Update_effect [OF clocked_kube_ok [OF kube] this inv(2) upd]
    have "map_of as \<subseteq>\<^sub>m planned (plans (fst (w', t'))) ?ns ?ps" by blast
    with asked(2) show ?thesis by (auto simp: map_le_def dom_def)
  qed
qed

text \<open>
  C18: a success is never the result of a missed deadline. Whichever requests of \<^verbatim>\<open>PreScore\<close> expire, and whether or not
  those are carried out all the same, when it reports success and has put a node into the cycle state, the
  stored plan has the pod on that node.
\<close>

theorem timed_PreScore_truthful:
  assumes "kube_ok (o_plans out) plans" "rpc_ok out plans" "plans_wf (plans w)"
    and "state plannerAssignmentStateKey = None"
    and "timed_PreScore tm T parentCtx out tk draws pod nodes (state, w, t) = (st, state', w', t')" "IsSuccess st"
    and "getAssignmentState state' = Inr node"
  shows "planned (plans w') (pod_Namespace pod) (getPodSet pod) (pod_Name pod) = Some node"
proof -
  have "timed_findFit tm T (Some (WithTimeout parentCtx (double_timeout T) t)) out tk draws pod (map node_Name nodes) (w, t) = (Inr node, w', t')"
    using assms(4-7)
    by (auto simp: timed_PreScore_def timed_createAssignmentState_def getAssignmentState_def Let_def
        split: if_splits prod.splits sum.splits)
  from timed_findFit_planned [OF assms(1-3) this] show ?thesis .
qed

text \<open>A planner that is slow but in time, and a world in which the plan is written.\<close>

theorem timed_PreScore_truthful_witness:
  "\<exists>w' t'. timed_PreScore ex_timing 15000000000 None ex_out ex_triggers [] ex_member [ex_node ''n7''] (Map.empty, ex_w ''Schedule'', 0) =
     (NewStatus Success [], [plannerAssignmentStateKey \<mapsto> AssignmentData ''n7''], w', t') \<and>
     planned (map_of (w_plans w')) ''ns'' ''web'' ''a'' = Some ''n7''"
proof -
  obtain w' t' where run: "timed_PreScore ex_timing 15000000000 None ex_out ex_triggers [] ex_member [ex_node ''n7'']
      (Map.empty, ex_w ''Schedule'', 0) = (NewStatus Success [], [plannerAssignmentStateKey \<mapsto> AssignmentData ''n7''], w', t')"
    using ex_timed_PreScore by blast
  from timed_PreScore_truthful [OF ex_out_ok _ run] run show ?thesis by (simp add: getAssignmentState_def)
qed

section \<open>Planners that hang\<close>

text \<open>Under a context that has expired every planner fails at once.\<close>

lemma expired_planners:
  "d \<le> t \<Longrightarrow> \<exists>rs. ask_all (timed_calls tm T (Some d) out) ps (w, t) = (rs, w, t) \<and> answers rs = []"
proof (induction ps)
  case (Cons p ps)
  then obtain rs where "ask_all (timed_calls tm T (Some d) out) ps (w, t) = (rs, w, t)" "answers rs = []" by blast
  moreover have "\<exists>e. Planner_BuildSchedulePlan (timed_calls tm T (Some d) out) p (w, t) = (Inl e, w, t)"
    using Cons.prems by (simp add: Planner_BuildSchedulePlan_def timed_calls_def WithTimeout_def Let_def)
  ultimately show ?case by auto
qed simp

definition planner_dns :: "Service \<Rightarrow> string" where
  "planner_dns svc = svc_Name svc @ ''.'' @ svc_Namespace svc @ ''.svc.cluster.local:7309''"

definition hangs :: "timing \<Rightarrow> int \<Rightarrow> 'w outside \<Rightarrow> Service \<Rightarrow> bool" where
  "hangs tm T out svc \<longleftrightarrow>
     (\<forall>t. T \<le> int (how_long tm (CallPlanner (planner_dns svc)) t)) \<and> (\<forall>w. o_DialContext out (planner_dns svc) w = None)"

lemma hung_planner:
  assumes "hangs tm T out (pl_Service p)" "t < d" "0 < T"
  shows "\<exists>e w'. Planner_BuildSchedulePlan (timed_calls tm T (Some d) out) p (w, t) = (Inl e, w', min d (t + T))"
proof -
  let ?dns = "planner_dns (pl_Service p)" and ?ctx = "WithTimeout (Some d) T t"
  have dial: "o_DialContext (timed_calls tm T (Some d) out) ?dns (w, t) = None"
    using assms by (simp add: timed_calls_def hangs_def WithTimeout_def)
  have "\<not> in_time tm (CallPlanner ?dns) ?ctx t" "ends tm (CallPlanner ?dns) ?ctx t = min d (t + T)"
  proof -
    have "T \<le> int (how_long tm (CallPlanner ?dns) t)" using assms(1) by (simp add: hangs_def)
    then show "\<not> in_time tm (CallPlanner ?dns) ?ctx t" by (simp add: in_time_def WithTimeout_def)
    then show "ends tm (CallPlanner ?dns) ?ctx t = min d (t + T)" using assms(2,3) by (simp add: ends_def WithTimeout_def)
  qed
  then have call: "\<exists>w'. o_BuildSchedulePlan (timed_calls tm T (Some d) out) ?dns req (w, t) = (Inl DeadlineExceeded, w', min d (t + T))" for req
    by (cases "o_BuildSchedulePlan out ?dns req w") (simp add: timed_calls_def await_def)
  have "Planner_BuildSchedulePlan (timed_calls tm T (Some d) out) p (w, t) =
      o_BuildSchedulePlan (timed_calls tm T (Some d) out) ?dns
        \<lparr>req_Namespace = pl_Namespace p, req_PodSet = pl_Podset p, req_ScheduledPod = pl_ScheduledPod p,
         req_EligibleNodes = pl_EligibleNodes p\<rparr> (w, t)"
    using dial by (simp add: Planner_BuildSchedulePlan_def planner_dns_def Let_def)
  then show ?thesis using call by metis
qed

lemma two_hung_planners:
  assumes "hangs tm T out (pl_Service p)" "hangs tm T out (pl_Service q)" "t \<le> u" "u < t + T" "0 < T"
  shows "\<exists>e w'. Invoke (timed_calls tm T (Some (t + 2 * T)) out) (p # q # ps) draws (w, u) = (Inl e, w', t + 2 * T) \<and>
    errors_is e ErrBuildingPlan"
proof -
  let ?out = "timed_calls tm T (Some (t + 2 * T)) out"
  obtain e1 w1 where e1: "Planner_BuildSchedulePlan ?out p (w, u) = (Inl e1, w1, u + T)"
    using hung_planner [OF assms(1), of u "t + 2 * T" w] assms(4,5) by auto
  obtain e2 w2 where e2: "Planner_BuildSchedulePlan ?out q (w1, u + T) = (Inl e2, w2, t + 2 * T)"
    using hung_planner [OF assms(2), of "u + T" "t + 2 * T" w1] assms(3-5) by auto
  obtain rs where rs: "ask_all ?out ps (w2, t + 2 * T) = (rs, w2, t + 2 * T)" "answers rs = []"
    using expired_planners [of "t + 2 * T" "t + 2 * T" tm T out ps w2] by blast
  have all: "ask_all ?out (p # q # ps) (w, u) = (Inl e1 # Inl e2 # rs, w2, t + 2 * T)" by (simp add: e1 e2 rs(1))
  show ?thesis
    using Invoke_answers [of ?out "p # q # ps" draws "(w, u)"] rs(2) unfolding all
    by (cases "Invoke ?out (p # q # ps) draws (w, u)") (auto split: sum.splits)
qed

text \<open>The requests to the API server take less than a third of the call timeout each.\<close>

definition server_quick :: "timing \<Rightarrow> int \<Rightarrow> bool" where
  "server_quick tm T \<longleftrightarrow> (\<forall>r t. (\<forall>dns. r \<noteq> CallPlanner dns) \<longrightarrow> 3 * int (how_long tm r t) < T)"

lemma quick_read:
  assumes "server_quick tm T" "\<forall>dns. r \<noteq> CallPlanner dns" "t + T \<le> d"
  shows "in_time tm r (WithTimeout (Some d) T t) t"
    "t \<le> ends tm r (WithTimeout (Some d) T t) t" "3 * (ends tm r (WithTimeout (Some d) T t) t - t) < T"
proof -
  have "3 * int (how_long tm r t) < T" using assms(1,2) by (simp add: server_quick_def)
  then show "in_time tm r (WithTimeout (Some d) T t) t"
    "t \<le> ends tm r (WithTimeout (Some d) T t) t" "3 * (ends tm r (WithTimeout (Some d) T t) t - t) < T"
    using assms(3) by (simp_all add: ends_def in_time_def WithTimeout_def)
qed

text \<open>
  C36: two planners that hang keep a pod from being scheduled, however many others serve its set. \<^verbatim>\<open>Invoke\<close> asks the
  planners one after the other and goes on when one fails, but all of them share the context of
  \<^verbatim>\<open>PreScore\<close>, of twice the call timeout: when the first two services of the list accept the connection and do not
  answer within the call timeout, the context has expired before the third is asked, and the pod is
  unschedulable, with all that time spent.
\<close>

theorem two_hung_planners_block_pod:
  assumes "0 < T" "server_quick tm T" "nodes \<noteq> []" "getPodSet pod \<noteq> ''''"
    and "trigger_Get tk (pod_Namespace pod) (getPodSet pod) w = Inr trigger" "trig_State trigger = ''Schedule''"
    and "\<forall>e. client_CheckIfPodPresent (o_plans out) (pod_Namespace pod) (getPodSet pod) (pod_Name pod) w \<noteq> Inr (Some e)"
    and "o_ListServices out (''planner.ciena.io/'' @ getPodSet pod @ ''=enabled'') w = Inr (svc1 # svc2 # svcs)"
    and "hangs tm T out svc1" "hangs tm T out svc2" "T < 2 ^ 62"
  shows "\<exists>w'. timed_PreScore tm T None out tk draws pod nodes (state, w, t) = (NewStatus Unschedulable [], state, w', t + 2 * T)"
proof -
  let ?ns = "pod_Namespace pod" and ?ps = "getPodSet pod" and ?el = "map node_Name nodes" and ?d = "t + 2 * T"
  let ?ls = "''planner.ciena.io/'' @ ?ps @ ''=enabled''"
  define t1 where "t1 = ends tm ListTriggers (WithTimeout (Some ?d) T t) t"
  define t2 where "t2 = ends tm GetPlan (WithTimeout (Some ?d) T t1) t1"
  define t3 where "t3 = ends tm (ListServices ?ls) (WithTimeout (Some ?d) T t2) t2"
  note quick = quick_read [OF assms(2), of _ _ ?d]
  have r1: "in_time tm ListTriggers (WithTimeout (Some ?d) T t) t" "t \<le> t1" "3 * (t1 - t) < T"
    unfolding t1_def by (rule quick; use assms(1) in simp)+
  have r2: "in_time tm GetPlan (WithTimeout (Some ?d) T t1) t1" "t1 \<le> t2" "3 * (t2 - t1) < T"
    unfolding t2_def by (rule quick; use assms(1) r1 in simp)+
  have r3: "in_time tm (ListServices ?ls) (WithTimeout (Some ?d) T t2) t2" "t2 \<le> t3" "3 * (t3 - t2) < T"
    unfolding t3_def by (rule quick; use assms(1) r1 r2 in simp)+
  define planner where "planner svc = \<lparr>pl_Service = svc, pl_Namespace = ?ns, pl_Podset = ?ps, pl_ScheduledPod = pod_Name pod,
    pl_EligibleNodes = ?el\<rparr>" for svc
  have look: "timed_Lookup tm T (Some ?d) out ?ns ?ps (pod_Name pod) ?el (w, t2) =
      (Inr (planner svc1 # planner svc2 # map planner svcs), w, t3)"
    using assms(8) r3(1) by (simp add: timed_Lookup_def timed_lookup_def lookupWithLabelSelector_def timely_def t3_def planner_def Let_def)
  have "hangs tm T out (pl_Service (planner svc1))" "hangs tm T out (pl_Service (planner svc2))" "t \<le> t3" "t3 < t + T"
    using assms(9,10) r1 r2 r3 by (simp_all add: planner_def)
  from two_hung_planners [OF this assms(1)] obtain e w' where
    inv: "Invoke (timed_calls tm T (Some ?d) out) (planner svc1 # planner svc2 # map planner svcs) draws (w, t3) = (Inl e, w', ?d)"
      "errors_is e ErrBuildingPlan" by blast
  have "timed_findFit tm T (Some ?d) out tk draws pod ?el (w, t) = (Inl e, w', ?d)"
    using assms(4-7) look inv(1) r1(1) r2(1)
    by (auto simp: timed_findFit_def clocked_reads t1_def [symmetric] t2_def [symmetric] Let_def split: sum.split option.split)
  moreover have "errors_is e s \<longleftrightarrow> s = ErrBuildingPlan" for s
    using inv(2) by (induction e) auto
  ultimately show ?thesis
    using assms(3) by (simp add: timed_PreScore_def timed_createAssignmentState_def WithTimeout_def double_timeout_exact [OF assms(1,11)] Let_def)
qed

text \<open>Three planners, of which only the last one answers.\<close>

definition ex_svc :: "string \<Rightarrow> Service" where
  "ex_svc name = \<lparr>svc_Name = name, svc_Namespace = ''kube-system''\<rparr>"

definition ex_three_planners :: "ex_world outside" where
  "ex_three_planners = ex_out\<lparr>o_ListServices := (\<lambda>_ _. Inr [ex_svc ''p1'', ex_svc ''p2'', ex_svc ''planner''])\<rparr>"

definition ex_hung :: timing where
  "ex_hung = \<lparr>how_long = (\<lambda>r _. if r \<in> {CallPlanner (planner_dns (ex_svc ''p1'')), CallPlanner (planner_dns (ex_svc ''p2''))}
     then 60000000000 else 1000000), lands = (\<lambda>_ _. False)\<rparr>"

theorem two_hung_planners_block_pod_witness:
  "\<exists>w'. timed_PreScore ex_hung 15000000000 None ex_three_planners ex_triggers [] ex_member [ex_node ''n7'']
     (Map.empty, (ex_w ''Schedule'')\<lparr>w_plans := []\<rparr>, 0) = (NewStatus Unschedulable [], Map.empty, w', 30000000000)"
proof -
  let ?w = "(ex_w ''Schedule'')\<lparr>w_plans := []\<rparr>"
  have "trigger_Get ex_triggers ''ns'' ''web'' ?w = Inr (ex_trigger ''Schedule'')"
    by (simp add: ex_triggers_def lift_trigger_Get ex_w_def ex_trigger_Get)
  moreover have "client_CheckIfPodPresent (o_plans ex_three_planners) ''ns'' ''web'' ''a'' ?w \<noteq> Inr (Some e)" for e
    by (simp add: client_CheckIfPodPresent_def client_Get_def ex_three_planners_def ex_out_def lift_kube_def map_kube_def)
  moreover have "hangs ex_hung 15000000000 ex_three_planners (ex_svc ''p1'')" "hangs ex_hung 15000000000 ex_three_planners (ex_svc ''p2'')"
    by (simp_all add: hangs_def ex_hung_def ex_three_planners_def ex_out_def)
  moreover have "server_quick ex_hung 15000000000" by (auto simp: server_quick_def ex_hung_def)
  ultimately show ?thesis
    using two_hung_planners_block_pod [of 15000000000 ex_hung "[ex_node ''n7'']" ex_member ex_triggers ?w "ex_trigger ''Schedule''"
        ex_three_planners "ex_svc ''p1''" "ex_svc ''p2''" "[ex_svc ''planner'']" "[]" Map.empty 0]
    by (simp add: ex_three_planners_def ex_trigger_def)
qed

end
