(* ===== verification/System.thy ===== *)
theory System
  imports PluginStart CycleStates PlanRaces Executables Informers ResourceLists DeepCopy PlannerLock Removal Deadlines
begin

text \<open>
  The parts put together: the plugin's calls to a planner are answered by the planner service of
  theory Planner, on a world that has the plan objects, the triggers and the planner's
  remembered assignments. The network in between is taken to deliver.
\<close>

section \<open>The planner service behind the plugin's calls\<close>

definition system_outside ::
  "PredicateHandler \<Rightarrow> (string \<Rightarrow> string \<Rightarrow> err + Pod list) \<Rightarrow> err + Node list \<Rightarrow> (Pod \<Rightarrow> plan_env) \<Rightarrow>
     (string \<Rightarrow> err + Service list) \<Rightarrow> 'p kube \<Rightarrow> ('p, 't) world outside" where
  "system_outside ph listPods nodeLister envs services kc =
     \<lparr>o_plans = world_plans kc,
      o_ListServices = (\<lambda>labelSelector w. services labelSelector),
      o_DialContext = (\<lambda>dns w. None),
      o_BuildSchedulePlan = (\<lambda>dns req w.
        case APIServer_BuildSchedulePlan ph listPods nodeLister envs req (w_assigned w) of
          (Inl msg, m) \<Rightarrow> (Inl (External msg), w\<lparr>w_assigned := m\<rparr>)
        | (Inr as, m) \<Rightarrow> (Inr as, w\<lparr>w_assigned := m\<rparr>)),
      o_StatusMessage = err_Error\<rparr>"

text \<open>The planner service keeps the contract that the plugin relies on.\<close>

lemma system_rpc_ok:
  "rpc_ok (system_outside ph listPods lister envs services kc) (\<lambda>w. plans (w_plans w))"
  by (auto simp: rpc_ok_def system_outside_def APIServer_BuildSchedulePlan_def
      split: prod.splits sum.splits dest: BuildSchedulePlan_distinct)

lemma system_kube_ok:
  "kube_ok kc plans \<Longrightarrow>
     kube_ok (o_plans (system_outside ph listPods lister envs services kc)) (\<lambda>w. plans (w_plans w))"
  by (simp add: system_outside_def world_plans_ok)

lemma lift_kube_serves:
  "kube_serves kc plans \<Longrightarrow> kube_serves (world_plans kc) (\<lambda>w. plans (w_plans w))"
  by (simp add: kube_serves_def lift_kube_def lift_write_def case_prod_beta)

section \<open>The calls over the wire\<close>

text \<open>
  The same outside, but with the plugin's call going through the generated client stub, the
  encoding of messages and the server that \<^verbatim>\<open>Run\<close> has started. The message of a failed call is
  the message of its status.
\<close>

definition wire_outside ::
  "(wire_error \<Rightarrow> string) \<Rightarrow> assignments grpc_server \<Rightarrow> ('p, 't) world outside \<Rightarrow> ('p, 't) world outside" where
  "wire_outside wire_text gs out =
     out\<lparr>o_BuildSchedulePlan := (\<lambda>dns req w.
       case schedulePlannerClient_BuildSchedulePlan wire_text gs req (w_assigned w) of
         (Inl st, m) \<Rightarrow> (Inl (External (rs_Message st)), w\<lparr>w_assigned := m\<rparr>)
       | (Inr as, m) \<Rightarrow> (Inr as, w\<lparr>w_assigned := m\<rparr>))\<rparr>"

text \<open>
  C20: the plugin's remote call is refined by the implementation behind it: whatever the state of
  the planner, the call through stubs, wire format and server gives the plugin the plan, or the
  error text, that the planner's own method gives, and leaves the planner in the same state, when
  the request and the plan can be sent.
\<close>

theorem planner_call_over_wire:
  assumes run: "APIServer_Run listener address (APIServer_service ph listPods lister envs) = Serving gs"
    and req: "sendable_request req"
    and plan: "\<forall>as m. APIServer_BuildSchedulePlan ph listPods lister envs req (w_assigned w) = (Inr as, m) \<longrightarrow>
      sendable_response as"
    and out: "out = system_outside ph listPods lister envs services kc"
  shows "o_BuildSchedulePlan (wire_outside wire_text gs out) dns req w = o_BuildSchedulePlan out dns req w"
proof -
  obtain res m where call: "APIServer_BuildSchedulePlan ph listPods lister envs req (w_assigned w) = (res, m)"
    by fastforce
  define res' where "res' = (case res of Inl msg \<Rightarrow> Inl \<lparr>rs_Code = Internal, rs_Message = msg\<rparr> | Inr as \<Rightarrow> Inr as)"
  have svc: "APIServer_service ph listPods lister envs req (w_assigned w) = (res', m)"
    by (simp add: APIServer_service_def call res'_def split: sum.split)
  have ans: "\<forall>as. res' = Inr as \<longrightarrow> sendable_response as \<and> distinct (map fst as)"
    using plan call
    by (auto simp: res'_def APIServer_BuildSchedulePlan_def split: sum.splits prod.splits dest: BuildSchedulePlan_distinct)
  show ?thesis
    unfolding wire_outside_def remote_call_direct [OF run req svc ans]
    by (simp add: out system_outside_def call res'_def remote_call_direct [OF run req svc ans] split: sum.split)
qed

definition ex_planner_server :: "assignments grpc_server" where
  "ex_planner_server = \<lparr>gs_serving = True, gs_services =
     [''planner.SchedulePlanner'' \<mapsto> (APIServer_service ex_ph (\<lambda>_ _. Inr [ex_pod ''a''])
        (Inr [ex_node ''n1'', ex_node ''n2'']) (\<lambda>_. ex_env), [''BuildSchedulePlan'' \<mapsto> BuildSchedulePlan_Handler]),
      ''grpc.reflection.v1alpha.ServerReflection'' \<mapsto> (Unimplemented_BuildSchedulePlan, Map.empty)]\<rparr>"

theorem planner_call_over_wire_witness:
  "fst (o_BuildSchedulePlan (wire_outside (\<lambda>_. '''') ex_planner_server
       (system_outside ex_ph (\<lambda>_ _. Inr [ex_pod ''a'']) (Inr [ex_node ''n1'', ex_node ''n2'']) (\<lambda>_. ex_env)
          (\<lambda>_. Inr []) map_kube))
     ''dns'' (ex_request\<lparr>req_ScheduledPod := ''z''\<rparr>) \<lparr>w_plans = [], w_triggers = (), w_assigned = Map.empty\<rparr>) =
   Inr [(''a'', ''n2'')]"
proof -
  let ?req = "ex_request\<lparr>req_ScheduledPod := ''z''\<rparr>"
  have plan: "APIServer_BuildSchedulePlan ex_ph (\<lambda>_ _. Inr [ex_pod ''a'']) (Inr [ex_node ''n1'', ex_node ''n2''])
      (\<lambda>_. ex_env) ?req Map.empty = (Inr [(''a'', ''n2'')], [pod_key (ex_pod ''a'') \<mapsto> ''n2''])"
    using ex_BuildPlan
    by (simp add: APIServer_BuildSchedulePlan_def BuildSchedulePlan_def ex_request_def ex_pod_def Let_def swap_front_def)
  have run: "APIServer_Run (\<lambda>_. None) '':7777'' (APIServer_service ex_ph (\<lambda>_ _. Inr [ex_pod ''a''])
      (Inr [ex_node ''n1'', ex_node ''n2'']) (\<lambda>_. ex_env)) = Serving ex_planner_server"
    by (simp add: APIServer_Run_serves ex_planner_server_def)
  have "Marshal_request ?req = Inr (concat [[CHR 0x0A, CHR 0x02], ''ns'', [CHR 0x12, CHR 0x03], ''web'',
      [CHR 0x1A, CHR 0x01], ''z'', [CHR 0x22, CHR 0x02], ''n1'', [CHR 0x22, CHR 0x00]])" by code_simp
  then have req: "sendable_request ?req" by (simp add: sendable_request_def maxReceiveMessageSize_def)
  have "Marshal_response [(''a'', ''n2'')] = Inr (concat [[CHR 0x0A, CHR 0x07, CHR 0x0A, CHR 0x01], ''a'',
      [CHR 0x12, CHR 0x02], ''n2''])" by code_simp
  then have "sendable_response [(''a'', ''n2'')]" by (simp add: sendable_response_def maxReceiveMessageSize_def)
  with plan have "o_BuildSchedulePlan (wire_outside (\<lambda>_. '''') ex_planner_server
       (system_outside ex_ph (\<lambda>_ _. Inr [ex_pod ''a'']) (Inr [ex_node ''n1'', ex_node ''n2'']) (\<lambda>_. ex_env)
          (\<lambda>_. Inr []) map_kube)) ''dns'' ?req \<lparr>w_plans = [], w_triggers = (), w_assigned = Map.empty\<rparr> =
     o_BuildSchedulePlan (system_outside ex_ph (\<lambda>_ _. Inr [ex_pod ''a'']) (Inr [ex_node ''n1'', ex_node ''n2''])
          (\<lambda>_. ex_env) (\<lambda>_. Inr []) map_kube) ''dns'' ?req \<lparr>w_plans = [], w_triggers = (), w_assigned = Map.empty\<rparr>"
    by (intro planner_call_over_wire [OF run req _ refl]) simp
  then show ?thesis by (simp add: system_outside_def plan)
qed

end
