(* ===== verification/Spec2Isabelle.thy ===== *)
theory Spec2Isabelle
  imports System
begin

text \<open>
  A verification of pallet, a pod-set planner for the Kubernetes scheduler (Go module
  \<^verbatim>\<open>github.com/ciena/outbound\<close>).

  \<^bold>\<open>The program.\<close> Pods that carry the label \<^verbatim>\<open>planner.ciena.io/pod-set\<close> are scheduled
  together. A \<^verbatim>\<open>ScheduleTrigger\<close> object says whether the set may be scheduled; the trigger
  controller (\<^verbatim>\<open>controllers/planner\<close>) moves it from \<open>Planning\<close> to \<open>Schedule\<close> after a quiet
  time. The scheduler plugin (\<^verbatim>\<open>internal/pkg/scheduler\<close>) is called by the scheduling framework
  for every pod; for a pod of a set it reads the trigger, looks the pod up in the set's
  \<^verbatim>\<open>SchedulePlan\<close> object and otherwise asks a planner service over gRPC, stores the plan and
  scores the planned node highest. The planner (\<^verbatim>\<open>internal/pkg/planner\<close>) assigns nodes to all
  pods of the set with filter predicates (\<^verbatim>\<open>pkg/podpredicates\<close>) that run in a pool of workers
  (\<^verbatim>\<open>pkg/parallelize\<close>), remembers its assignments, and removes deleted pods from the plans.
  Plans and triggers are read and written through two clients (\<^verbatim>\<open>internal/pkg/client\<close>).

  \<^bold>\<open>The theories\<close>, each importing those it calls:
  \<^item> Prelude: Go maps, strings and decimal numbers; transition systems, with the locale
    \<open>invariant_system\<close>, which lifts an inductive invariant to all reachable states, and its extension
    \<open>progress_system\<close>, which reaches a goal by a decreasing measure. The first is interpreted for the timers,
    the update worker, the planner's lock and the scheduling cycles, and used for the plan races on every
    server; the second is interpreted for the end of the worker, its retries and the requests that wait for the lock.
  \<^item> Names (\<^verbatim>\<open>client/utils.go\<close>): plan names; when two of them are equal.
  \<^item> Decimal, Duration: decimal numbers, and \<^verbatim>\<open>time.ParseDuration\<close> with its overflow checks and its
    fractions in floating point, with bounds on the error.
  \<^item> Kube: Kubernetes objects with the fields that the program reads, errors, status values,
    the two custom resources.
  \<^item> Resources, ResourceLists, NodeFit (\<^verbatim>\<open>nodefit.go\<close>, \<^verbatim>\<open>helpers.go\<close>): resource requests on 64-bit
    integers, their conversion to quantities and back, and the node fit filter.
  \<^item> PredicateApi, PodConflicts (\<^verbatim>\<open>antiaffinity.go\<close>, \<^verbatim>\<open>duplicates.go\<close>, \<^verbatim>\<open>utils.go\<close>): the locale
    \<open>filter_predicate\<close>, the contract of a filter, with an interpretation for every filter and
    for all of them together; the anti-affinity and the duplicate filter.
  \<^item> Parallelizer (\<^verbatim>\<open>parallelism.go\<close> with the vendored worker pool): the pool as a transition
    system; every piece is run once, and the pool comes to rest.
  \<^item> Handler (\<^verbatim>\<open>predicate.go\<close>, \<^verbatim>\<open>registry.go\<close>): the registry, and the parallel runs of filters
    and scores, whose results do not depend on the interleaving.
  \<^item> PlanClient, TriggerClient (\<^verbatim>\<open>scheduleplan_client.go\<close>, \<^verbatim>\<open>scheduletrigger_client.go\<close>): the
    API server as a parameter; the locale \<open>plan_entries\<close> states what the list operations of
    the client do to the map from pods to nodes, and is interpreted on them; from it follow
    the effects of each operation on the stored plans, and that they stay well-formed.
  \<^item> PlanRaces: the same operations split between read and write, run by several processes at
    once on an API server that is a parameter again, with the versions of its objects: an object is sent back with
    the version it was read with, and then all operations but the deletion of a whole plan are atomic.
  \<^item> Selection, Planner (\<^verbatim>\<open>planner.go\<close>, \<^verbatim>\<open>podset_handler.go\<close>, \<^verbatim>\<open>api.go\<close>): the choice among scored
    nodes, maximal and uniform; the planning loop, its soundness, the remembered
    assignments, the service to the scheduled pod, and the removal of deleted pods with its
    retry queue.
  \<^item> UpdateWorker, Informers (\<^verbatim>\<open>planner.go\<close> with the vendored work queue and \<^verbatim>\<open>wait.Until\<close>): the queue
    with its sets and delays and the worker goroutine refine the list of retries of theory
    Planner, and stop after \<^verbatim>\<open>Stop\<close>; the informers, their handlers and which events they drop.
  \<^item> Removal (\<^verbatim>\<open>planner.go\<close>): a removal that failed is made once the API server serves again.
  \<^item> PlannerLock (\<^verbatim>\<open>planner.go\<close>): requests and events as goroutines that share the planner under its mutex;
    a plan and an event are each atomic, but a request lists the pods before it takes the lock.
  \<^item> Wire, Rpc (\<^verbatim>\<open>planner.pb.go\<close>, \<^verbatim>\<open>api.go\<close> and the vendored protobuf and gRPC code below them): the wire
    format with its round trip, the stubs, the registration of the service and \<^verbatim>\<open>Run\<close>.
  \<^item> PlannerService, Plugin, PluginStart (\<^verbatim>\<open>scheduler/planner.go\<close>, \<^verbatim>\<open>plugin.go\<close>, \<^verbatim>\<open>config.go\<close>): the calls to
    the planners, the extension points of the plugin over a cycle state and an outside world,
    and \<^verbatim>\<open>New\<close>.
  \<^item> Deadlines (\<^verbatim>\<open>plugin.go\<close>, \<^verbatim>\<open>scheduler/planner.go\<close>): the extension points with a clock and the deadlines of their
    contexts; they return in bounded time, agree with theory Plugin when requests are answered in time, and
    report no success that a missed deadline has caused.
  \<^item> CycleStates (\<^verbatim>\<open>plugin.go\<close> with the vendored cycle state): the extension points on a store of shared
    assignment states, for many cycles and their clones; they refine those of theory Plugin.
  \<^item> TriggerController (\<^verbatim>\<open>scheduletrigger_controller.go\<close>): reconciler, timers and goroutines as a
    transition system.
  \<^item> Memory, MetaCopy, DeepCopy (\<^verbatim>\<open>zz_generated.deepcopy.go\<close>, both, and apimachinery's for the metadata): pointers,
    slices and maps on an explicit memory; a locale for the contract of a copying function, interpreted for
    every generated one, down to the owner references and managed fields of the metadata.
  \<^item> Schemes (\<^verbatim>\<open>client.go\<close>, \<^verbatim>\<open>groupversion_info.go\<close>, \<^verbatim>\<open>register.go\<close>): the registration of kinds and types.
  \<^item> Version, Json, Flags, Executables (\<^verbatim>\<open>version.go\<close> in both copies, \<^verbatim>\<open>cmd\<close>, \<^verbatim>\<open>scheduleplan_controller.go\<close>):
    the version report, its JSON form, the \<^verbatim>\<open>flag\<close> package, and the three programs.
  \<^item> System: the planner of theory Planner put behind the plugin's remote call, directly and over
    the wire. This theory states the properties that span the parts.

  \<^bold>\<open>How the code is modelled.\<close> Structs are records, Go maps that are ranged over are association
  lists (so theorems hold for every iteration order), other maps are HOL maps; a function
  that can fail returns a sum whose left side is the error, with the text and the chain of
  wrapped errors that the code builds; a function with effects returns the changed state.
  Integers are kept at 64 bits where the code computes with them. Random numbers, the order
  in which workers run and the answers of the API server, of gRPC and of third-party
  functions are arguments, and what the code relies on is a named hypothesis (\<open>kube_ok\<close>,
  \<open>versioned_ok\<close>, \<open>trigger_kube_ok\<close>, \<open>rpc_ok\<close>, \<open>Until\<close>), each with a concrete instance that satisfies it. A
  write that the API server reports as failed may or may not have been applied. All loops are
  structural recursions, so there is no fuel; the worker pool, the update worker, the timers,
  the goroutines of the planner, the scheduling cycles and the concurrent clients are step
  relations, with a decreasing measure where they come to an end.

  \<^bold>\<open>Refinements\<close> connect the levels of detail: the update queue with its worker implements the
  planner's list of retries (UpdateWorker), the plugin on shared objects implements the plugin by
  value (CycleStates), and the remote call over stubs, wire format and server implements the
  planner's method (System). Interleaved writes of plans are reduced to atomic ones (PlanRaces), and
  so are interleaved requests and events of the planner (PlannerLock).

  \<^bold>\<open>What is not modelled.\<close> Log output; real time outside theory Deadlines, so when a delay, a timer or a period
  ends is left open, and the expiry of a context appears as an error of the bounded call or as a pool
  that is stopped; the caches of the informers, whose lists of nodes and events are arguments; the network
  and the cluster behind the client libraries; signals, which end a process from outside; of
  \<^verbatim>\<open>planner.pb.go\<close> the descriptors and what only reflection uses; the percent-encoding of gRPC status messages, which
  is undone by the receiver for every valid UTF-8 text. The reconciler's calls to the API server are taken to
  return, and a goroutine's receive from its quit channel, the stop of its timer and the removal of its map entry are one
  step. Other plugins of a scheduling cycle use keys of their own in the cycle state. The built-in predicates are
  kept in a fixed order where Go ranges over a map; only their conjunction is used. The square root that sizes the
  chunks of the pool is the integer square root, which agrees with the floating-point one for
  fewer than \<open>2 ^ 52\<close> nodes.
\<close>

section \<open>From the plugin to the planner\<close>

lemma CheckIfPodPresent_unplanned:
  assumes "kube_ok kc plans" and "planned (plans s) ns podset pod = None"
  shows "client_CheckIfPodPresent kc ns podset pod s \<noteq> Inr (Some e)"
  using client_CheckIfPodPresent_planned [OF assms(1), of ns podset pod s "Some e"] assms(2) by auto

lemma system_Lookup:
  assumes "services (''planner.ciena.io/'' @ podset @ ''=enabled'') = Inr [svc]"
  shows "Lookup (system_outside ph listPods lister envs services kc) ns podset pod el w =
    Inr [\<lparr>pl_Service = svc, pl_Namespace = ns, pl_Podset = podset, pl_ScheduledPod = pod,
          pl_EligibleNodes = el\<rparr>]"
  unfolding Lookup_def lookupWithLabelSelector_def system_outside_def outside.simps assms by simp

lemma system_Invoke:
  assumes "BuildSchedulePlan ph listPods lister envs (pl_Namespace p) (pl_Podset p) (pl_ScheduledPod p)
      (pl_EligibleNodes p) (w_assigned w) = (Inr as, m')"
  shows "Invoke (system_outside ph listPods lister envs services kc) [p] draws w =
    (Inr as, w\<lparr>w_assigned := m'\<rparr>)"
  using assms
  by (simp add: Invoke_def Planner_BuildSchedulePlan_def system_outside_def APIServer_BuildSchedulePlan_def
      computePlanReward_def Let_def)

text \<open>
  C1: the way of a pod through the whole program. A pending pod of a pod set whose trigger is in
  the state \<open>Schedule\<close>, which is neither planned nor remembered by the planner, which passed
  the scheduler's filters on some nodes, all of them nodes the planner plans on, is given one
  of these nodes: pre-scoring succeeds, the cycle state holds the node, and the plan object has
  the pod on it. The environment is one in which exactly one planner service has the set's label, the
  API server serves, and the runs of the worker pool are not cut short.
\<close>

theorem scheduled_pod_is_placed:
  fixes w :: "('p, 't) world"
  assumes kube: "kube_ok kc plans" "kube_serves kc plans" "plans_wf (plans (w_plans w))"
    and trigger: "getPodSet pod \<noteq> ''''" "trigger_Get tk (pod_Namespace pod) (getPodSet pod) w = Inr t"
      "trig_State t = ''Schedule''"
    and services: "services (''planner.ciena.io/'' @ getPodSet pod @ ''=enabled'') = Inr [svc]"
    and pods: "listPods (pod_Namespace pod) (''planner.ciena.io/pod-set='' @ getPodSet pod) = Inr items"
      "distinct (map pod_Name items)" "pod \<in> set items" "active pod" "pod_HostIP pod = ''''"
    and fresh: "planned (plans (w_plans w)) (pod_Namespace pod) (getPodSet pod) (pod_Name pod) = None"
      "w_assigned w (pod_key pod) = None"
    and nodes: "getEligibleNodes lister = Inr nodes" "eligible \<noteq> []"
      "node_Name ` set eligible \<subseteq> node_Name ` set nodes"
    and pool: "runs_complete ph (envs pod)" "0 < parallelism ph"
  shows "\<exists>node w'. PreScore (system_outside ph listPods lister envs services kc) tk draws pod eligible (state, w) =
      (NewStatus Success [], state(plannerAssignmentStateKey \<mapsto> AssignmentData node), w') \<and>
    node \<in> node_Name ` set eligible \<and>
    planned (plans (w_plans w')) (pod_Namespace pod) (getPodSet pod) (pod_Name pod) = Some node"
proof -
  let ?out = "system_outside ph listPods lister envs services kc :: ('p, 't) world outside"
  let ?ns = "pod_Namespace pod" and ?ps = "getPodSet pod" and ?el = "map node_Name eligible"
  let ?plans = "\<lambda>w. plans (w_plans w)"
  note ok = system_kube_ok [OF kube(1), of ph listPods lister envs services]
  have absent: "client_CheckIfPodPresent (o_plans ?out) ?ns ?ps (pod_Name pod) w \<noteq> Inr (Some e)" for e
    by (rule CheckIfPodPresent_unplanned [OF ok]) (simp add: fresh)
  have "?el \<noteq> []" and "set ?el \<subseteq> node_Name ` set nodes" using nodes by auto
  then obtain as m' node where plan:
      "BuildSchedulePlan ph listPods lister envs ?ns ?ps (pod_Name pod) ?el (w_assigned w) = (Inr as, m')"
      "map_of as (pod_Name pod) = Some node" "node \<in> set ?el"
    using scheduled_pod_served [where ns = ?ns and podSet = ?ps and listPods = listPods
        and m = "w_assigned w" and envs = envs, OF pods fresh(2) nodes(1) _ _ pool] by blast
  define p where "p = \<lparr>pl_Service = svc, pl_Namespace = ?ns, pl_Podset = ?ps,
    pl_ScheduledPod = pod_Name pod, pl_EligibleNodes = ?el\<rparr>"
  define w1 where "w1 = w\<lparr>w_assigned := m'\<rparr>"
  have look: "Lookup ?out ?ns ?ps (pod_Name pod) ?el w = Inr [p]"
    unfolding p_def by (rule system_Lookup) (rule services)
  have inv: "Invoke ?out [p] draws w = (Inr as, w1)"
    unfolding w1_def by (rule system_Invoke) (simp add: p_def plan)
  obtain w2 where upd: "service_Update ?out pod ?ps as w1 = (None, w2)"
    using client_Update_serves [OF ok, of w1 ?ns ?ps as] lift_kube_serves [OF kube(2)] kube(3)
    by (auto simp: service_Update_def system_outside_def w1_def)
  have fit: "plugin_findFit ?out tk draws pod ?el w = (Inr node, w2)"
    using trigger absent look inv plan(2) upd
    by (auto simp: plugin_findFit_def Let_def split: sum.splits option.splits)
  have "planned (?plans w2) ?ns ?ps (pod_Name pod) = Some node"
    by (rule findFit_planned(1) [OF ok system_rpc_ok _ fit]) (rule kube(3))
  moreover have "PreScore ?out tk draws pod eligible (state, w) =
      (NewStatus Success [], state(plannerAssignmentStateKey \<mapsto> AssignmentData node), w2)"
    using fit nodes(2) by (simp add: PreScore_def createAssignmentState_def)
  ultimately show ?thesis using plan(3) by auto
qed

theorem scheduled_pod_is_placed_witness:
  "\<exists>node w'. PreScore (system_outside ex_ph (\<lambda>_ _. Inr [ex_member]) (Inr [ex_node ''n1'', ex_node ''n2''])
       (\<lambda>_. ex_env) (\<lambda>_. Inr [\<lparr>svc_Name = ''planner'', svc_Namespace = ''kube-system''\<rparr>]) map_kube)
     ex_triggers [] ex_member [ex_node ''n2''] (Map.empty, (ex_w ''Schedule'')\<lparr>w_plans := []\<rparr>) =
       (NewStatus Success [], Map.empty(plannerAssignmentStateKey \<mapsto> AssignmentData node), w') \<and>
     node \<in> node_Name ` set [ex_node ''n2''] \<and>
     planned (map_of (w_plans w')) (pod_Namespace ex_member) (getPodSet ex_member) (pod_Name ex_member) = Some node"
proof (rule scheduled_pod_is_placed [where nodes = "[ex_node ''n1'', ex_node ''n2'']"
      and items = "[ex_member]" and t = "ex_trigger ''Schedule''"
      and svc = "\<lparr>svc_Name = ''planner'', svc_Namespace = ''kube-system''\<rparr>"])
  show "trigger_Get ex_triggers (pod_Namespace ex_member) (getPodSet ex_member)
      ((ex_w ''Schedule'')\<lparr>w_plans := []\<rparr>) = Inr (ex_trigger ''Schedule'')"
    by (simp add: ex_triggers_def lift_trigger_Get ex_w_def ex_trigger_Get)
  show "planned (map_of (w_plans ((ex_w ''Schedule'')\<lparr>w_plans := []\<rparr>))) (pod_Namespace ex_member)
      (getPodSet ex_member) (pod_Name ex_member) = None"
    by (simp add: planned_def)
qed (simp_all add: map_kube_ok map_kube_serves plans_wf_def ex_trigger_def ex_eligible
    ex_env_complete ex_ph_par, simp_all add: ex_member_def blank_pod_def active_def ex_w_def)

section \<open>Pods that must be kept apart\<close>

text \<open>
  The state in which the loop reaches a pod of a list of pending pods, for a pod that is newly
  placed, and an earlier one that is in the plan.
\<close>

lemma plan_reaches_pod:
  assumes pend: "\<forall>pod \<in> set (pre @ pod # post). pod_HostIP pod = ''''"
    and dist: "distinct (map pod_Name (pre @ pod # post))"
    and runs: "\<forall>pod \<in> set (pre @ pod # post). runs_ok ph (envs pod)"
    and names: "distinct (map node_Name nodes)"
    and start: "b_assignmentMap b0 = []" "b_podToNodeMap b0 (pod_key pod) = None"
    and res: "map_of (b_assignmentMap (plan_pods ph envs pods nodes (pre @ pod # post) b0)) (pod_Name pod) = Some node"
  shows "\<exists>n \<in> set nodes. node_Name n = node \<and>
    accepted ph (envs pod) pods pod (plan_pods ph envs pods nodes pre b0) n"
proof -
  have fresh: "pod_Name pod \<notin> pod_Name ` set pre" "pod_Name pod \<notin> pod_Name ` set post" using dist by auto
  obtain pre' pod' post' where split: "pre @ pod # post = pre' @ pod' # post'" "pod_Name pod' = pod_Name pod"
    and just: "justified ph envs pods nodes (plan_pods ph envs pods nodes pre' b0) pod' node"
    using plan_pods_justified [OF _ names res start(1)] runs by blast
  have "map pod_Name pre @ pod_Name pod # map pod_Name post = map pod_Name pre' @ pod_Name pod # map pod_Name post'"
    using arg_cong [OF split(1), of "map pod_Name"] split(2) by simp
  moreover have "pod_Name pod \<notin> set (map pod_Name post')"
    using dist split by (metis (no_types, lifting) append_Cons distinct.simps(2) distinct_append list.simps(9) map_append)
  ultimately have "map pod_Name pre = map pod_Name pre'"
    using split_at_last [of "map pod_Name pre" "pod_Name pod" "map pod_Name post" "map pod_Name pre'"] fresh(2) by auto
  then have "length pre = length pre'" by (metis length_map)
  with split(1) have eq: "pre' = pre" "pod' = pod" by auto
  have "pod_key pod \<notin> pod_key ` set pre" using fresh(1) by (auto simp: image_iff)
  then have "b_podToNodeMap (plan_pods ph envs pods nodes pre b0) (pod_key pod) = None"
    using start(2) by (simp add: plan_pods_frame)
  then have "GetNodeName l (b_podToNodeMap (plan_pods ph envs pods nodes pre b0)) pod \<noteq> Inr node" for l
    using pend by (simp add: GetNodeName_pending)
  with just show ?thesis by (auto simp: eq justified_def)
qed

lemma planned_before:
  assumes pend: "\<forall>pod \<in> set (pre @ rest). pod_HostIP pod = ''''"
    and dist: "distinct (map pod_Name (pre @ rest))" and q: "q \<in> set pre"
    and start: "b_assignmentMap b0 = []"
    and res: "map_of (b_assignmentMap (plan_pods ph envs pods nodes (pre @ rest) b0)) (pod_Name q) = Some node"
  shows "GetNodeName l (b_podToNodeMap (plan_pods ph envs pods nodes pre b0)) q = Inr node"
proof -
  have "pod_Name q \<notin> pod_Name ` set rest" using dist q by auto
  then have "map_of (b_assignmentMap (plan_pods ph envs pods nodes pre b0)) (pod_Name q) = Some node"
    using res by (simp add: plan_pods_append plan_pods_other)
  then have "b_podToNodeMap (plan_pods ph envs pods nodes pre b0) (pod_key q) = Some node"
    using plan_pods_remembered [of pre q b0] pend dist q start by auto
  then show ?thesis using pend q by (simp add: GetNodeName_pending)
qed

text \<open>
  C2: a plan keeps apart what has to be apart. If a plan for pending pods puts two of them on one
  node, and the later one was newly placed by the filters, then no required or preferred
  anti-affinity term of the later pod matches the earlier one, provided the live view of the
  cluster does not show another object under the earlier pod's name.
\<close>

theorem plan_keeps_pods_apart:
  assumes handler: "New [WithCallTimeout t, WithParallelism par] = Inr ph"
    and nodes: "getEligibleNodes lister = Inr nodes" "distinct (map node_Name nodes)"
    and pods: "podList = pre @ pod # post" "q \<in> set pre" "\<forall>pod \<in> set podList. pod_HostIP pod = ''''"
      "distinct (map pod_Name podList)" "\<forall>pod \<in> set podList. runs_ok ph (envs pod)"
    and fresh: "m (pod_key pod) = None" "sm (pod_key pod) = None"
    and plan: "BuildPlan ph lister envs podList podList sm m = (Inr as, m')"
      "map_of as (pod_Name pod) = Some node" "map_of as (pod_Name q) = Some node"
    and live: "\<forall>n ps r. ListPodsOnANode (env_cluster (envs pod)) n = Inr ps \<longrightarrow> r \<in> set ps \<longrightarrow>
      pod_key r = pod_key q \<longrightarrow> r = q"
  shows "\<forall>term \<in> set (getPodAntiAffinityTerms (pod_AntiAffinity pod)).
    \<exists>sel. LabelSelectorAsSelector (env_cluster (envs pod)) (pat_LabelSelector term) = Inr sel \<and>
      \<not> violates pod term sel q"
proof -
  let ?start = "\<lparr>b_podToNodeMap = m, b_schedulingMap = sm, b_assignmentMap = [], b_failedPodList = []\<rparr>"
  let ?mid = "plan_pods ph envs podList nodes pre ?start"
  let ?cl = "env_cluster (envs pod)"
  let ?hdl = "newPodSetHandler (env_lister (envs pod)) (b_podToNodeMap ?mid) podList"
  have as: "as = b_assignmentMap (plan_pods ph envs podList nodes (pre @ pod # post) ?start)"
    using plan(1) nodes(1) pods(1) by (simp add: BuildPlan_def Let_def)
  obtain n where n: "n \<in> set nodes" "node_Name n = node" "accepted ph (envs pod) podList pod ?mid n"
    using plan_reaches_pod [of pre pod post ph envs nodes ?start podList node] pods nodes(2) fresh plan(2) as by auto
  have "pod_key pod \<notin> pod_key ` set pre" using pods(1,4) by (auto simp: image_iff)
  then have "b_schedulingMap ?mid (pod_key pod) = None" using fresh(2) by (simp add: plan_pods_frame)
  with n(3) have "IsSuccess (podAntiAffinity_Filter ?cl ?hdl pod n)"
    by (simp add: accepted_def New_planner(1) [OF handler] in_tree_success)
  moreover obtain ps where ps: "ListPodsOnANode ?cl n = Inr ps"
    using calculation by (auto simp: podAntiAffinity_Filter_def split: sum.splits)
  obtain qs where qs: "hdl_List ?hdl n = Inr qs" "q \<in> set qs"
    using planned_before [of pre "pod # post" q ?start ph envs podList nodes node] pods plan(3) as n(2)
    by (auto simp: newPodSetHandler_def podset_List_def)
  have "q \<in> set (mergePods ps qs)" using live ps qs(2) by (auto simp: mergePods_mem image_iff)
  ultimately show ?thesis using podAntiAffinity_success [OF ps qs(1), of pod] by auto
qed

text \<open>Two pods of different deployments on one node; the second must not meet a database.\<close>

definition ex_apart :: Pod where
  "ex_apart = (ex_web_pod ''p'' [''y''])\<lparr>pod_AntiAffinity := pod_AntiAffinity ex_apart_pod\<rparr>"

definition ex_other :: Pod where
  "ex_other = ex_web_pod ''q'' [''x'']"

lemma ex_two_simps:
  "pod_Name ex_apart = ''p''" "pod_Name ex_other = ''q''" "pod_HostIP ex_apart = ''''" "pod_HostIP ex_other = ''''"
  "pod_Phase ex_apart = PodPending" "pod_Phase ex_other = PodPending"
  "pod_DeletionTimestamp ex_apart = None" "pod_DeletionTimestamp ex_other = None"
  "pod_key ex_other = \<lparr>nn_Namespace = '''', nn_Name = ''q''\<rparr>"
  "pod_key ex_apart = \<lparr>nn_Namespace = '''', nn_Name = ''p''\<rparr>"
  by (simp_all add: ex_apart_def ex_other_def ex_web_pod_def blank_pod_def pod_key_def)

lemma ex_two_passes:
  "IsSuccess (RunFilterPredicates in_tree_filters (ex_cluster []) (newPodSetHandler l
     [\<lparr>nn_Namespace = '''', nn_Name = ''q''\<rparr> \<mapsto> ''n1''] [ex_other, ex_apart]) ex_apart (ex_node ''n1''))"
  by (simp add: in_tree_success podAntiAffinity_Filter_def podIsADuplicate_Filter_def
      podFitsNode_Filter_def checkPodsWithAntiAffinityExist_def newPodSetHandler_def podset_List_def
      GetNodeName_def getPodNode_def ex_two_simps ex_cluster_def mergePods_def)
    (simp add: ex_apart_def ex_other_def ex_web_pod_def ex_apart_pod_def blank_pod_def
      getPodAntiAffinityTerms_def computePodResourceRequest_def emptyResource_def getPodContainerKeys_def
      PodMatchesTermsNamespaceAndSelector_def Resource_Add_def Let_def)

lemma ex_two_plan:
  "BuildPlan ex_ph (Inr [ex_node ''n1'']) (\<lambda>_. ex_env) [ex_other, ex_apart] [ex_other, ex_apart] Map.empty
     [\<lparr>nn_Namespace = '''', nn_Name = ''q''\<rparr> \<mapsto> ''n1''] =
   (Inr [(''q'', ''n1''), (''p'', ''n1'')],
    [\<lparr>nn_Namespace = '''', nn_Name = ''q''\<rparr> \<mapsto> ''n1'', \<lparr>nn_Namespace = '''', nn_Name = ''p''\<rparr> \<mapsto> ''n1''])"
  using ex_two_passes
  by (simp add: BuildPlan_def getEligibleNodes_def plan_pod_def GetNodeName_def getPodNode_def ex_env_def
      getEligibleNodes_cached_def getEligibleNodesForPod_def FindNodes_filter ex_ph_simps
      findFit_def RunScore_map selectNode_def setPodNode_def ex_two_simps Let_def)

definition ex_db_term :: PodAffinityTerm where
  "ex_db_term = hd (getPodAntiAffinityTerms (pod_AntiAffinity ex_apart))"

theorem plan_keeps_pods_apart_witness:
  "getPodAntiAffinityTerms (pod_AntiAffinity ex_apart) = [ex_db_term] \<and>
   (\<exists>sel. LabelSelectorAsSelector (env_cluster ex_env) (pat_LabelSelector ex_db_term) = Inr sel \<and>
     \<not> violates ex_apart ex_db_term sel ex_other)"
proof -
  have terms: "getPodAntiAffinityTerms (pod_AntiAffinity ex_apart) = [ex_db_term]"
    by (simp add: ex_db_term_def ex_apart_def ex_apart_pod_def getPodAntiAffinityTerms_def)
  have "runs_ok ex_ph ex_env" by (rule runs_complete_ok [OF ex_env_complete])
  then have "\<forall>term \<in> set (getPodAntiAffinityTerms (pod_AntiAffinity ex_apart)).
     \<exists>sel. LabelSelectorAsSelector (env_cluster ex_env) (pat_LabelSelector term) = Inr sel \<and>
       \<not> violates ex_apart term sel ex_other"
    using plan_keeps_pods_apart [OF ex_ph_New _ _ _ _ _ _ _ _ _ ex_two_plan, where
        nodes = "[ex_node ''n1'']" and pre = "[ex_other]" and post = "[]" and pod = ex_apart and q = ex_other
        and node = "''n1''"]
    by (simp add: ex_two_simps getEligibleNodes_def ex_env_def ex_cluster_def)
  then show ?thesis by (simp add: terms)
qed

end
